(* ===== verification/Prelude.thy ===== *)
theory Prelude
  imports Main "HOL-Library.Word" "HOL-Library.Monad_Syntax" "HOL-Library.AList"
    "HOL-Library.Char_ord" "HOL-Library.List_Lexorder" "HOL-Library.Product_Lexorder"
begin

unbundle bit_operations_syntax

text \<open>
  What every component shares.

  \<^item> Machine integers: the widths of \<open>uint8_t\<close>, \<open>uint32_t\<close>, \<open>uint64_t\<close>, and their
    little-endian byte images (the program runs on x86-64 and writes integers by
    reinterpreting their memory).
  \<^item> \<open>std::map\<close>: an association list sorted by key, with insertion, lookup and the
    iterator positions \<open>lower_bound\<close> and \<open>upper_bound\<close>.
  \<^item> \<open>std::lower_bound\<close> and \<open>std::upper_bound\<close> on a vector: binary search.
  \<^item> \<open>std::to_string\<close> on unsigned integers.
  \<^item> Mutexes. Every class guards its methods with one non-recursive \<open>std::mutex\<close> or
    \<open>std::shared_mutex\<close>; \<open>guarded\<close> is the scope of a lock guard. Operations are functions into
    \<open>option\<close>: \<open>None\<close> says that the call does not return, because it waits for ever or runs into
    undefined behaviour. A method that locks the mutex its own thread already holds waits for
    ever on a \<open>std::mutex\<close> and throws on a \<open>std::shared_mutex\<close>; a call that can throw so has
    an \<open>attempt\<close> as its result, and \<open>relock\<close> marks the place.
\<close>

named_theorems map_simps \<open>facts on the ordered map of the standard library\<close>
named_theorems codec_simps \<open>round trips of the byte encodings\<close>
named_theorems guard_simps \<open>facts on operations that run under a mutex\<close>

section \<open>Machine integers and their bytes\<close>

type_synonym u8 = "8 word"
type_synonym u16 = "16 word"
type_synonym u32 = "32 word"
type_synonym u64 = "64 word"

fun le_bytes :: "nat \<Rightarrow> nat \<Rightarrow> string" where
  "le_bytes 0 n = []"
| "le_bytes (Suc k) n = char_of (n mod 256) # le_bytes k (n div 256)"

fun le_nat :: "string \<Rightarrow> nat" where
  "le_nat [] = 0"
| "le_nat (c # cs) = of_char c + 256 * le_nat cs"

lemma length_le_bytes [simp]: "length (le_bytes k n) = k"
  by (induction k arbitrary: n) auto

lemma le_nat_le_bytes: "le_nat (le_bytes k n) = n mod 256 ^ k"
proof (induction k arbitrary: n)
  case 0
  then show ?case by simp
next
  case (Suc k)
  have "le_nat (le_bytes (Suc k) n) = n mod 256 + 256 * (n div 256 mod 256 ^ k)"
    by (simp add: Suc)
  also have "\<dots> = n mod 256 ^ Suc k"
    by (simp add: mod_mult2_eq)
  finally show ?case .
qed

lemma le_nat_bytes_small [codec_simps]: "n < 256 ^ k \<Longrightarrow> le_nat (le_bytes k n) = n"
  by (simp add: le_nat_le_bytes)

lemma le_nat_u32 [codec_simps]: "le_nat (le_bytes 4 (unat (w :: u32))) = unat w"
  using unsigned_less [of w, where ?'a = nat] by (simp add: le_nat_le_bytes)

lemma le_nat_u64 [codec_simps]: "le_nat (le_bytes 8 (unat (w :: u64))) = unat w"
  using unsigned_less [of w, where ?'a = nat] by (simp add: le_nat_le_bytes)

lemma word_of_nat_inverse_u32 [codec_simps]: "n < 2 ^ 32 \<Longrightarrow> unat (word_of_nat n :: u32) = n"
  by (simp add: unat_of_nat)

lemma word_of_nat_inverse_u64 [codec_simps]: "n < 2 ^ 64 \<Longrightarrow> unat (word_of_nat n :: u64) = n"
  by (simp add: unat_of_nat)

lemma next_id_step: "n \<noteq> - 1 \<Longrightarrow> unat (n + 1 :: u64) = Suc (unat n)"
proof -
  assume "n \<noteq> - 1"
  then have "1 + n \<noteq> 0" by (metis add.commute add.right_inverse add_left_cancel)
  then show ?thesis using unatSuc [of n] by (simp add: add.commute)
qed

lemma word_step_less: "n \<noteq> - 1 \<Longrightarrow> (n :: u64) < n + 1"
  by (simp add: word_less_nat_alt next_id_step)

text \<open>Division of C++ on signed counts by a positive number: it truncates towards zero.\<close>

definition cxx_div :: "int \<Rightarrow> int \<Rightarrow> int" where
  "cxx_div num den =
     (if 0 \<le> num then num div den else - ((- num) div den))"

lemma cxx_div_nonneg [simp]: "0 \<le> num \<Longrightarrow> cxx_div num den = num div den"
  by (simp add: cxx_div_def)

section \<open>Decimal text of an unsigned integer\<close>

fun digits_of :: "nat \<Rightarrow> nat list" where
  "digits_of n = (if n < 10 then [n] else digits_of (n div 10) @ [n mod 10])"

declare digits_of.simps [simp del]

definition to_string :: "nat \<Rightarrow> string" where
  "to_string n = map (\<lambda>d. char_of (48 + d)) (digits_of n)"

definition digits_val :: "nat list \<Rightarrow> nat" where
  "digits_val ds = foldl (\<lambda>a d. 10 * a + d) 0 ds"

lemma digits_val_digits_of [simp]: "digits_val (digits_of n) = n"
proof (induction n rule: digits_of.induct)
  case (1 n)
  show ?case
  proof (cases "n < 10")
    case True
    then show ?thesis by (simp add: digits_of.simps [of n] digits_val_def)
  next
    case False
    with 1 show ?thesis
      by (simp add: digits_of.simps [of n] digits_val_def)
  qed
qed

lemma digits_of_small: "d \<in> set (digits_of n) \<Longrightarrow> d < 10"
proof (induction n rule: digits_of.induct)
  case (1 n)
  then show ?case
    by (cases "n < 10") (auto simp: digits_of.simps [of n])
qed

lemma to_string_inj [simp]: "to_string m = to_string n \<longleftrightarrow> m = n"
proof
  have eq: "map (\<lambda>c. of_char c - 48 :: nat) (to_string k) = digits_of k" for k
  proof -
    have "map ((\<lambda>c. of_char c - 48 :: nat) \<circ> (\<lambda>d. char_of (48 + d))) (digits_of k)
        = map (\<lambda>d. d) (digits_of k)"
    proof (rule map_cong [OF refl])
      fix d assume "d \<in> set (digits_of k)"
      then have "d < 10" by (rule digits_of_small)
      then show "((\<lambda>c. of_char c - 48 :: nat) \<circ> (\<lambda>d. char_of (48 + d))) d = d" by simp
    qed
    then show ?thesis by (simp add: to_string_def comp_def)
  qed
  assume "to_string m = to_string n"
  then have "digits_of m = digits_of n" by (metis eq)
  then show "m = n" by (metis digits_val_digits_of)
qed simp

section \<open>The ordered map of the standard library\<close>

text \<open>
  \<open>std::map\<close> keeps its entries sorted by key; the model is the list of its entries in
  iteration order. \<open>om_insert\<close> is \<open>m[k] = v\<close>, \<open>map_of\<close> is \<open>find\<close>, and an iterator is
  an index into the list, with \<open>length m\<close> for \<open>end()\<close>.
\<close>

abbreviation om_sorted :: "('k::linorder \<times> 'v) list \<Rightarrow> bool" where
  "om_sorted m \<equiv> sorted_wrt (<) (map fst m)"

fun om_insert :: "'k::linorder \<Rightarrow> 'v \<Rightarrow> ('k \<times> 'v) list \<Rightarrow> ('k \<times> 'v) list" where
  "om_insert k v [] = [(k, v)]"
| "om_insert k v ((k', v') # m) =
     (if k < k' then (k, v) # (k', v') # m
      else if k = k' then (k, v) # m
      else (k', v') # om_insert k v m)"

definition om_lower_bound :: "'k::linorder \<Rightarrow> ('k \<times> 'v) list \<Rightarrow> nat" where
  "om_lower_bound k m = length (takeWhile (\<lambda>e. fst e < k) m)"

definition om_upper_bound :: "'k::linorder \<Rightarrow> ('k \<times> 'v) list \<Rightarrow> nat" where
  "om_upper_bound k m = length (takeWhile (\<lambda>e. fst e \<le> k) m)"

lemma map_of_om_insert [simp, map_simps]: "map_of (om_insert k v m) = (map_of m)(k \<mapsto> v)"
  by (induction m) auto

lemma om_insert_keys [simp, map_simps]: "fst ` set (om_insert k v m) = insert k (fst ` set m)"
  by (induction k v m rule: om_insert.induct) (simp_all add: insert_commute)

lemma om_insert_nonempty [simp]: "om_insert k v m \<noteq> []"
  by (cases "(k, v, m)" rule: om_insert.cases) auto

lemma om_insert_sorted [intro]: "om_sorted m \<Longrightarrow> om_sorted (om_insert k v m)"
proof (induction m)
  case (Cons e m)
  then show ?case
    by (cases e) (auto simp: om_insert_keys [unfolded image_image] dest: less_trans)
qed simp

lemma om_sorted_distinct: "om_sorted m \<Longrightarrow> distinct (map fst m)"
  by (simp add: strict_sorted_iff)

lemma om_insert_sum_new:
  fixes f :: "'k::linorder \<times> 'v \<Rightarrow> 'a::comm_monoid_add"
  assumes "map_of m k = None"
  shows "sum_list (map f (om_insert k v m)) = f (k, v) + sum_list (map f m)"
  using assms by (induction m) (auto simp: add_ac split: if_splits)

lemma om_insert_sum_old:
  fixes f :: "'k::linorder \<times> 'v \<Rightarrow> 'a::ab_group_add"
  assumes "om_sorted m" and "map_of m k = Some w"
  shows "sum_list (map f (om_insert k v m)) = f (k, v) - f (k, w) + sum_list (map f m)"
  using assms
proof (induction m)
  case (Cons e m)
  obtain k' v' where e: "e = (k', v')" by (cases e)
  show ?case
  proof (cases "k = k'")
    case True
    with Cons.prems e show ?thesis by simp
  next
    case False
    with Cons.prems e have "k \<in> fst ` set m"
      by (auto dest!: map_of_SomeD intro: rev_image_eqI)
    with Cons.prems e have "\<not> k < k'" by auto
    with False Cons e show ?thesis by (simp add: algebra_simps)
  qed
qed simp

lemma om_insert_length:
  "om_sorted m \<Longrightarrow> length (om_insert k v m) =
     (if map_of m k = None then Suc (length m) else length m)"
proof (induction m)
  case (Cons e m)
  then show ?case
    by (cases e) (auto simp: map_of_eq_None_iff dest: bspec)
qed simp

lemma om_lower_bound_le [simp]: "om_lower_bound k m \<le> length m"
  by (simp add: om_lower_bound_def length_takeWhile_le)

lemma om_upper_bound_le [simp]: "om_upper_bound k m \<le> length m"
  by (simp add: om_upper_bound_def length_takeWhile_le)

lemma om_bounds_mono: "a \<le> b \<Longrightarrow> om_lower_bound a m \<le> om_upper_bound b m"
  by (induction m) (auto simp: om_lower_bound_def om_upper_bound_def)

text \<open>The slice between two iterators, read as a filter on the keys.\<close>

lemma om_drop_lower:
  "om_sorted m \<Longrightarrow> drop (om_lower_bound a m) m = filter (\<lambda>e. a \<le> fst e) m"
proof (induction m)
  case (Cons e m)
  then show ?case
    by (auto simp: om_lower_bound_def not_less filter_id_conv intro!: sym [OF filter_True])
qed (simp add: om_lower_bound_def)

lemma om_take_upper:
  "om_sorted m \<Longrightarrow> take (om_upper_bound b m) m = filter (\<lambda>e. fst e \<le> b) m"
proof (induction m)
  case (Cons e m)
  then show ?case
    by (auto simp: om_upper_bound_def not_le intro!: sym [OF filter_False])
qed (simp add: om_upper_bound_def)

lemma filter_om_sorted [intro]: "om_sorted m \<Longrightarrow> om_sorted (filter P m)"
  by (induction m) auto

lemma om_slice:
  assumes "om_sorted m"
  shows "take (om_upper_bound b m - om_lower_bound a m) (drop (om_lower_bound a m) m)
    = filter (\<lambda>e. a \<le> fst e \<and> fst e \<le> b) m"
proof -
  have "take (om_upper_bound b m - om_lower_bound a m) (drop (om_lower_bound a m) m)
      = drop (om_lower_bound a m) (take (om_upper_bound b m) m)"
    by (simp add: drop_take)
  also have "\<dots> = filter (\<lambda>e. a \<le> fst e \<and> fst e \<le> b) m"
    using assms
  proof (induction m)
    case (Cons e m)
    then show ?case
      by (auto simp: om_lower_bound_def om_upper_bound_def not_le not_less filter_empty_conv
          intro!: sym [OF filter_False])
        (use om_take_upper [of m b] in \<open>auto simp: om_upper_bound_def intro!: filter_cong\<close>)
  qed simp
  finally show ?thesis .
qed

section \<open>Binary search on a vector\<close>

text \<open>
  \<open>std::lower_bound\<close> and \<open>std::upper_bound\<close> halve the range \<open>[first, first + len)\<close>;
  \<open>p i\<close> says that the element at \<open>i\<close> belongs to the left part. On a partitioned vector
  the result is the partition point.
\<close>

function bound_loop :: "(nat \<Rightarrow> bool) \<Rightarrow> nat \<Rightarrow> nat \<Rightarrow> nat" where
  "bound_loop p first len =
     (if len = 0 then first
      else let half = len div 2; mid = first + half
           in if p mid then bound_loop p (Suc mid) (len - half - 1)
              else bound_loop p first half)"
  by pat_completeness auto
termination
  by (relation "measure (\<lambda>(p, first, len). len)") auto

declare bound_loop.simps [simp del]

definition vec_lower_bound :: "('a \<Rightarrow> 'k \<Rightarrow> bool) \<Rightarrow> 'a list \<Rightarrow> 'k \<Rightarrow> nat" where
  "vec_lower_bound before xs k = bound_loop (\<lambda>i. before (xs ! i) k) 0 (length xs)"

definition vec_upper_bound :: "('k \<Rightarrow> 'a \<Rightarrow> bool) \<Rightarrow> 'a list \<Rightarrow> 'k \<Rightarrow> nat" where
  "vec_upper_bound before xs k = bound_loop (\<lambda>i. \<not> before k (xs ! i)) 0 (length xs)"

lemma bound_loop_partition:
  assumes "first \<le> n" and "n \<le> first + len"
    and "\<And>i. first \<le> i \<Longrightarrow> i < first + len \<Longrightarrow> p i \<longleftrightarrow> i < n"
  shows "bound_loop p first len = n"
  using assms
proof (induction p first len rule: bound_loop.induct)
  case (1 p first len)
  show ?case
  proof (cases "len = 0")
    case True
    with "1.prems" show ?thesis by (simp add: bound_loop.simps [of p first 0])
  next
    case False
    let ?half = "len div 2"
    let ?mid = "first + ?half"
    have lt: "?half < len" using False by simp
    show ?thesis
    proof (cases "p ?mid")
      case True
      have "?mid < n" using "1.prems"(3) [of ?mid] lt True by simp
      then have "bound_loop p (Suc ?mid) (len - ?half - 1) = n"
        using "1.prems" lt by (intro "1.IH"(1) [OF False refl refl True]) auto
      with False True show ?thesis by (simp add: bound_loop.simps [of p first len])
    next
      case no: False
      have "n \<le> ?mid" using "1.prems"(3) [of ?mid] lt no by simp
      then have "bound_loop p first ?half = n"
        using "1.prems" lt by (intro "1.IH"(2) [OF False refl refl no]) auto
      with False no show ?thesis by (simp add: bound_loop.simps [of p first len])
    qed
  qed
qed

lemma bound_loop_sorted_split:
  assumes "\<And>i j. i < j \<Longrightarrow> j < length xs \<Longrightarrow> q (xs ! j) \<Longrightarrow> q (xs ! i)"
  shows "bound_loop (\<lambda>i. q (xs ! i)) 0 (length xs) = length (takeWhile q xs)"
proof (rule bound_loop_partition)
  fix i assume i: "i < 0 + length xs"
  let ?n = "length (takeWhile q xs)"
  show "q (xs ! i) \<longleftrightarrow> i < ?n"
  proof
    assume "i < ?n"
    then show "q (xs ! i)"
      by (metis nth_mem set_takeWhileD takeWhile_nth)
  next
    assume qi: "q (xs ! i)"
    show "i < ?n"
    proof (rule ccontr)
      assume "\<not> i < ?n"
      then have n: "?n \<le> i" by simp
      with i have "\<not> q (xs ! ?n)" by (intro nth_length_takeWhile) simp
      moreover have "q (xs ! ?n)" using n qi i assms [of ?n i] by (cases "?n = i") auto
      ultimately show False by simp
    qed
  qed
qed (auto simp: length_takeWhile_le)

lemma vec_lower_bound_map:
  assumes "sorted_wrt (<) (map f xs)"
  shows "vec_lower_bound (\<lambda>x k. f x < (k :: 'k::linorder)) xs k
    = length (takeWhile (\<lambda>x. f x < k) xs)"
  unfolding vec_lower_bound_def
proof (rule bound_loop_sorted_split)
  fix i j assume "i < j" "j < length xs" "f (xs ! j) < k"
  moreover have "f (xs ! i) < f (xs ! j)"
    using sorted_wrt_nth_less [OF assms, of i j] \<open>i < j\<close> \<open>j < length xs\<close> by simp
  ultimately show "f (xs ! i) < k" by simp
qed

lemma vec_upper_bound_map:
  assumes "sorted_wrt (<) (map f xs)"
  shows "vec_upper_bound (\<lambda>k x. (k :: 'k::linorder) < f x) xs k
    = length (takeWhile (\<lambda>x. f x \<le> k) xs)"
proof -
  have "bound_loop (\<lambda>i. f (xs ! i) \<le> k) 0 (length xs) = length (takeWhile (\<lambda>x. f x \<le> k) xs)"
  proof (rule bound_loop_sorted_split)
    fix i j assume "i < j" "j < length xs" "f (xs ! j) \<le> k"
    moreover have "f (xs ! i) < f (xs ! j)"
      using sorted_wrt_nth_less [OF assms, of i j] \<open>i < j\<close> \<open>j < length xs\<close> by simp
    ultimately show "f (xs ! i) \<le> k" by simp
  qed
  then show ?thesis by (simp add: vec_upper_bound_def not_less)
qed

section \<open>Mutexes\<close>

type_synonym ('s, 'a) op = "'s \<Rightarrow> ('a \<times> 's) option"

text \<open>
  The section of code that a lock guard covers. On a mutex that the calling thread already holds
  it has no value: a \<open>std::mutex\<close> waits there for ever.
\<close>

definition guarded ::
    "('s \<Rightarrow> bool) \<Rightarrow> (bool \<Rightarrow> 's \<Rightarrow> 's) \<Rightarrow> ('s, 'a) op \<Rightarrow> ('s, 'a) op" where
  "guarded held set_held body s =
     (if held s then None
      else do { (r, t) \<leftarrow> body (set_held True s); Some (r, set_held False t) })"

lemma guarded_SomeE:
  assumes "guarded held set_held body s = Some (r, t)"
  obtains u where "\<not> held s" and "body (set_held True s) = Some (r, u)" and "t = set_held False u"
  using assms by (auto simp: guarded_def bind_eq_Some_conv split: if_splits)

text \<open>
  A \<open>std::shared_mutex\<close> answers otherwise: the lock of glibc underneath finds that its writer is
  the calling thread and reports \<open>EDEADLK\<close>, which libstdc++ throws as a \<open>std::system_error\<close>, from
  \<open>lock()\<close> and from \<open>lock_shared()\<close>. A call that can end so has an \<open>attempt\<close> as its result, and the
  state is the one at the throw; guards that it leaves release their mutexes as on a return.
  \<open>relock\<close> is a call to a method of the same object from code that may hold the mutex.
\<close>

datatype 'a attempt = Returns 'a | Raises

definition returning :: "('s, 'a) op \<Rightarrow> ('s, 'a attempt) op" where
  "returning f s = map_option (apfst Returns) (f s)"

definition relock :: "('s \<Rightarrow> bool) \<Rightarrow> ('s, 'a attempt) op \<Rightarrow> ('s, 'a attempt) op" where
  "relock held f s = (if held s then Some (Raises, s) else f s)"

definition and_then :: "('s, 'a attempt) op \<Rightarrow> ('a \<Rightarrow> ('s, 'b attempt) op) \<Rightarrow> ('s, 'b attempt) op" where
  "and_then f g s =
     do { (r, s) \<leftarrow> f s; case r of Returns a \<Rightarrow> g a s | Raises \<Rightarrow> Some (Raises, s) }"

text \<open>\<open>try { ... } catch (const std::exception& e) {}\<close>\<close>

definition caught :: "('s, 'a attempt) op \<Rightarrow> ('s, unit) op" where
  "caught f s = map_option (apfst (\<lambda>_. ())) (f s)"

lemma relock_held [simp]: "held s \<Longrightarrow> relock held f s = Some (Raises, s)"
  and relock_free [simp]: "\<not> held s \<Longrightarrow> relock held f s = f s"
  by (simp_all add: relock_def)

lemma returning_Some [simp]:
  "returning f s = Some (r, t) \<longleftrightarrow> (\<exists>a. r = Returns a \<and> f s = Some (a, t))"
  by (auto simp: returning_def)

lemma returning_eq: "f s = Some (a, t) \<Longrightarrow> returning f s = Some (Returns a, t)"
  by simp

lemma and_then_Some:
  "and_then f g s = Some (r, t) \<longleftrightarrow>
     (f s = Some (Raises, t) \<and> r = Raises) \<or> (\<exists>a u. f s = Some (Returns a, u) \<and> g a u = Some (r, t))"
proof (cases "f s")
  case (Some p)
  obtain q u where "p = (q, u)" by fastforce
  with Some show ?thesis by (cases q) (auto simp: and_then_def)
qed (simp add: and_then_def)

lemma and_then_raises: "f s = Some (Raises, t) \<Longrightarrow> and_then f g s = Some (Raises, t)"
  and and_then_returns: "f s = Some (Returns a, t) \<Longrightarrow> and_then f g s = g a t"
  by (simp_all add: and_then_def)

lemma attempt_map_Returns:
  assumes "map_attempt f r = Returns b"
  obtains a where "r = Returns a" and "b = f a"
  using assms by (cases r) simp_all

lemma caught_Some [simp]: "caught f s = Some (v, t) \<longleftrightarrow> (\<exists>r. f s = Some (r, t))"
  by (cases "f s") (auto simp: caught_def)

text \<open>A destructor that stops what is still running and drops the result.\<close>

definition destructor :: "('s \<Rightarrow> bool) \<Rightarrow> ('s, 'a) op \<Rightarrow> ('s, unit) op" where
  "destructor running stop s = (if running s then map_option (apfst (\<lambda>_. ())) (stop s) else Some ((), s))"

lemma destructor_idle [simp]: "\<not> running s \<Longrightarrow> destructor running stop s = Some ((), s)"
  by (simp add: destructor_def)

text \<open>
  The contract of a class with a mutex: a flag that says whether the running thread holds
  it. Every such class of the model interprets it.
\<close>

locale mutex_class =
  fixes held :: "'s \<Rightarrow> bool" and set_held :: "bool \<Rightarrow> 's \<Rightarrow> 's"
  assumes held_set: "held (set_held b s) = b"
    and set_set: "set_held b (set_held c s) = set_held b s"
    and set_same: "held s = b \<Longrightarrow> set_held b s = s"
begin

lemma held_stuck: "held s \<Longrightarrow> guarded held set_held body s = None"
  by (simp add: guarded_def)

lemma reentrant_stuck: "guarded held set_held (guarded held set_held body) s = None"
  by (simp add: guarded_def held_set)

lemma body_stuck:
  "body (set_held True s) = None \<Longrightarrow> guarded held set_held body s = None"
  by (simp add: guarded_def)

lemma runs:
  "\<not> held s \<Longrightarrow> body (set_held True s) = Some (r, t) \<Longrightarrow>
   guarded held set_held body s = Some (r, set_held False t)"
  by (simp add: guarded_def)

lemma releases: "guarded held set_held body s = Some (r, t) \<Longrightarrow> \<not> held t"
  by (auto simp: guarded_def held_set bind_eq_Some_conv split: if_splits prod.splits)

lemma was_free: "guarded held set_held body s = Some (r, t) \<Longrightarrow> \<not> held s"
  by (auto simp: guarded_def split: if_splits)

lemma invariant:
  assumes "guarded held set_held body s = Some (r, t)" and "I s"
    and "\<And>b s. I (set_held b s) = I s"
    and "\<And>s r t. held s \<Longrightarrow> body s = Some (r, t) \<Longrightarrow> I s \<Longrightarrow> I t"
  shows "I t"
proof -
  from assms(1) obtain u where body: "body (set_held True s) = Some (r, u)"
    and t: "t = set_held False u"
    by (auto simp: guarded_def bind_eq_Some_conv split: if_splits prod.splits)
  from assms(2,3) have "I (set_held True s)" by simp
  with body have "I u" using assms(4) held_set by blast
  then show ?thesis by (simp add: t assms(3))
qed

end

text \<open>An operation preserves a property of the state when it returns.\<close>

definition op_keeps :: "('s \<Rightarrow> bool) \<Rightarrow> ('s, 'a) op \<Rightarrow> bool" where
  "op_keeps I f \<longleftrightarrow> (\<forall>s r t. I s \<longrightarrow> f s = Some (r, t) \<longrightarrow> I t)"

lemma op_keepsI: "(\<And>s r t. I s \<Longrightarrow> f s = Some (r, t) \<Longrightarrow> I t) \<Longrightarrow> op_keeps I f"
  by (auto simp: op_keeps_def)

lemma op_keepsD: "op_keeps I f \<Longrightarrow> f s = Some (r, t) \<Longrightarrow> I s \<Longrightarrow> I t"
  by (auto simp: op_keeps_def)

lemma op_keeps_bind:
  assumes "op_keeps I f" and "\<And>r. op_keeps I (g r)"
  shows "op_keeps I (\<lambda>s. do { (r, s) \<leftarrow> f s; g r s })"
proof (rule op_keepsI)
  fix s r t
  assume "I s" and "do { (r, s) \<leftarrow> f s; g r s } = Some (r, t)"
  then obtain q u where "f s = Some (q, u)" "g q u = Some (r, t)"
    by (cases "f s") (auto split: prod.splits)
  with \<open>I s\<close> assms show "I t" by (blast dest: op_keepsD)
qed

lemma op_keeps_returning: "op_keeps I f \<Longrightarrow> op_keeps I (returning f)"
  by (auto intro!: op_keepsI dest: op_keepsD)

lemma op_keeps_relock: "op_keeps I f \<Longrightarrow> op_keeps I (relock held f)"
  by (rule op_keepsI) (auto simp: relock_def dest: op_keepsD split: if_splits)

lemma op_keeps_and_then: "op_keeps I f \<Longrightarrow> (\<And>a. op_keeps I (g a)) \<Longrightarrow> op_keeps I (and_then f g)"
  by (rule op_keepsI) (auto simp: and_then_Some dest: op_keepsD)

lemma op_keeps_caught: "op_keeps I f \<Longrightarrow> op_keeps I (caught f)"
  by (rule op_keepsI) (auto dest: op_keepsD)

lemma op_keeps_conj: "op_keeps I f \<Longrightarrow> op_keeps J f \<Longrightarrow> op_keeps (\<lambda>s. I s \<and> J s) f"
  by (rule op_keepsI) (blast dest: op_keepsD)

context mutex_class
begin

lemma keeps_guarded:
  assumes "\<And>b s. I (set_held b s) = I s" and "\<And>s r t. I s \<Longrightarrow> body s = Some (r, t) \<Longrightarrow> I t"
  shows "op_keeps I (guarded held set_held body)"
proof (rule op_keepsI)
  fix s r t
  assume "I s" and "guarded held set_held body s = Some (r, t)"
  then obtain u where u: "body (set_held True s) = Some (r, u)" "t = set_held False u"
    and "I (set_held True s)"
    by (elim guarded_SomeE) (simp add: assms(1))
  from assms(2) [OF this(3) u(1)] show "I t" by (simp add: u(2) assms(1))
qed

lemma keeps_free: "op_keeps (\<lambda>s. \<not> held s) (guarded held set_held body)"
  by (rule op_keepsI) (rule releases)

end

end
