(* ===== verification/Common_Types.thy ===== *)
theory Common_Types
  imports Prelude
begin

text \<open>
  The types of \<open>include/cache/common/types.h\<close>: two-level keys with their order, data
  entries, status codes, the \<open>Result\<close> template, range queries and the size limits.
  Strings are byte strings (\<open>char\<close> is one byte, ordered by its unsigned value, which is
  how \<open>std::string\<close> compares). A \<open>time_point\<close> of the system clock is its count of
  nanoseconds; every reading of the clock is an argument of the operation that reads it.
\<close>

type_synonym time_point = int
type_synonym millis = int
type_synonym node_id = string

text \<open>A count of milliseconds as a difference of time points.\<close>

definition millis_ns :: "millis \<Rightarrow> int" where "millis_ns t = t * 1000000"

datatype multi_level_key = MultiLevelKey (primary_key: string) (secondary_key: string)

definition key_to_string :: "multi_level_key \<Rightarrow> string" where
  "key_to_string k = primary_key k @ '':'' @ secondary_key k"

definition key_less :: "multi_level_key \<Rightarrow> multi_level_key \<Rightarrow> bool" where
  "key_less a b =
     (if primary_key a \<noteq> primary_key b then primary_key a < primary_key b
      else secondary_key a < secondary_key b)"

instantiation multi_level_key :: linorder
begin

definition less_multi_level_key :: "multi_level_key \<Rightarrow> multi_level_key \<Rightarrow> bool" where
  "less_multi_level_key = key_less"

definition less_eq_multi_level_key :: "multi_level_key \<Rightarrow> multi_level_key \<Rightarrow> bool" where
  "less_eq_multi_level_key a b = (a = b \<or> a < b)"

instance
proof
  fix a b c :: multi_level_key
  show "(a < b) = (a \<le> b \<and> \<not> b \<le> a)"
    by (auto simp: less_multi_level_key_def key_less_def less_eq_multi_level_key_def split: if_splits)
  show "a \<le> a" by (simp add: less_eq_multi_level_key_def)
  show "a \<le> b \<Longrightarrow> b \<le> c \<Longrightarrow> a \<le> c"
    by (auto simp: less_multi_level_key_def key_less_def less_eq_multi_level_key_def split: if_splits)
  show "a \<le> b \<Longrightarrow> b \<le> a \<Longrightarrow> a = b"
    by (auto simp: less_multi_level_key_def key_less_def less_eq_multi_level_key_def split: if_splits)
  show "a \<le> b \<or> b \<le> a"
    by (cases a; cases b)
      (auto simp: less_multi_level_key_def key_less_def less_eq_multi_level_key_def)
qed

end

lemma key_order_lex:
  "(MultiLevelKey p s < MultiLevelKey p' s') \<longleftrightarrow> p < p' \<or> (p = p' \<and> s < s')"
  by (auto simp: less_multi_level_key_def key_less_def)

record data_entry =
  entry_value :: string
  version :: u64
  timestamp :: u64
  deleted :: bool

definition millis_of :: "time_point \<Rightarrow> u64" where
  "millis_of now = word_of_int (cxx_div now 1000000)"

definition DataEntry_default :: "time_point \<Rightarrow> data_entry" where
  "DataEntry_default now =
     \<lparr>entry_value = [], version = 0, timestamp = millis_of now, deleted = False\<rparr>"

definition DataEntry :: "time_point \<Rightarrow> string \<Rightarrow> u64 \<Rightarrow> data_entry" where
  "DataEntry now val ver =
     \<lparr>entry_value = val, version = ver, timestamp = millis_of now, deleted = False\<rparr>"

datatype status =
    OK | NOT_FOUND | VERSION_CONFLICT | TIMEOUT | NETWORK_ERROR | STORAGE_ERROR
  | PERMISSION_DENIED | INVALID_ARGUMENT | CLUSTER_ERROR | ALREADY_EXISTS
  | NOT_IMPLEMENTED | SERVICE_UNAVAILABLE | UNAUTHORIZED | FORBIDDEN
  | DEADLOCK_DETECTED | INVALID_STATE | TRANSACTION_ABORTED | INSUFFICIENT_DATA

text \<open>
  \<open>Result<T>\<close>: the code builds it as \<open>Result(Status::OK, data)\<close> or as
  \<open>Result::error(status, message)\<close>, never otherwise.
\<close>

datatype 'a result = Ok 'a | Error status string

definition is_ok :: "'a result \<Rightarrow> bool" where
  "is_ok r = (case r of Ok _ \<Rightarrow> True | Error _ _ \<Rightarrow> False)"

definition result_status :: "'a result \<Rightarrow> status" where
  "result_status r = (case r of Ok _ \<Rightarrow> OK | Error s _ \<Rightarrow> s)"

lemma is_ok_simps [simp]: "is_ok (Ok x)" "\<not> is_ok (Error s m)"
  by (simp_all add: is_ok_def)

lemma is_okE: "is_ok r \<Longrightarrow> (\<And>x. r = Ok x \<Longrightarrow> P) \<Longrightarrow> P"
  by (cases r) auto

lemma result_status_simps [simp]: "result_status (Ok x) = OK" "result_status (Error s m) = s"
  by (simp_all add: result_status_def)

record range_query =
  start_key :: multi_level_key
  end_key :: multi_level_key
  limit :: u32
  inclusive_start :: bool
  inclusive_end :: bool

definition RangeQuery_default :: range_query where
  "RangeQuery_default =
     \<lparr>start_key = MultiLevelKey [] [], end_key = MultiLevelKey [] [], limit = 1000,
      inclusive_start = True, inclusive_end = False\<rparr>"

definition MAX_KEY_SIZE :: nat where "MAX_KEY_SIZE = 256"
definition MAX_VALUE_SIZE :: nat where "MAX_VALUE_SIZE = 4 * 1024"
definition MEMTABLE_SIZE_LIMIT :: u64 where "MEMTABLE_SIZE_LIMIT = 64 * 1024 * 1024"

text \<open>
  \<open>sizeof(DataEntry)\<close> for the target the repository builds for (x86-64, libstdc++): a
  32-byte \<open>std::string\<close>, two 8-byte integers and a flag, padded to 8 bytes.
\<close>

definition sizeof_DataEntry :: nat where "sizeof_DataEntry = 56"

text \<open>The storage engines of \<open>include/cache/storage/storage_engine.h\<close>.\<close>

datatype engine_type = LSM_TREE | B_PLUS_TREE | HASH_TABLE

type_synonym table = "(multi_level_key \<times> data_entry) list"

end
