(* ===== verification/Crc32c.thy ===== *)
theory Crc32c
  imports Prelude
begin

unbundle bit_operations_syntax

text \<open>
  The checksum of \<open>src/crc32c.cpp\<close>: the 256-entry table built by eight conditional shifts
  per entry, the byte loop that uses it, and its continuation \<open>Extend\<close>. The lemmas show
  that the table loop computes the bit-serial checksum it optimises and that \<open>Extend\<close>
  continues a checksum over a concatenation.
\<close>

definition kCrc32cPoly :: u32 where "kCrc32cPoly = 0x82F63B78"

text \<open>One iteration of the inner loop of \<open>init_table\<close>, and the loop itself.\<close>

definition crc_step :: "u32 \<Rightarrow> u32" where
  "crc_step crc = (if crc AND 1 \<noteq> 0 then drop_bit 1 crc XOR kCrc32cPoly else drop_bit 1 crc)"

definition crc_table_entry :: "nat \<Rightarrow> u32" where
  "crc_table_entry i = (crc_step ^^ 8) (word_of_nat i)"

definition crc32c_table :: "u32 list" where
  "crc32c_table = map crc_table_entry [0..<256]"

definition crc_byte :: "u32 \<Rightarrow> char \<Rightarrow> u32" where
  "crc_byte crc c =
     crc32c_table ! unat ((crc XOR of_char c) AND 0xFF) XOR drop_bit 8 crc"

definition Crc32c :: "string \<Rightarrow> u32" where
  "Crc32c data = foldl crc_byte 0xFFFFFFFF data XOR 0xFFFFFFFF"

definition Extend :: "u32 \<Rightarrow> string \<Rightarrow> u32" where
  "Extend crc data = foldl crc_byte (crc XOR 0xFFFFFFFF) data XOR 0xFFFFFFFF"

text \<open>The bit-serial reference: no table, eight shifts for every byte.\<close>

definition crc_byte_bits :: "u32 \<Rightarrow> char \<Rightarrow> u32" where
  "crc_byte_bits crc c = (crc_step ^^ 8) (crc XOR of_char c)"

definition crc32c_bits :: "string \<Rightarrow> u32" where
  "crc32c_bits data = foldl crc_byte_bits 0xFFFFFFFF data XOR 0xFFFFFFFF"

lemma crc_step_eq: "crc_step x = drop_bit 1 x XOR (if odd x then kCrc32cPoly else 0)"
  by (simp add: crc_step_def and_one_eq odd_iff_mod_2_eq_one)

lemma odd_xor: "odd (a XOR b) = (odd a \<noteq> odd (b :: u32))"
  by (simp add: even_xor_iff)

lemma crc_step_xor: "crc_step (a XOR b) = crc_step a XOR crc_step b"
  by (simp add: crc_step_eq odd_xor drop_bit_xor ac_simps)

lemma crc_steps_xor: "(crc_step ^^ n) (a XOR b) = (crc_step ^^ n) a XOR (crc_step ^^ n) b"
  by (induction n) (simp_all add: crc_step_xor)

text \<open>Eight steps shift out the low byte of a word where that byte is zero.\<close>

lemma crc_steps_high:
  assumes "\<And>i. i < 8 \<Longrightarrow> \<not> bit x i"
  shows "n \<le> 8 \<Longrightarrow> (crc_step ^^ n) x = drop_bit n x"
proof (induction n)
  case (Suc n)
  have "even (drop_bit n x)"
    using assms [of n] Suc.prems by (simp add: bit_iff_odd_drop_bit)
  with Suc show ?case by (simp add: crc_step_eq)
qed simp

lemma bit_of_char_high: "8 \<le> n \<Longrightarrow> \<not> bit (of_char c :: u32) n"
proof -
  assume n: "8 \<le> n"
  let ?m = "of_char c :: nat"
  have "?m < 2 ^ 8" by simp
  also have "(2 :: nat) ^ 8 \<le> 2 ^ n" using n by (rule power_increasing) simp
  finally have "\<not> bit ?m n" by (simp add: bit_iff_odd)
  then have "\<not> bit (word_of_nat ?m :: u32) n" by (simp add: bit_of_nat_iff)
  then show ?thesis by (simp only: of_nat_of_char not_False_eq_True)
qed

lemma table_nth: "i < 256 \<Longrightarrow> crc32c_table ! i = crc_table_entry i"
  by (simp add: crc32c_table_def)

lemma crc_byte_eq_bits: "crc_byte crc c = crc_byte_bits crc c"
proof -
  let ?y = "crc XOR of_char c :: u32"
  let ?lo = "?y AND 0xFF" and ?hi = "?y AND NOT 0xFF"
  have ff: "(0xFF :: u32) = mask 8" by (simp add: mask_eq_exp_minus_1)
  have lo: "unat ?lo < 256"
    using and_mask_lt_2p [of ?y 8] unfolding ff unat_eq_nat_uint by (subst nat_less_iff) auto
  have split: "?y = ?lo XOR ?hi"
    by (rule bit_word_eqI) (auto simp: bit_simps)
  have hi0: "\<not> bit ?hi i" if "i < 8" for i
    using that by (simp add: ff bit_simps)
  have hi: "drop_bit 8 ?hi = drop_bit 8 crc"
  proof (rule bit_word_eqI)
    fix n
    show "bit (drop_bit 8 ?hi) n = bit (drop_bit 8 crc) n"
      using bit_of_char_high [of "n + 8" c] bit_imp_le_length [of crc "n + 8"]
      by (auto simp: ff bit_simps add.commute)
  qed
  have "(crc_step ^^ 8) ?y = (crc_step ^^ 8) ?lo XOR (crc_step ^^ 8) ?hi"
    by (subst split) (rule crc_steps_xor)
  also have "(crc_step ^^ 8) ?hi = drop_bit 8 crc"
    using crc_steps_high [OF hi0, of 8] hi by simp
  also have "(crc_step ^^ 8) ?lo = crc32c_table ! unat ?lo"
    using lo by (simp add: table_nth crc_table_entry_def)
  finally show ?thesis by (simp add: crc_byte_def crc_byte_bits_def)
qed

lemma crc32c_eq_bits: "Crc32c data = crc32c_bits data"
proof -
  have "crc_byte = crc_byte_bits" by (intro ext crc_byte_eq_bits)
  then show ?thesis by (simp add: Crc32c_def crc32c_bits_def)
qed

lemma crc32c_extend: "Extend (Crc32c a) b = Crc32c (a @ b)"
  by (simp add: Extend_def Crc32c_def xor.assoc)

lemma crc32c_empty: "Crc32c [] = 0"
  by (simp add: Crc32c_def)

text \<open>
  One step is injective (the top bit of the polynomial is set), so a changed byte changes
  every later state of the loop.
\<close>

lemma xor_cancel_right: "a XOR c = b XOR c \<longleftrightarrow> a = (b :: u32)"
proof
  assume "a XOR c = b XOR c"
  then have "(a XOR c) XOR c = (b XOR c) XOR c" by simp
  then show "a = b" by (simp only: xor.assoc xor_self_eq xor.right_neutral)
qed simp

lemma xor_cancel_left: "c XOR a = c XOR b \<longleftrightarrow> a = (b :: u32)"
  by (simp only: xor.commute [of c] xor_cancel_right)

lemma xor_zero: "a XOR b = 0 \<longleftrightarrow> a = (b :: u32)"
  using xor_cancel_right [of a b b] by (simp only: xor_self_eq)

lemma crc_step_zero: "crc_step x = 0 \<Longrightarrow> x = 0"
proof -
  assume z: "crc_step x = 0"
  have top: "\<not> bit (drop_bit 1 x) 31"
    using bit_imp_le_length [of x 32] by (auto simp: bit_simps)
  have "even x"
  proof (rule ccontr)
    assume "\<not> even x"
    with z have "drop_bit 1 x = kCrc32cPoly" by (simp add: crc_step_eq xor_zero)
    then have "bit (drop_bit 1 x) 31" by (simp add: kCrc32cPoly_def)
    with top show False by simp
  qed
  with z have "drop_bit 1 x = 0" by (simp add: crc_step_eq)
  show "x = 0"
  proof (rule bit_word_eqI)
    fix n
    show "bit x n = bit 0 n"
    proof (cases n)
      case 0
      with \<open>even x\<close> show ?thesis by (simp add: bit_0)
    next
      case (Suc k)
      have "bit (drop_bit 1 x) k = bit x (Suc k)" by (simp add: bit_simps)
      with \<open>drop_bit 1 x = 0\<close> Suc show ?thesis by simp
    qed
  qed
qed

lemma crc_steps_inj: "(crc_step ^^ n) a = (crc_step ^^ n) b \<Longrightarrow> a = b"
proof (induction n)
  case (Suc n)
  then have "crc_step ((crc_step ^^ n) a XOR (crc_step ^^ n) b) = 0"
    by (simp only: crc_step_xor funpow.simps comp_apply xor_self_eq)
  then have "(crc_step ^^ n) a XOR (crc_step ^^ n) b = 0" by (rule crc_step_zero)
  then have "(crc_step ^^ n) a = (crc_step ^^ n) b" by (simp only: xor_zero)
  then show ?case by (rule Suc.IH)
qed simp

lemma of_char_u32_inj: "(of_char c :: u32) = of_char d \<longleftrightarrow> c = d"
proof
  assume "(of_char c :: u32) = of_char d"
  then have eq: "unat (word_of_nat (of_char c) :: u32) = unat (word_of_nat (of_char d) :: u32)"
    by (simp only: of_nat_of_char)
  have small: "(of_char x :: nat) < 2 ^ 32" for x
    by (rule less_trans [OF nat_of_char_less_256]) simp
  from eq have "(of_char c :: nat) = of_char d"
    by (simp only: word_of_nat_inverse_u32 [OF small])
  then show "c = d" by simp
qed simp

lemma crc_fold_inj: "foldl crc_byte a xs = foldl crc_byte b xs \<Longrightarrow> a = b"
proof (induction xs arbitrary: a b)
  case (Cons c xs)
  then have "crc_byte a c = crc_byte b c" by simp
  then have "a XOR of_char c = b XOR of_char c"
    unfolding crc_byte_eq_bits crc_byte_bits_def by (rule crc_steps_inj)
  then show ?case by (simp only: xor_cancel_right)
qed simp

lemma crc32c_changed_byte:
  assumes "c \<noteq> d"
  shows "Crc32c (xs @ c # ys) \<noteq> Crc32c (xs @ d # ys)"
proof
  let ?a = "foldl crc_byte 0xFFFFFFFF xs"
  assume "Crc32c (xs @ c # ys) = Crc32c (xs @ d # ys)"
  then have "foldl crc_byte (crc_byte ?a c) ys = foldl crc_byte (crc_byte ?a d) ys"
    by (simp only: Crc32c_def foldl_append foldl_Cons xor_cancel_right)
  then have "crc_byte ?a c = crc_byte ?a d" by (rule crc_fold_inj)
  then have "?a XOR of_char c = ?a XOR of_char d"
    unfolding crc_byte_eq_bits crc_byte_bits_def by (rule crc_steps_inj)
  then have "(of_char c :: u32) = of_char d"
    by (simp only: xor_cancel_left)
  with assms show False by (simp add: of_char_u32_inj)
qed

end
