(* ===== verification/File_System.thy ===== *)
theory File_System
  imports Prelude
begin

text \<open>
  The files and the streams the storage code works on.

  A file system is the list of its files with their bytes; directories exist implicitly. A
  path in \<open>fs_denied\<close> can neither be opened nor created, and an operation of
  \<open>std::filesystem\<close> on it throws; \<open>fs_what\<close> is the text of that exception. Bytes given
  to an open, good stream reach the file.

  A stream has the state of \<open>std::fstream\<close>: whether a file is open, one position for reading
  and writing, and the flags \<open>eofbit\<close> and \<open>failbit\<close>. Every operation first checks that the
  stream is good; a failed stream ignores reads, writes and seeks until it is opened again
  (\<open>open\<close> clears the flags, \<open>seekg\<close> clears only \<open>eofbit\<close>).
\<close>

record fsys =
  fs_files :: "(string \<times> string) list"
  fs_denied :: "string \<Rightarrow> bool"
  fs_what :: string

definition fs_content :: "fsys \<Rightarrow> string \<Rightarrow> string option" where
  "fs_content fs p = map_of (fs_files fs) p"

definition fs_put :: "string \<Rightarrow> string \<Rightarrow> fsys \<Rightarrow> fsys" where
  "fs_put p bytes fs = fs\<lparr>fs_files := AList.update p bytes (fs_files fs)\<rparr>"

definition fs_remove :: "string \<Rightarrow> fsys \<Rightarrow> fsys" where
  "fs_remove p fs = fs\<lparr>fs_files := AList.delete p (fs_files fs)\<rparr>"

lemma fs_content_put [simp]:
  "fs_content (fs_put p b fs) q = (if q = p then Some b else fs_content fs q)"
  by (simp add: fs_content_def fs_put_def update_conv')

lemma fs_content_remove [simp]:
  "fs_content (fs_remove p fs) q = (if q = p then None else fs_content fs q)"
  by (simp add: fs_content_def fs_remove_def delete_conv')

lemma fs_put_frame [simp]:
  "fs_denied (fs_put p b fs) = fs_denied fs" "fs_what (fs_put p b fs) = fs_what fs"
  by (simp_all add: fs_put_def)

lemma fs_remove_frame [simp]:
  "fs_denied (fs_remove p fs) = fs_denied fs" "fs_what (fs_remove p fs) = fs_what fs"
  by (simp_all add: fs_remove_def)

text \<open>\<open>path::parent_path\<close> and \<open>path::filename\<close>: the parts before and after the last slash.\<close>

definition parent_path :: "string \<Rightarrow> string" where
  "parent_path p = rev (drop 1 (dropWhile (\<lambda>c. c \<noteq> CHR ''/'') (rev p)))"

definition path_filename :: "string \<Rightarrow> string" where
  "path_filename p = rev (takeWhile (\<lambda>c. c \<noteq> CHR ''/'') (rev p))"

text \<open>\<open>create_directories\<close> succeeds (\<open>True\<close>) or throws.\<close>

definition create_directories :: "string \<Rightarrow> fsys \<Rightarrow> bool" where
  "create_directories p fs = (p \<noteq> [] \<and> \<not> fs_denied fs p)"

definition can_read :: "string \<Rightarrow> fsys \<Rightarrow> bool" where
  "can_read p fs = (fs_content fs p \<noteq> None \<and> \<not> fs_denied fs p)"

record stream =
  st_open :: bool
  st_pos :: nat
  st_eof :: bool
  st_fail :: bool

definition stream_new :: stream where
  "stream_new = \<lparr>st_open = False, st_pos = 0, st_eof = False, st_fail = False\<rparr>"

definition stream_opened :: stream where
  "stream_opened = \<lparr>st_open = True, st_pos = 0, st_eof = False, st_fail = False\<rparr>"

definition st_good :: "stream \<Rightarrow> bool" where
  "st_good st = (\<not> st_eof st \<and> \<not> st_fail st)"

lemma stream_opened_simps [simp]:
  "st_open stream_opened" "st_pos stream_opened = 0" "st_good stream_opened"
  "\<not> st_fail stream_opened" "\<not> st_eof stream_opened"
  by (simp_all add: stream_opened_def st_good_def)

text \<open>\<open>open(path, in | out)\<close>: the file must exist.\<close>

definition stream_open_inout :: "string \<Rightarrow> stream \<Rightarrow> fsys \<Rightarrow> stream" where
  "stream_open_inout p st fs =
     (if st_open st \<or> \<not> can_read p fs then st\<lparr>st_fail := True\<rparr> else stream_opened)"

text \<open>\<open>open(path, out)\<close>, with or without \<open>trunc\<close>: the file is created or emptied.\<close>

definition stream_open_out :: "string \<Rightarrow> stream \<Rightarrow> fsys \<Rightarrow> stream \<times> fsys" where
  "stream_open_out p st fs =
     (if st_open st \<or> fs_denied fs p then (st\<lparr>st_fail := True\<rparr>, fs)
      else (stream_opened, fs_put p [] fs))"

definition stream_close :: "stream \<Rightarrow> stream" where
  "stream_close st = (if st_open st then st\<lparr>st_open := False\<rparr> else st\<lparr>st_fail := True\<rparr>)"

definition stream_read :: "nat \<Rightarrow> string \<Rightarrow> stream \<Rightarrow> string \<times> stream" where
  "stream_read n content st =
     (if \<not> st_good st then ([], st\<lparr>st_fail := True\<rparr>)
      else let got = take n (drop (st_pos st) content);
               st' = st\<lparr>st_pos := st_pos st + length got\<rparr>
           in if length got = n then (got, st')
              else (got, st'\<lparr>st_eof := True, st_fail := True\<rparr>))"

definition stream_write :: "string \<Rightarrow> string \<Rightarrow> stream \<times> fsys \<Rightarrow> stream \<times> fsys" where
  "stream_write p bytes = (\<lambda>(st, fs).
     if \<not> st_good st then (st, fs)
     else if \<not> st_open st then (st\<lparr>st_fail := True\<rparr>, fs)
     else let c = (case fs_content fs p of None \<Rightarrow> [] | Some c \<Rightarrow> c);
              n = st_pos st
          in (st\<lparr>st_pos := n + length bytes\<rparr>,
              fs_put p (take n c @ bytes @ drop (n + length bytes) c) fs))"

definition stream_seekg :: "nat \<Rightarrow> stream \<Rightarrow> stream" where
  "stream_seekg n st =
     (let st = st\<lparr>st_eof := False\<rparr> in if st_fail st then st else st\<lparr>st_pos := n\<rparr>)"

definition stream_seekg_end :: "nat \<Rightarrow> string \<Rightarrow> stream \<Rightarrow> stream" where
  "stream_seekg_end back content st =
     (let st = st\<lparr>st_eof := False\<rparr>
      in if st_fail st then st
         else if length content < back then st\<lparr>st_fail := True\<rparr>
         else st\<lparr>st_pos := length content - back\<rparr>)"

definition stream_seekp_end :: "string \<Rightarrow> stream \<Rightarrow> stream" where
  "stream_seekp_end content st = (if st_fail st then st else st\<lparr>st_pos := length content\<rparr>)"

text \<open>
  Reading an integer into an uninitialised variable: after a short read the variable keeps an
  indeterminate value, whose use is undefined (\<open>None\<close>). Reading into a string of \<open>n\<close> zero
  bytes leaves the zeros where nothing was read.
\<close>

definition read_int :: "nat \<Rightarrow> string \<Rightarrow> stream \<Rightarrow> (nat \<times> stream) option" where
  "read_int k content st =
     (case stream_read k content st of (b, st') \<Rightarrow>
        if length b = k then Some (le_nat b, st') else None)"

definition read_string :: "nat \<Rightarrow> string \<Rightarrow> stream \<Rightarrow> string \<times> stream" where
  "read_string n content st =
     (case stream_read n content st of (b, st') \<Rightarrow> (b @ replicate (n - length b) CHR 0x00, st'))"

section \<open>Reading back what stands at the position\<close>

text \<open>
  \<open>bytes_at st content bytes\<close>: the stream is good and the next bytes of the file are \<open>bytes\<close>.
\<close>

definition bytes_at :: "stream \<Rightarrow> string \<Rightarrow> string \<Rightarrow> bool" where
  "bytes_at st content bytes \<longleftrightarrow> st_good st \<and> take (length bytes) (drop (st_pos st) content) = bytes"

lemma at_good: "bytes_at st content b \<Longrightarrow> st_good st"
  by (simp add: bytes_at_def)

definition skip :: "nat \<Rightarrow> stream \<Rightarrow> stream" where
  "skip n st = st\<lparr>st_pos := st_pos st + n\<rparr>"

lemma skip_simps [simp]:
  "skip m (skip n st) = skip (n + m) st" "st_good (skip n st) = st_good st"
  "st_pos (skip n st) = st_pos st + n" "st_open (skip n st) = st_open st"
  "st_fail (skip n st) = st_fail st" "st_eof (skip n st) = st_eof st"
  by (simp_all add: skip_def st_good_def)

lemma at_append:
  "bytes_at st content (a @ b) \<longleftrightarrow> bytes_at st content a \<and> bytes_at (skip (length a) st) content b"
proof -
  let ?c = "drop (st_pos st) content"
  have "take (length a + length b) ?c = take (length a) ?c @ take (length b) (drop (length a) ?c)"
    by (simp add: take_add)
  moreover have "length (take (length a) ?c) = length a" if "take (length a) ?c = a"
    using that by simp
  moreover have "take (length a) ?c = a"
    if "take (length a) ?c @ take (length b) (drop (length a) ?c) = a @ b"
  proof -
    have "length (take (length a + length b) ?c) = length a + length b"
      using that by (metis length_append take_add)
    then have "length (take (length a) ?c) = length a" by simp
    with that show ?thesis by (metis append_eq_append_conv)
  qed
  ultimately show ?thesis
    unfolding bytes_at_def by (auto simp: add.commute)
qed

lemma at_read: "bytes_at st content b \<Longrightarrow> stream_read (length b) content st = (b, skip (length b) st)"
  by (auto simp: bytes_at_def stream_read_def skip_def Let_def)

lemma stream_read_full:
  assumes "stream_read n content st = (b, st')" and "length b = n" and "0 < n"
  shows "st_pos st' = st_pos st + n \<and> st_pos st' \<le> length content \<and> st_good st"
  using assms by (auto simp: stream_read_def Let_def min_def split: if_splits)

lemma stream_read_pos: "stream_read n content st = (b, st') \<Longrightarrow> st_pos st \<le> st_pos st'"
  by (auto simp: stream_read_def Let_def split: if_splits)

lemma at_read_int:
  "bytes_at st content (le_bytes k n) \<Longrightarrow> n < 256 ^ k \<Longrightarrow>
   read_int k content st = Some (n, skip k st)"
  using at_read [of st content "le_bytes k n"]
  by (simp add: read_int_def le_nat_bytes_small)

lemma at_read_u32:
  "bytes_at st content (le_bytes 4 (unat (w :: u32))) \<Longrightarrow>
   read_int 4 content st = Some (unat w, skip 4 st)"
  using at_read [of st content "le_bytes 4 (unat w)"] by (simp add: read_int_def le_nat_u32)

lemma at_read_u64:
  "bytes_at st content (le_bytes 8 (unat (w :: u64))) \<Longrightarrow>
   read_int 8 content st = Some (unat w, skip 8 st)"
  using at_read [of st content "le_bytes 8 (unat w)"] by (simp add: read_int_def le_nat_u64)

lemma at_read_string:
  "bytes_at st content b \<Longrightarrow> length b = n \<Longrightarrow> read_string n content st = (b, skip n st)"
  using at_read [of st content b] by (simp add: read_string_def)

lemma at_start: "st_good st \<Longrightarrow> content = pre @ b @ post \<Longrightarrow> st_pos st = length pre \<Longrightarrow>
   bytes_at st content b"
  by (simp add: bytes_at_def)

text \<open>A failed stream does nothing.\<close>

lemma failed_write [simp]: "st_fail st \<Longrightarrow> stream_write p b (st, fs) = (st, fs)"
  by (simp add: stream_write_def st_good_def)

lemma failed_read [simp]: "st_fail st \<Longrightarrow> stream_read n c st = ([], st)"
  by (simp add: stream_read_def st_good_def)

lemma append_write:
  assumes "st_good st" and "st_open st" and "fs_content fs p = Some c" and "st_pos st = length c"
  shows "stream_write p b (st, fs) = (skip (length b) st, fs_put p (c @ b) fs)"
  using assms by (simp add: stream_write_def skip_def Let_def)

end
