(* ===== verification/Wal.thy ===== *)
theory Wal
  imports Common_Types Crc32c File_System
begin

text \<open>
  The write-ahead log (\<open>src/storage/wal.cpp\<close>, \<open>include/cache/storage/wal.h\<close>).

  A record in the file is its length, the CRC-32C of its body and the body; a body is the
  type, the sequence number, the two key parts closed by a zero byte each, and the value.
  The lemmas show what survives a round trip through the log, when a body parses back, that
  a replay detects damage, and what a replay does to the stream that later appends use.
\<close>

definition WAL_PUT :: u8 where "WAL_PUT = 1"
definition WAL_DELETE :: u8 where "WAL_DELETE = 2"
definition WAL_FLUSH :: u8 where "WAL_FLUSH = 3"
definition WAL_CHECKPOINT :: u8 where "WAL_CHECKPOINT = 4"

text \<open>\<open>None\<close> as a checksum is the indeterminate value of a default-initialised entry.\<close>

record wal_entry =
  we_type :: u8
  we_key :: multi_level_key
  we_data :: data_entry
  we_seq :: u64
  we_checksum :: "u32 option"

definition NUL :: char where "NUL = CHR 0x00"

definition wal_serialize :: "wal_entry \<Rightarrow> string" where
  "wal_serialize e =
     [char_of (unat (we_type e))]
     @ le_bytes 8 (unat (we_seq e))
     @ primary_key (we_key e) @ [NUL]
     @ secondary_key (we_key e) @ [NUL]
     @ entry_value (we_data e)"

definition calculate_checksum :: "wal_entry \<Rightarrow> wal_entry" where
  "calculate_checksum e = e\<lparr>we_checksum := Some (Crc32c (wal_serialize e))\<rparr>"

definition verify_checksum :: "wal_entry \<Rightarrow> bool option" where
  "verify_checksum e =
     (let entry_copy = e\<lparr>we_checksum := Some 0\<rparr>;
          calculated = Crc32c (wal_serialize entry_copy)
      in case we_checksum e of None \<Rightarrow> None | Some c \<Rightarrow> Some (calculated = c))"

definition WALEntry :: "u8 \<Rightarrow> multi_level_key \<Rightarrow> data_entry \<Rightarrow> u64 \<Rightarrow> wal_entry" where
  "WALEntry t k d seq = calculate_checksum
     \<lparr>we_type = t, we_key = k, we_data = d, we_seq = seq, we_checksum = Some 0\<rparr>"

text \<open>\<open>data.find('\0', pos)\<close>: the text up to the zero byte and the text after it.\<close>

definition split_nul :: "string \<Rightarrow> (string \<times> string) option" where
  "split_nul s = (if NUL \<in> set s
     then Some (takeWhile (\<lambda>c. c \<noteq> NUL) s, drop 1 (dropWhile (\<lambda>c. c \<noteq> NUL) s))
     else None)"

definition wal_deserialize :: "time_point \<Rightarrow> string \<Rightarrow> wal_entry result" where
  "wal_deserialize now data =
     (case data of
        [] \<Rightarrow> Error INVALID_ARGUMENT ''Empty data''
      | t # rest \<Rightarrow>
        if length rest < 8 then Error INVALID_ARGUMENT ''Invalid data format''
        else case split_nul (drop 8 rest) of
          None \<Rightarrow> Error INVALID_ARGUMENT ''Invalid key format''
        | Some (pk, rest2) \<Rightarrow>
          (case split_nul rest2 of
             None \<Rightarrow> Error INVALID_ARGUMENT ''Invalid key format''
           | Some (sk, val) \<Rightarrow>
               Ok \<lparr>we_type = word_of_nat (of_char t),
                   we_key = MultiLevelKey pk sk,
                   we_data = (DataEntry_default now)\<lparr>entry_value := val\<rparr>,
                   we_seq = word_of_nat (le_nat (take 8 rest)),
                   we_checksum = None\<rparr>))"

section \<open>The log\<close>

record wal =
  wal_file :: string
  wal_stream :: stream
  wal_is_open :: bool
  wal_sequence_number :: u64
  wal_held :: bool

type_synonym wal_state = "wal \<times> fsys"

definition WAL_new :: "string \<Rightarrow> wal" where
  "WAL_new filename = \<lparr>wal_file = filename, wal_stream = stream_new, wal_is_open = False,
     wal_sequence_number = 0, wal_held = False\<rparr>"

definition wal_mutex_held :: "wal_state \<Rightarrow> bool" where
  "wal_mutex_held s = wal_held (fst s)"

definition wal_set_held :: "bool \<Rightarrow> wal_state \<Rightarrow> wal_state" where
  "wal_set_held b s = ((fst s)\<lparr>wal_held := b\<rparr>, snd s)"

interpretation wal_mx: mutex_class wal_mutex_held wal_set_held
  by unfold_locales (auto simp: wal_mutex_held_def wal_set_held_def prod_eq_iff)

abbreviation wal_locked :: "(wal_state, 'a) op \<Rightarrow> (wal_state, 'a) op" where
  "wal_locked \<equiv> guarded wal_mutex_held wal_set_held"

definition file_bytes :: "string \<Rightarrow> fsys \<Rightarrow> string" where
  "file_bytes p fs = (case fs_content fs p of None \<Rightarrow> [] | Some c \<Rightarrow> c)"

definition wal_open :: "(wal_state, unit result) op" where
  "wal_open = wal_locked (\<lambda>(w, fs).
     if wal_is_open w then Some (Ok (), (w, fs))
     else if \<not> create_directories (parent_path (wal_file w)) fs
     then Some (Error STORAGE_ERROR (''Failed to open WAL: '' @ fs_what fs), (w, fs))
     else
       let p = wal_file w;
           st1 = stream_open_inout p (wal_stream w) fs;
           (st2, fs2) = (if st_open st1 then (st1, fs) else stream_open_out p st1 fs)
       in if \<not> st_open st2
          then Some (Error STORAGE_ERROR (''Failed to create WAL file: '' @ p),
                     (w\<lparr>wal_stream := st2\<rparr>, fs2))
          else
            let st3 = (if st_open st1 then st2
                       else stream_open_inout p (stream_close st2) fs2)
            in if \<not> st_open st3
               then Some (Error STORAGE_ERROR (''Failed to open WAL file: '' @ p),
                          (w\<lparr>wal_stream := st3\<rparr>, fs2))
               else Some (Ok (),
                 (w\<lparr>wal_stream := stream_seekp_end (file_bytes p fs2) st3,
                    wal_is_open := True\<rparr>, fs2)))"

definition wal_close :: "(wal_state, unit result) op" where
  "wal_close = wal_locked (\<lambda>(w, fs).
     if \<not> wal_is_open w then Some (Ok (), (w, fs))
     else let st = wal_stream w;
              st' = (if st_open st then stream_close st else st)
          in Some (Ok (), (w\<lparr>wal_stream := st', wal_is_open := False\<rparr>, fs)))"

definition WAL_delete :: "(wal_state, unit) op" where
  "WAL_delete = destructor (\<lambda>(w, fs). wal_is_open w) wal_close"

definition calculate_crc32 :: "string \<Rightarrow> u32" where
  "calculate_crc32 data = Crc32c data"

definition wal_record :: "wal_entry \<Rightarrow> string" where
  "wal_record e =
     (let serialized = wal_serialize e
      in le_bytes 4 (unat (word_of_nat (length serialized) :: u32))
         @ le_bytes 4 (unat (Crc32c serialized)) @ serialized)"

text \<open>The three writes of a record go to the stream one after the other.\<close>

definition write_record :: "string \<Rightarrow> wal_entry \<Rightarrow> stream \<times> fsys \<Rightarrow> stream \<times> fsys" where
  "write_record p e sf =
     (let serialized = wal_serialize e;
          record_length = (word_of_nat (length serialized) :: u32);
          crc = Crc32c serialized
      in stream_write p serialized
           (stream_write p (le_bytes 4 (unat crc))
             (stream_write p (le_bytes 4 (unat record_length)) sf)))"

definition wal_append :: "wal_entry \<Rightarrow> (wal_state, unit result) op" where
  "wal_append e = wal_locked (\<lambda>(w, fs).
     if \<not> wal_is_open w then Some (Error STORAGE_ERROR ''WAL is not open'', (w, fs))
     else let (st, fs') = write_record (wal_file w) e (wal_stream w, fs)
          in Some (Ok (), (w\<lparr>wal_stream := st,
               wal_sequence_number := wal_sequence_number w + 1\<rparr>, fs')))"

definition wal_sync :: "(wal_state, unit result) op" where
  "wal_sync = wal_locked (\<lambda>(w, fs).
     if \<not> wal_is_open w then Some (Error STORAGE_ERROR ''WAL is not open'', (w, fs))
     else Some (Ok (), (w, fs)))"

text \<open>The loop of \<open>replay_from\<close>; \<open>content\<close> is the file the stream reads.\<close>

function replay_loop ::
    "time_point \<Rightarrow> u64 \<Rightarrow> string \<Rightarrow> stream \<Rightarrow> wal_entry list \<Rightarrow> wal_entry list result \<times> stream" where
  "replay_loop now seq content st entries =
     (if \<not> st_good st then (Ok entries, st)
      else let (b1, st1) = stream_read 4 content st
      in if length b1 \<noteq> 4 then (Ok entries, st1)
      else let (b2, st2) = stream_read 4 content st1
      in if length b2 \<noteq> 4 then (Ok entries, st2)
      else let record_length = le_nat b1; expected_crc = le_nat b2
      in if record_length > 1024 * 1024
         then (Error STORAGE_ERROR
                 (''Invalid record length in WAL: '' @ to_string record_length), st2)
      else let (record_data, st3) = stream_read record_length content st2
      in if length record_data \<noteq> record_length
         then (Error STORAGE_ERROR ''Incomplete record in WAL'', st3)
      else if unat (Crc32c record_data) \<noteq> expected_crc
         then (Error STORAGE_ERROR ''CRC mismatch in WAL record'', st3)
      else case wal_deserialize now record_data of
             Error _ _ \<Rightarrow> (Error STORAGE_ERROR ''Failed to deserialize WAL entry'', st3)
           | Ok e \<Rightarrow> replay_loop now seq content st3
                       (if seq \<le> we_seq e then entries @ [e] else entries))"
  by pat_completeness auto

termination
proof (relation "measure (\<lambda>(now, seq, content, st, entries). length content - st_pos st)",
    goal_cases)
  case (2 now seq content st entries x b1 st1 xa b2 st2 record_length expected_crc xb record_data st3 e)
  then have "st_pos st1 = st_pos st + 4" "st_pos st1 \<le> length content"
    using stream_read_full [of 4 content st b1 st1] by auto
  moreover have "st_pos st1 \<le> st_pos st2" "st_pos st2 \<le> st_pos st3"
    using 2 by (metis stream_read_pos)+
  ultimately show ?case by auto
qed simp

declare replay_loop.simps [simp del]

definition wal_replay_from :: "time_point \<Rightarrow> u64 \<Rightarrow> (wal_state, wal_entry list result) op" where
  "wal_replay_from now seq = wal_locked (\<lambda>(w, fs).
     if \<not> wal_is_open w then Some (Error STORAGE_ERROR ''WAL is not open'', (w, fs))
     else let (r, st) = replay_loop now seq (file_bytes (wal_file w) fs)
                          (stream_seekg 0 (wal_stream w)) []
          in Some (r, (w\<lparr>wal_stream := st\<rparr>, fs)))"

text \<open>\<open>truncate\<close> calls \<open>replay_from\<close> while it holds the lock that \<open>replay_from\<close> takes.\<close>

definition wal_rewrite :: "string \<Rightarrow> wal_entry list \<Rightarrow> stream \<times> fsys \<Rightarrow> stream \<times> fsys" where
  "wal_rewrite p entries sf = foldl (\<lambda>sf e. write_record p e sf) sf entries"

definition wal_truncate :: "time_point \<Rightarrow> u64 \<Rightarrow> (wal_state, unit result) op" where
  "wal_truncate now seq = wal_locked (\<lambda>(w, fs).
     if \<not> wal_is_open w then Some (Error STORAGE_ERROR ''WAL is not open'', (w, fs))
     else do {
       (r, (w, fs)) \<leftarrow> wal_replay_from now seq (w, fs);
       (case r of
          Error _ m \<Rightarrow> Some (Error STORAGE_ERROR m, (w, fs))
        | Ok entries \<Rightarrow>
            let p = wal_file w;
                w = w\<lparr>wal_stream := stream_close (wal_stream w)\<rparr>;
                (out, fs) = stream_open_out p stream_new fs
            in if \<not> st_open out
               then Some (Error STORAGE_ERROR ''Failed to truncate WAL file'', (w, fs))
               else
                 let (out, fs) = wal_rewrite p entries (out, fs);
                     st = stream_open_inout p (wal_stream w) fs
                 in if \<not> st_open st
                    then Some (Error STORAGE_ERROR ''Failed to reopen WAL after truncation'',
                               (w\<lparr>wal_stream := st\<rparr>, fs))
                    else Some (Ok (),
                      (w\<lparr>wal_stream := stream_seekp_end (file_bytes p fs) st\<rparr>, fs))) })"

definition wal_file_size :: "(wal_state, nat) op" where
  "wal_file_size = wal_locked (\<lambda>(w, fs).
     if \<not> wal_is_open w \<or> st_fail (wal_stream w) then Some (0, (w, fs))
     else Some (st_pos (wal_stream w), (w, fs)))"

section \<open>Bodies: what a round trip keeps\<close>

definition nul_free :: "multi_level_key \<Rightarrow> bool" where
  "nul_free k \<longleftrightarrow> NUL \<notin> set (primary_key k) \<and> NUL \<notin> set (secondary_key k)"

text \<open>
  The entry that comes back: type, key, sequence number and value are kept; version,
  timestamp and the deletion flag are those of a fresh \<open>DataEntry\<close>.
\<close>

definition logged :: "time_point \<Rightarrow> wal_entry \<Rightarrow> wal_entry" where
  "logged now e = e\<lparr>we_data := (DataEntry_default now)\<lparr>entry_value := entry_value (we_data e)\<rparr>,
     we_checksum := None\<rparr>"

lemma split_nul_append: "NUL \<notin> set a \<Longrightarrow> split_nul (a @ NUL # b) = Some (a, b)"
proof -
  assume a: "NUL \<notin> set a"
  then have "takeWhile (\<lambda>c. c \<noteq> NUL) (a @ NUL # b) = a"
    by (induction a) auto
  moreover from a have "dropWhile (\<lambda>c. c \<noteq> NUL) (a @ NUL # b) = NUL # b"
    by (induction a) auto
  ultimately show ?thesis by (simp add: split_nul_def)
qed

lemma unat_u8_mod [codec_simps]: "unat (b :: u8) mod 256 = unat b"
  using unsigned_less [of b, where ?'a = nat] by simp

lemma wal_deserialize_serialize:
  assumes "nul_free (we_key e)"
  shows "wal_deserialize now (wal_serialize e) = Ok (logged now e)"
proof -
  have "wal_serialize e = char_of (unat (we_type e)) # (le_bytes 8 (unat (we_seq e))
      @ primary_key (we_key e) @ NUL # (secondary_key (we_key e) @ NUL # entry_value (we_data e)))"
    by (simp add: wal_serialize_def)
  then show ?thesis
    using assms
    by (cases e) (simp add: wal_deserialize_def split_nul_append nul_free_def codec_simps logged_def)
qed

lemma verify_checksum_WALEntry: "verify_checksum (WALEntry t k d seq) = Some True"
  by (simp add: verify_checksum_def WALEntry_def calculate_checksum_def wal_serialize_def)

section \<open>Records: replay gives back what was appended\<close>

lemma at_record_parts:
  assumes "bytes_at st content (wal_record e)" and "length (wal_serialize e) \<le> 1024 * 1024"
  shows "bytes_at st content (le_bytes 4 (length (wal_serialize e)))"
    and "bytes_at (skip 4 st) content (le_bytes 4 (unat (Crc32c (wal_serialize e))))"
    and "bytes_at (skip 8 st) content (wal_serialize e)"
proof -
  have "unat (word_of_nat (length (wal_serialize e)) :: u32) = length (wal_serialize e)"
    using assms(2) by (simp add: word_of_nat_inverse_u32)
  with assms(1) show "bytes_at st content (le_bytes 4 (length (wal_serialize e)))"
    and "bytes_at (skip 4 st) content (le_bytes 4 (unat (Crc32c (wal_serialize e))))"
    and "bytes_at (skip 8 st) content (wal_serialize e)"
    by (simp_all add: wal_record_def Let_def at_append)
qed

lemma length_wal_record [simp]: "length (wal_record e) = 8 + length (wal_serialize e)"
  by (simp add: wal_record_def Let_def)

lemma replay_step:
  assumes "bytes_at st content (wal_record e)" and "nul_free (we_key e)"
    and "length (wal_serialize e) \<le> 1024 * 1024"
  shows "replay_loop now seq content st acc =
    replay_loop now seq content (skip (length (wal_record e)) st)
      (if seq \<le> we_seq e then acc @ [logged now e] else acc)"
proof -
  let ?s = "wal_serialize e"
  note parts = at_record_parts [OF assms(1,3)]
  have r1: "stream_read 4 content st = (le_bytes 4 (length ?s), skip 4 st)"
    using at_read [OF parts(1)] by simp
  have r2: "stream_read 4 content (skip 4 st) = (le_bytes 4 (unat (Crc32c ?s)), skip 8 st)"
    using at_read [OF parts(2)] by simp
  have r3: "stream_read (length ?s) content (skip 8 st) = (?s, skip (8 + length ?s) st)"
    using at_read [OF parts(3)] by simp
  have len: "le_nat (le_bytes 4 (length ?s)) = length ?s"
    using assms(3) by (simp add: le_nat_le_bytes)
  have "we_seq (logged now e) = we_seq e" by (simp add: logged_def)
  with r1 r2 r3 len at_good [OF assms(1)] assms(2,3) show ?thesis
    by (subst replay_loop.simps) (simp add: Let_def codec_simps wal_deserialize_serialize)
qed

lemma replay_end:
  assumes "st_good st" and "st_pos st = length content"
  shows "replay_loop now seq content st acc = (Ok acc, st\<lparr>st_eof := True, st_fail := True\<rparr>)"
  using assms by (subst replay_loop.simps) (simp add: stream_read_def Let_def)

lemma replay_records:
  assumes "st_good st" and "content = pre @ concat (map wal_record es)"
    and "st_pos st = length pre"
    and "\<forall>e \<in> set es. nul_free (we_key e) \<and> length (wal_serialize e) \<le> 1024 * 1024"
  shows "\<exists>st'. replay_loop now seq content st acc =
    (Ok (acc @ map (logged now) (filter (\<lambda>e. seq \<le> we_seq e) es)), st') \<and> st_fail st'"
  using assms
proof (induction es arbitrary: st pre acc)
  case Nil
  then show ?case by (simp add: replay_end)
next
  case (Cons e es)
  let ?acc = "if seq \<le> we_seq e then acc @ [logged now e] else acc"
  have "bytes_at st content (wal_record e)"
    using Cons.prems by (intro at_start [of _ _ pre _ "concat (map wal_record es)"]) auto
  then have step: "replay_loop now seq content st acc =
      replay_loop now seq content (skip (length (wal_record e)) st) ?acc"
    using Cons.prems(4) by (intro replay_step) auto
  have "\<exists>st'. replay_loop now seq content (skip (length (wal_record e)) st) ?acc =
      (Ok (?acc @ map (logged now) (filter (\<lambda>e. seq \<le> we_seq e) es)), st') \<and> st_fail st'"
    using Cons.prems by (intro Cons.IH [of _ "pre @ wal_record e"]) auto
  with step show ?case by (auto split: if_splits)
qed

text \<open>An open log whose stream stands, in good state, at the end of the file.\<close>

definition wal_ready :: "wal_state \<Rightarrow> bool" where
  "wal_ready s \<longleftrightarrow> wal_is_open (fst s) \<and> \<not> wal_held (fst s) \<and> st_good (wal_stream (fst s))
     \<and> st_open (wal_stream (fst s))
     \<and> fs_content (snd s) (wal_file (fst s)) = Some (file_bytes (wal_file (fst s)) (snd s))
     \<and> st_pos (wal_stream (fst s)) = length (file_bytes (wal_file (fst s)) (snd s))"

abbreviation wal_bytes :: "wal_state \<Rightarrow> string" where
  "wal_bytes s \<equiv> file_bytes (wal_file (fst s)) (snd s)"

lemma file_bytes_put [simp]:
  "file_bytes p (fs_put q b fs) = (if p = q then b else file_bytes p fs)"
  by (simp add: file_bytes_def)

lemma write_record_appends:
  assumes "st_good st" and "st_open st" and "fs_content fs p = Some c" and "st_pos st = length c"
  shows "\<exists>fs'. write_record p e (st, fs) = (skip (length (wal_record e)) st, fs')
    \<and> fs_content fs' p = Some (c @ wal_record e)
    \<and> (\<forall>q. q \<noteq> p \<longrightarrow> fs_content fs' q = fs_content fs q)
    \<and> fs_denied fs' = fs_denied fs \<and> fs_what fs' = fs_what fs"
  using assms unfolding write_record_def wal_record_def Let_def
  by (simp add: append_write)

lemma wal_append_ready:
  assumes "wal_ready s"
  shows "\<exists>s'. wal_append e s = Some (Ok (), s') \<and> wal_ready s' \<and> wal_file (fst s') = wal_file (fst s)
    \<and> wal_bytes s' = wal_bytes s @ wal_record e
    \<and> (\<forall>q. q \<noteq> wal_file (fst s) \<longrightarrow> fs_content (snd s') q = fs_content (snd s) q)"
proof -
  obtain w fs where s: "s = (w, fs)" by (cases s)
  from assms s have r: "st_good (wal_stream w)" "st_open (wal_stream w)"
    "fs_content fs (wal_file w) = Some (file_bytes (wal_file w) fs)"
    "st_pos (wal_stream w) = length (file_bytes (wal_file w) fs)"
    "wal_is_open w" "\<not> wal_held w"
    by (auto simp: wal_ready_def)
  from write_record_appends [OF r(1-4), of e] obtain fs' where
    fs': "write_record (wal_file w) e (wal_stream w, fs) =
        (skip (length (wal_record e)) (wal_stream w), fs')"
      "fs_content fs' (wal_file w) = Some (file_bytes (wal_file w) fs @ wal_record e)"
      "\<forall>q. q \<noteq> wal_file w \<longrightarrow> fs_content fs' q = fs_content fs q"
    by blast
  show ?thesis
    using s r fs'
    by (auto simp: wal_append_def guarded_def wal_mutex_held_def wal_set_held_def wal_ready_def
        file_bytes_def)
qed

fun wal_append_all :: "wal_entry list \<Rightarrow> (wal_state, unit result) op" where
  "wal_append_all [] s = Some (Ok (), s)"
| "wal_append_all (e # es) s =
     do { (r, s) \<leftarrow> wal_append e s;
          if is_ok r then wal_append_all es s else Some (r, s) }"

lemma wal_append_all_ready:
  assumes "wal_ready s"
  shows "\<exists>s'. wal_append_all es s = Some (Ok (), s') \<and> wal_ready s' \<and> wal_file (fst s') = wal_file (fst s)
    \<and> wal_bytes s' = wal_bytes s @ concat (map wal_record es)"
  using assms
proof (induction es arbitrary: s)
  case (Cons e es)
  from wal_append_ready [OF Cons.prems, of e] obtain s1 where
    s1: "wal_append e s = Some (Ok (), s1)" "wal_ready s1" "wal_file (fst s1) = wal_file (fst s)"
      "wal_bytes s1 = wal_bytes s @ wal_record e"
    by blast
  from Cons.IH [OF s1(2)] s1 show ?case by auto
qed simp

lemma wal_replay_ready:
  assumes "wal_ready s" and "wal_bytes s = concat (map wal_record es)"
    and "\<forall>e \<in> set es. nul_free (we_key e) \<and> length (wal_serialize e) \<le> 1024 * 1024"
  shows "\<exists>s'. wal_replay_from now seq s =
      Some (Ok (map (logged now) (filter (\<lambda>e. seq \<le> we_seq e) es)), s')
    \<and> wal_is_open (fst s') \<and> \<not> wal_held (fst s') \<and> st_fail (wal_stream (fst s'))
    \<and> snd s' = snd s \<and> wal_file (fst s') = wal_file (fst s)"
proof -
  obtain w fs where s: "s = (w, fs)" by (cases s)
  have g: "st_good (stream_seekg 0 (wal_stream w))" "st_pos (stream_seekg 0 (wal_stream w)) = 0"
    using assms(1) s by (auto simp: wal_ready_def stream_seekg_def st_good_def Let_def)
  from replay_records [of "stream_seekg 0 (wal_stream w)" "file_bytes (wal_file w) fs" "[]" es
      now seq "[]"] g assms(2,3) s
  obtain st' where st': "replay_loop now seq (file_bytes (wal_file w) fs)
      (stream_seekg 0 (wal_stream w)) [] =
      (Ok (map (logged now) (filter (\<lambda>e. seq \<le> we_seq e) es)), st')" "st_fail st'"
    by auto
  with assms(1) s show ?thesis
    by (simp add: wal_replay_from_def guarded_def wal_mutex_held_def wal_set_held_def wal_ready_def)
qed

section \<open>The stream after a replay\<close>

lemma stream_read_keeps_good:
  "stream_read n content st = (b, st') \<Longrightarrow> length b = n \<Longrightarrow> st_good st \<Longrightarrow> st_good st'"
  by (auto simp: stream_read_def st_good_def Let_def split: if_splits)

lemma stream_read_short_fails:
  "stream_read n content st = (b, st') \<Longrightarrow> length b \<noteq> n \<Longrightarrow> st_fail st'"
  by (auto simp: stream_read_def Let_def split: if_splits)

lemma replay_ok_fails:
  assumes "st_good st" and "replay_loop now seq content st acc = (Ok es, st')"
  shows "st_fail st'"
  using assms
proof (induction now seq content st acc rule: replay_loop.induct)
  case (1 now seq content st entries)
  obtain b1 st1 where r1: "stream_read 4 content st = (b1, st1)" by fastforce
  obtain b2 st2 where r2: "stream_read 4 content st1 = (b2, st2)" by fastforce
  obtain d st3 where r3: "stream_read (le_nat b1) content st2 = (d, st3)" by fastforce
  note eq = "1.prems"(2) [unfolded replay_loop.simps [of now seq content st entries]]
  show ?case
  proof (cases "length b1 = 4 \<and> length b2 = 4")
    case False
    with eq "1.prems"(1) r1 r2 show ?thesis
      by (auto dest: stream_read_short_fails split: if_splits)
  next
    case True
    with r1 r2 "1.prems"(1) have g: "st_good st1" "st_good st2"
      by (auto dest: stream_read_keeps_good)
    show ?thesis
    proof (cases "le_nat b1 \<le> 1024 * 1024 \<and> length d = le_nat b1 \<and> unat (Crc32c d) = le_nat b2
        \<and> is_ok (wal_deserialize now d)")
      case no: False
      with eq True r1 r2 r3 "1.prems"(1) show ?thesis
        by (auto simp: Let_def split: if_splits result.splits)
    next
      case yes: True
      then obtain e where e: "wal_deserialize now d = Ok e" by (auto elim: is_okE)
      have "replay_loop now seq content st3
          (if seq \<le> we_seq e then entries @ [e] else entries) = (Ok es, st')"
        using eq True yes r1 r2 r3 e "1.prems"(1) by (simp add: Let_def)
      moreover have "st_good st3" using r3 yes g by (auto dest: stream_read_keeps_good)
      ultimately show ?thesis
        using "1.IH" [OF _ r1 [symmetric] refl _ r2 [symmetric] refl _ refl refl _ r3 [symmetric]
            refl _ _ e] True yes "1.prems"(1)
        by auto
    qed
  qed
qed

lemma wal_append_failed:
  assumes "wal_is_open (fst s)" and "\<not> wal_held (fst s)" and "st_fail (wal_stream (fst s))"
  shows "\<exists>s'. wal_append e s = Some (Ok (), s') \<and> snd s' = snd s
    \<and> wal_is_open (fst s') \<and> \<not> wal_held (fst s') \<and> st_fail (wal_stream (fst s'))
    \<and> wal_file (fst s') = wal_file (fst s)"
  using assms
  by (cases s) (simp add: wal_append_def write_record_def guarded_def wal_mutex_held_def
      wal_set_held_def Let_def)

text \<open>An append to an open log reports \<open>OK\<close> and touches no other file, whatever the stream does.\<close>

lemma stream_write_frame:
  assumes "stream_write p b (st, fs) = (st', fs')"
  shows "(\<forall>q. q \<noteq> p \<longrightarrow> fs_content fs' q = fs_content fs q) \<and> fs_denied fs' = fs_denied fs
    \<and> fs_what fs' = fs_what fs"
  using assms by (auto simp: stream_write_def Let_def split: if_splits)

lemma write_record_frame:
  assumes "write_record p e (st, fs) = (st', fs')"
  shows "(\<forall>q. q \<noteq> p \<longrightarrow> fs_content fs' q = fs_content fs q) \<and> fs_denied fs' = fs_denied fs
    \<and> fs_what fs' = fs_what fs"
proof -
  let ?s = "wal_serialize e"
  obtain st1 fs1 where w1: "stream_write p (le_bytes 4 (unat (word_of_nat (length ?s) :: u32))) (st, fs)
      = (st1, fs1)" by fastforce
  obtain st2 fs2 where w2: "stream_write p (le_bytes 4 (unat (Crc32c ?s))) (st1, fs1) = (st2, fs2)"
    by fastforce
  from assms w1 w2 have w3: "stream_write p ?s (st2, fs2) = (st', fs')"
    by (simp add: write_record_def Let_def)
  from stream_write_frame [OF w1] stream_write_frame [OF w2] stream_write_frame [OF w3]
  show ?thesis by simp
qed

lemma wal_append_open:
  assumes "wal_is_open w" and "\<not> wal_held w"
  shows "\<exists>w' fs'. wal_append e (w, fs) = Some (Ok (), (w', fs'))
    \<and> wal_is_open w' \<and> \<not> wal_held w' \<and> wal_file w' = wal_file w
    \<and> (\<forall>q. q \<noteq> wal_file w \<longrightarrow> fs_content fs' q = fs_content fs q)
    \<and> fs_denied fs' = fs_denied fs \<and> fs_what fs' = fs_what fs"
proof -
  obtain st' fs' where "write_record (wal_file w) e (wal_stream w, fs) = (st', fs')" by fastforce
  from assms this write_record_frame [OF this] show ?thesis
    by (simp add: wal_append_def guarded_def wal_mutex_held_def wal_set_held_def)
qed

section \<open>Damage\<close>

text \<open>A record whose body lost one byte to another value.\<close>

definition damaged_record :: "wal_entry \<Rightarrow> nat \<Rightarrow> char \<Rightarrow> string" where
  "damaged_record e i c =
     le_bytes 4 (unat (word_of_nat (length (wal_serialize e)) :: u32))
     @ le_bytes 4 (unat (Crc32c (wal_serialize e))) @ (wal_serialize e)[i := c]"

lemma crc32c_update:
  assumes "i < length s" and "s ! i \<noteq> c"
  shows "Crc32c (s[i := c]) \<noteq> Crc32c s"
proof -
  have "s[i := c] = take i s @ c # drop (Suc i) s"
    using assms(1) by (rule upd_conv_take_nth_drop)
  moreover have "s = take i s @ s ! i # drop (Suc i) s"
    using assms(1) by (rule id_take_nth_drop)
  ultimately show ?thesis using crc32c_changed_byte [OF assms(2)] by metis
qed

lemma replay_damaged:
  assumes "bytes_at st content (damaged_record e i c)" and "length (wal_serialize e) \<le> 1024 * 1024"
    and "i < length (wal_serialize e)" and "wal_serialize e ! i \<noteq> c"
  shows "\<exists>st'. replay_loop now seq content st acc =
    (Error STORAGE_ERROR ''CRC mismatch in WAL record'', st')"
proof -
  let ?s = "wal_serialize e" and ?d = "(wal_serialize e)[i := c]"
  have u: "unat (word_of_nat (length ?s) :: u32) = length ?s"
    using assms(2) by (simp add: word_of_nat_inverse_u32)
  have parts: "bytes_at st content (le_bytes 4 (length ?s))"
    "bytes_at (skip 4 st) content (le_bytes 4 (unat (Crc32c ?s)))" "bytes_at (skip 8 st) content ?d"
    using assms(1) u by (simp_all add: damaged_record_def at_append)
  have r1: "stream_read 4 content st = (le_bytes 4 (length ?s), skip 4 st)"
    using at_read [OF parts(1)] by simp
  have r2: "stream_read 4 content (skip 4 st) = (le_bytes 4 (unat (Crc32c ?s)), skip 8 st)"
    using at_read [OF parts(2)] by simp
  have r3: "stream_read (length ?s) content (skip 8 st) = (?d, skip (8 + length ?s) st)"
    using at_read [OF parts(3)] by simp
  have len: "le_nat (le_bytes 4 (length ?s)) = length ?s"
    using assms(2) by (simp add: le_nat_le_bytes)
  from crc32c_update [OF assms(3,4)] have "unat (Crc32c ?d) \<noteq> unat (Crc32c ?s)"
    by (simp add: word_unat_eq_iff)
  with r1 r2 r3 len at_good [OF assms(1)] assms(2) show ?thesis
    by (subst replay_loop.simps) (simp add: Let_def codec_simps)
qed

lemma replay_prefix:
  assumes "bytes_at st content (concat (map wal_record es))"
    and "\<forall>e \<in> set es. nul_free (we_key e) \<and> length (wal_serialize e) \<le> 1024 * 1024"
  shows "replay_loop now seq content st acc =
    replay_loop now seq content (skip (length (concat (map wal_record es))) st)
      (acc @ map (logged now) (filter (\<lambda>e. seq \<le> we_seq e) es))"
  using assms
proof (induction es arbitrary: st acc)
  case Nil
  then show ?case by (simp add: skip_def)
next
  case (Cons e es)
  from Cons.prems(1) have e: "bytes_at st content (wal_record e)"
    and es: "bytes_at (skip (length (wal_record e)) st) content (concat (map wal_record es))"
    by (simp_all add: at_append)
  have "replay_loop now seq content st acc =
      replay_loop now seq content (skip (length (wal_record e)) st)
        (if seq \<le> we_seq e then acc @ [logged now e] else acc)"
    using Cons.prems(2) by (intro replay_step [OF e]) auto
  also have "\<dots> = replay_loop now seq content
      (skip (length (concat (map wal_record es))) (skip (length (wal_record e)) st))
      ((if seq \<le> we_seq e then acc @ [logged now e] else acc)
        @ map (logged now) (filter (\<lambda>e. seq \<le> we_seq e) es))"
    using Cons.prems(2) by (intro Cons.IH [OF es]) auto
  finally show ?case by (simp add: add.assoc)
qed

section \<open>A torn log\<close>

lemma stream_read_rest:
  assumes "st_good st" and "drop (st_pos st) content = rest" and "length rest < k"
  shows "\<exists>st'. stream_read k content st = (rest, st') \<and> st_fail st'"
  using assms by (simp add: stream_read_def Let_def)

lemma drop_skip: "drop (st_pos (skip k st)) content = drop k (drop (st_pos st) content)"
  by (simp add: add.commute)

text \<open>What the replay makes of the beginning of a record at the end of the log: less than the eight
  bytes of its header is the end of the log, more is an error.\<close>

lemma replay_torn:
  assumes "st_good st" and "drop (st_pos st) content = take n (wal_record e)"
    and "n < length (wal_record e)" and "length (wal_serialize e) \<le> 1024 * 1024"
  shows "\<exists>st'. replay_loop now seq content st acc =
      ((if n < 8 then Ok acc else Error STORAGE_ERROR ''Incomplete record in WAL''), st') \<and> st_fail st'"
proof -
  let ?s = "wal_serialize e"
  let ?b1 = "le_bytes 4 (length ?s)" and ?b2 = "le_bytes 4 (unat (Crc32c ?s))"
  have u: "unat (word_of_nat (length ?s) :: u32) = length ?s"
    using assms(4) by (simp add: word_of_nat_inverse_u32)
  have rest: "drop (st_pos st) content = take n (?b1 @ ?b2 @ ?s)"
    using assms(2) u by (simp add: wal_record_def Let_def)
  consider "n < 4" | "4 \<le> n" "n < 8" | "8 \<le> n" by linarith
  then show ?thesis
  proof cases
    case 1
    with stream_read_rest [OF assms(1) rest, of 4] obtain st' where
      "stream_read 4 content st = (take n (?b1 @ ?b2 @ ?s), st')" "st_fail st'" by auto
    with 1 assms(1) show ?thesis by (subst replay_loop.simps) simp
  next
    case 2
    then have "bytes_at st content ?b1" using assms(1) rest by (simp add: bytes_at_def)
    then have r1: "stream_read 4 content st = (?b1, skip 4 st)" using at_read [of st content ?b1] by simp
    have d: "drop (st_pos (skip 4 st)) content = take (n - 4) (?b2 @ ?s)"
      unfolding drop_skip rest drop_take by simp
    have l: "n - 4 < 4" "n - 4 \<noteq> 4" using 2 by simp_all
    with stream_read_rest [OF _ d, of 4] 2 assms(1) obtain st' where
      "stream_read 4 content (skip 4 st) = (take (n - 4) (?b2 @ ?s), st')" "st_fail st'" by auto
    with 2 l r1 assms(1) show ?thesis by (subst replay_loop.simps) simp
  next
    case 3
    then have "bytes_at st content (?b1 @ ?b2)" using assms(1) rest by (simp add: bytes_at_def)
    then have "bytes_at st content ?b1" "bytes_at (skip 4 st) content ?b2" by (simp_all add: at_append)
    then have r: "stream_read 4 content st = (?b1, skip 4 st)"
      "stream_read 4 content (skip 4 st) = (?b2, skip 8 st)"
      using at_read [of st content ?b1] at_read [of "skip 4 st" content ?b2] by simp_all
    have d: "drop (st_pos (skip 8 st)) content = take (n - 8) ?s"
      unfolding drop_skip rest drop_take by simp
    have l: "n - 8 < length ?s" using 3 assms(3) by simp
    with stream_read_rest [OF _ d, of "length ?s"] assms(1) obtain st' where
      "stream_read (length ?s) content (skip 8 st) = (take (n - 8) ?s, st')" "st_fail st'" by auto
    moreover have "le_nat ?b1 = length ?s" using assms(4) by (simp add: le_nat_le_bytes)
    ultimately show ?thesis
      using 3 l r assms(1,4) by (subst replay_loop.simps) (simp add: Let_def)
  qed
qed

lemma wal_replay_torn:
  assumes "wal_ready s" and "wal_bytes s = concat (map wal_record es) @ take n (wal_record e)"
    and "n < length (wal_record e)" and "length (wal_serialize e) \<le> 1024 * 1024"
    and "\<forall>e \<in> set es. nul_free (we_key e) \<and> length (wal_serialize e) \<le> 1024 * 1024"
  shows "\<exists>s'. wal_replay_from now seq s =
      Some (if n < 8 then Ok (map (logged now) (filter (\<lambda>e. seq \<le> we_seq e) es))
        else Error STORAGE_ERROR ''Incomplete record in WAL'', s')
    \<and> wal_is_open (fst s') \<and> \<not> wal_held (fst s') \<and> st_fail (wal_stream (fst s')) \<and> snd s' = snd s"
proof -
  obtain w fs where s: "s = (w, fs)" by (cases s)
  let ?st = "stream_seekg 0 (wal_stream w)" and ?c = "file_bytes (wal_file w) fs"
  let ?es = "concat (map wal_record es)"
  have g: "st_good ?st" "st_pos ?st = 0"
    using assms(1) s by (auto simp: wal_ready_def stream_seekg_def st_good_def Let_def)
  have c: "?c = ?es @ take n (wal_record e)" using assms(2) s by simp
  have "bytes_at ?st ?c ?es" using g c by (simp add: bytes_at_def)
  from replay_prefix [OF this assms(5), of now seq "[]"]
  have "replay_loop now seq ?c ?st [] =
      replay_loop now seq ?c (skip (length ?es) ?st) (map (logged now) (filter (\<lambda>e. seq \<le> we_seq e) es))"
    by simp
  moreover have "drop (st_pos (skip (length ?es) ?st)) ?c = take n (wal_record e)"
    using g(2) c by simp
  ultimately obtain st' where "replay_loop now seq ?c ?st [] =
      ((if n < 8 then Ok (map (logged now) (filter (\<lambda>e. seq \<le> we_seq e) es))
        else Error STORAGE_ERROR ''Incomplete record in WAL''), st')" "st_fail st'"
    using replay_torn [OF _ _ assms(3,4), of "skip (length ?es) ?st" ?c now seq
        "map (logged now) (filter (\<lambda>e. seq \<le> we_seq e) es)"] g(1) by auto
  with assms(1) s show ?thesis
    by (simp add: wal_replay_from_def guarded_def wal_mutex_held_def wal_set_held_def wal_ready_def)
qed

text \<open>A replay on a stream that has failed finds an empty log.\<close>

lemma wal_replay_failed:
  assumes "wal_is_open w" and "\<not> wal_held w" and "st_fail (wal_stream w)"
  shows "\<exists>w'. wal_replay_from now seq (w, fs) = Some (Ok [], (w', fs))"
proof -
  have "\<not> st_good (stream_seekg 0 (wal_stream w))"
    using assms(3) by (simp add: stream_seekg_def st_good_def Let_def)
  then have "replay_loop now seq (file_bytes (wal_file w) fs) (stream_seekg 0 (wal_stream w)) []
      = (Ok [], stream_seekg 0 (wal_stream w))"
    by (subst replay_loop.simps) simp
  with assms(1,2) show ?thesis
    by (simp add: wal_replay_from_def guarded_def wal_mutex_held_def wal_set_held_def)
qed

section \<open>Opening\<close>

lemma wal_open_ready:
  assumes "\<not> wal_held (fst s)" and "\<not> wal_is_open (fst s)" and "\<not> st_open (wal_stream (fst s))"
    and "create_directories (parent_path (wal_file (fst s))) (snd s)"
    and "\<not> fs_denied (snd s) (wal_file (fst s))"
  shows "\<exists>s'. wal_open s = Some (Ok (), s') \<and> wal_ready s'
    \<and> wal_file (fst s') = wal_file (fst s) \<and> wal_bytes s' = wal_bytes s
    \<and> (\<forall>q. q \<noteq> wal_file (fst s) \<longrightarrow> fs_content (snd s') q = fs_content (snd s) q)
    \<and> fs_denied (snd s') = fs_denied (snd s)"
proof -
  obtain w fs where s: "s = (w, fs)" by (cases s)
  show ?thesis
  proof (cases "fs_content fs (wal_file w)")
    case None
    with assms s show ?thesis
      by (simp add: wal_open_def guarded_def wal_mutex_held_def wal_set_held_def
          stream_open_inout_def stream_open_out_def can_read_def Let_def stream_close_def
          wal_ready_def stream_seekp_end_def file_bytes_def st_good_def stream_opened_def)
  next
    case (Some c)
    with assms s show ?thesis
      by (simp add: wal_open_def guarded_def wal_mutex_held_def wal_set_held_def
          stream_open_inout_def can_read_def Let_def
          wal_ready_def stream_seekp_end_def file_bytes_def st_good_def stream_opened_def)
  qed
qed

lemma wal_open_existing:
  assumes "\<not> wal_held w" and "\<not> wal_is_open w" and "\<not> st_open (wal_stream w)"
    and "create_directories (parent_path (wal_file w)) fs" and "\<not> fs_denied fs (wal_file w)"
    and "fs_content fs (wal_file w) \<noteq> None"
  shows "\<exists>w'. wal_open (w, fs) = Some (Ok (), (w', fs)) \<and> wal_ready (w', fs)
    \<and> wal_file w' = wal_file w"
  using assms
  by (auto simp: wal_open_def guarded_def wal_mutex_held_def wal_set_held_def
      stream_open_inout_def can_read_def Let_def wal_ready_def stream_seekp_end_def file_bytes_def
      st_good_def stream_opened_def)

lemma wal_close_closes:
  assumes "\<not> wal_held (fst s)" and "st_open (wal_stream (fst s)) \<longleftrightarrow> wal_is_open (fst s)"
  shows "\<exists>s'. wal_close s = Some (Ok (), s') \<and> \<not> wal_is_open (fst s')
    \<and> \<not> st_open (wal_stream (fst s')) \<and> \<not> wal_held (fst s') \<and> snd s' = snd s
    \<and> wal_file (fst s') = wal_file (fst s)"
  using assms
  by (cases s) (simp add: wal_close_def guarded_def wal_mutex_held_def wal_set_held_def
      stream_close_def Let_def)

lemma wal_truncate_open_stuck:
  assumes "wal_is_open (fst s)"
  shows "wal_truncate now seq s = None"
proof (cases "wal_mutex_held s")
  case True
  then show ?thesis unfolding wal_truncate_def by (rule wal_mx.held_stuck)
next
  case False
  let ?t = "wal_set_held True s"
  have "wal_replay_from now seq ?t = None"
    unfolding wal_replay_from_def by (rule wal_mx.held_stuck) (rule wal_mx.held_set [THEN iffD2, OF TrueI])
  moreover have "wal_is_open (fst ?t)" using assms by (simp add: wal_set_held_def)
  ultimately show ?thesis
    unfolding wal_truncate_def
    by (intro wal_mx.body_stuck) (auto split: prod.splits)
qed

end
