(* ===== verification/Table_Layer.thy ===== *)
theory Table_Layer
  imports Common_Types
begin

text \<open>
  The contract between the engine and the tables it searches. A table is read through a
  lookup that may cache what it loads, so it returns the table it leaves behind. Seen from
  outside, a table is a partial map from keys to entries, where an entry may be a deletion
  mark (a tombstone).

  The search of \<open>LSMTreeEngine::get\<close> asks one table after the other and stops at the first
  one that answers \<open>OK\<close>. Inside the contract the search is shown to return the first
  \<^emph>\<open>live\<close> entry (\<open>first_live\<close>). What a log-structured store promises is the \<^emph>\<open>newest\<close>
  entry, live or not (\<open>newest\<close>); \<open>first_live_newest\<close> says when the two agree.
\<close>

definition found :: "'a result \<Rightarrow> 'a option" where
  "found r = (case r of Ok x \<Rightarrow> Some x | Error _ _ \<Rightarrow> None)"

lemma found_simps [simp]: "found (Ok x) = Some x" "found (Error s m) = None"
  by (simp_all add: found_def)

lemma found_SomeD: "found r = Some x \<Longrightarrow> r = Ok x"
  by (cases r) auto

definition live :: "data_entry option \<Rightarrow> data_entry option" where
  "live eo = (case eo of None \<Rightarrow> None | Some e \<Rightarrow> if deleted e then None else Some e)"

lemma live_simps [simp]:
  "live None = None"
  "live (Some e) = (if deleted e then None else Some e)"
  by (simp_all add: live_def)

lemma live_SomeD: "live eo = Some e \<Longrightarrow> eo = Some e \<and> \<not> deleted e"
  by (cases eo) (auto split: if_splits)

fun first_live :: "(multi_level_key \<Rightarrow> data_entry option) list \<Rightarrow> multi_level_key \<Rightarrow> data_entry option" where
  "first_live [] k = None"
| "first_live (m # ms) k = (case live (m k) of Some e \<Rightarrow> Some e | None \<Rightarrow> first_live ms k)"

fun newest :: "(multi_level_key \<Rightarrow> data_entry option) list \<Rightarrow> multi_level_key \<Rightarrow> data_entry option" where
  "newest [] k = None"
| "newest (m # ms) k = (case m k of Some e \<Rightarrow> live (Some e) | None \<Rightarrow> newest ms k)"

lemma first_live_append:
  "first_live (ms @ ns) k = (case first_live ms k of Some e \<Rightarrow> Some e | None \<Rightarrow> first_live ns k)"
  by (induction ms) (auto split: option.splits)

text \<open>
  The two searches agree on a key unless a tombstone for it lies above a live entry.
\<close>

fun no_shadowed_live :: "(multi_level_key \<Rightarrow> data_entry option) list \<Rightarrow> multi_level_key \<Rightarrow> bool" where
  "no_shadowed_live [] k = True"
| "no_shadowed_live (m # ms) k =
     (case m k of Some e \<Rightarrow> \<not> deleted e \<or> first_live ms k = None
      | None \<Rightarrow> no_shadowed_live ms k)"

lemma first_live_newest: "no_shadowed_live ms k \<longleftrightarrow> first_live ms k = newest ms k"
  by (induction ms) (auto split: option.splits)

locale table_layer =
  fixes lookup :: "multi_level_key \<Rightarrow> 'l \<Rightarrow> (data_entry result \<times> 'l) option"
    and represents :: "'l \<Rightarrow> (multi_level_key \<Rightarrow> data_entry option) \<Rightarrow> bool"
  assumes lookup_law: "represents l m \<Longrightarrow>
      \<exists>r l'. lookup k l = Some (r, l') \<and> found r = live (m k) \<and> represents l' m"
begin

fun search :: "multi_level_key \<Rightarrow> 'l list \<Rightarrow> (data_entry option \<times> 'l list) option" where
  "search k [] = Some (None, [])"
| "search k (l # ls) =
     do { (r, l') \<leftarrow> lookup k l;
          if is_ok r then Some (found r, l' # ls)
          else do { (eo, ls') \<leftarrow> search k ls; Some (eo, l' # ls') } }"

lemma search_first_live:
  assumes "list_all2 represents ls ms"
  shows "\<exists>ls'. search k ls = Some (first_live ms k, ls') \<and> list_all2 represents ls' ms"
  using assms
proof (induction ls ms rule: list_all2_induct)
  case (Cons l ls m ms)
  from lookup_law [OF Cons.hyps(1), of k] obtain r l' where
    l: "lookup k l = Some (r, l')" "found r = live (m k)" "represents l' m"
    by blast
  from Cons.IH obtain ls' where
    ls: "search k ls = Some (first_live ms k, ls')" "list_all2 represents ls' ms"
    by blast
  show ?case
  proof (cases r)
    case (Ok e)
    with l Cons.hyps(2) show ?thesis by (auto split: option.splits)
  next
    case (Error s msg)
    with l(2) have "live (m k) = None" by simp
    with l ls Error show ?thesis by simp
  qed
qed simp

end

text \<open>The contract of a table that is written: what a write changes of its contents.\<close>

locale write_layer = table_layer lookup represents
  for lookup :: "multi_level_key \<Rightarrow> 'l \<Rightarrow> (data_entry result \<times> 'l) option"
    and represents :: "'l \<Rightarrow> (multi_level_key \<Rightarrow> data_entry option) \<Rightarrow> bool" +
  fixes store :: "multi_level_key \<Rightarrow> data_entry \<Rightarrow> 'l \<Rightarrow> unit result \<times> 'l"
    and erase :: "multi_level_key \<Rightarrow> 'l \<Rightarrow> unit result \<times> 'l"
  assumes store_ok: "represents l m \<Longrightarrow> store k e l = (r, l') \<Longrightarrow> is_ok r \<Longrightarrow>
      represents l' (m(k \<mapsto> e))"
    and store_fail: "store k e l = (r, l') \<Longrightarrow> \<not> is_ok r \<Longrightarrow> l' = l"
    and erase_law: "represents l m \<Longrightarrow> erase k l = (r, l') \<Longrightarrow>
      is_ok r \<and> (\<exists>e. represents l' (m(k \<mapsto> e)) \<and> deleted e)"
begin

lemma read_own_write:
  assumes "represents l m" and "store k e l = (r, l')" and "is_ok r" and "\<not> deleted e"
  shows "\<exists>l''. lookup k l' = Some (Ok e, l'')"
proof -
  from store_ok [OF assms(1-3)] have "represents l' (m(k \<mapsto> e))" .
  from lookup_law [OF this, of k] assms(4) show ?thesis by (auto dest: found_SomeD)
qed

lemma read_other_write:
  assumes "represents l m" and "store k e l = (r, l')" and "k' \<noteq> k"
  shows "map_option (found \<circ> fst) (lookup k' l') = map_option (found \<circ> fst) (lookup k' l)"
proof (cases "is_ok r")
  case True
  from store_ok [OF assms(1,2) True] have "represents l' (m(k \<mapsto> e))" .
  from lookup_law [OF this, of k'] lookup_law [OF assms(1), of k'] assms(3)
  show ?thesis by auto
next
  case False
  with assms(2) have "l' = l" by (rule store_fail)
  then show ?thesis by simp
qed

lemma read_erased:
  assumes "represents l m" and "erase k l = (r, l')"
  shows "\<exists>s l''. lookup k l' = Some (s, l'') \<and> found s = None"
proof -
  from erase_law [OF assms] obtain e where e: "represents l' (m(k \<mapsto> e))" "deleted e"
    by blast
  from lookup_law [OF e(1), of k] e(2) show ?thesis by auto
qed

end

end
