(* ===== verification/Mem_Table.thy ===== *)
theory Mem_Table
  imports Table_Layer
begin

text \<open>
  \<open>MemTable\<close> (\<open>src/storage/memtable.cpp\<close>): the ordered map of the entries written since
  the last flush, with a running estimate of its memory. A removal stores a tombstone. The
  invariant \<open>memtable_wf\<close> says that the map is sorted and that the estimate is exactly the
  sum of the sizes of the entries, modulo the width of \<open>size_t\<close>.
\<close>

record memtable =
  mt_data :: table
  memory_usage :: u64

definition MemTable_new :: memtable where
  "MemTable_new = \<lparr>mt_data = [], memory_usage = 0\<rparr>"

definition memtable_get :: "multi_level_key \<Rightarrow> memtable \<Rightarrow> data_entry result" where
  "memtable_get key mt =
     (case map_of (mt_data mt) key of
        None \<Rightarrow> Error NOT_FOUND ''Key not found in memtable''
      | Some e \<Rightarrow>
          if deleted e then Error NOT_FOUND ''Key is marked as deleted'' else Ok e)"

definition memtable_put :: "multi_level_key \<Rightarrow> data_entry \<Rightarrow> memtable \<Rightarrow> unit result \<times> memtable" where
  "memtable_put key entry mt =
     (if length (key_to_string key) > MAX_KEY_SIZE
      then (Error INVALID_ARGUMENT ''Key size exceeds limit'', mt)
      else if length (entry_value entry) > MAX_VALUE_SIZE
      then (Error INVALID_ARGUMENT ''Value size exceeds limit'', mt)
      else
        let new_entry_size = (word_of_nat (length (key_to_string key)
              + length (entry_value entry) + sizeof_DataEntry) :: u64);
            old_entry_size =
              (case map_of (mt_data mt) key of
                 None \<Rightarrow> 0
               | Some e \<Rightarrow> word_of_nat (length (key_to_string key)
                   + length (entry_value e) + sizeof_DataEntry))
        in (Ok (), mt\<lparr>mt_data := om_insert key entry (mt_data mt),
              memory_usage := memory_usage mt + new_entry_size - old_entry_size\<rparr>))"

definition memtable_remove :: "time_point \<Rightarrow> multi_level_key \<Rightarrow> memtable \<Rightarrow> unit result \<times> memtable" where
  "memtable_remove now key mt =
     (case map_of (mt_data mt) key of
        None \<Rightarrow>
          let delete_entry = (DataEntry_default now)\<lparr>deleted := True, timestamp := millis_of now\<rparr>
          in (Ok (), mt\<lparr>mt_data := om_insert key delete_entry (mt_data mt),
                memory_usage := memory_usage mt
                  + word_of_nat (length (key_to_string key) + sizeof_DataEntry)\<rparr>)
      | Some e \<Rightarrow>
          (Ok (), mt\<lparr>mt_data :=
             om_insert key (e\<lparr>deleted := True, timestamp := millis_of now\<rparr>) (mt_data mt)\<rparr>))"

text \<open>
  The loop of \<open>range_scan\<close>: from the iterator \<open>i\<close> to the iterator \<open>e\<close>. Incrementing an
  iterator past \<open>end()\<close> is undefined, which is what happens when \<open>e\<close> lies before \<open>i\<close>
  and the limit does not stop the loop.
\<close>

function scan_loop :: "table \<Rightarrow> nat \<Rightarrow> nat \<Rightarrow> nat \<Rightarrow> nat \<Rightarrow> table \<Rightarrow> table option" where
  "scan_loop xs i e count lim acc =
     (if i = e \<or> \<not> count < lim then Some acc
      else if length xs \<le> i then None
      else scan_loop xs (Suc i) e (Suc count) lim
             (if deleted (snd (xs ! i)) then acc else acc @ [xs ! i]))"
  by pat_completeness auto
termination
  by (relation "measure (\<lambda>(xs, i, e, count, lim, acc). length xs - i)") auto

declare scan_loop.simps [simp del]

definition memtable_range_scan :: "range_query \<Rightarrow> memtable \<Rightarrow> table result option" where
  "memtable_range_scan query mt =
     (let data = mt_data mt; n = length data;
          start_it = om_lower_bound (start_key query) data;
          end_it = om_upper_bound (end_key query) data;
          start_it = (if \<not> inclusive_start query \<and> start_it \<noteq> n
                        \<and> fst (data ! start_it) = start_key query
                      then Suc start_it else start_it);
          end_it = (if inclusive_end query \<and> end_it \<noteq> n
                      \<and> fst (data ! end_it) = end_key query
                    then Suc end_it else end_it)
      in map_option Ok (scan_loop data start_it end_it 0 (unat (limit query)) []))"

definition memtable_size :: "memtable \<Rightarrow> nat" where
  "memtable_size mt = length (mt_data mt)"

definition memtable_memory_usage :: "memtable \<Rightarrow> u64" where
  "memtable_memory_usage mt = memory_usage mt"

definition memtable_should_flush :: "memtable \<Rightarrow> bool" where
  "memtable_should_flush mt = (MEMTABLE_SIZE_LIMIT \<le> memtable_memory_usage mt)"

definition memtable_get_all_data :: "memtable \<Rightarrow> table" where
  "memtable_get_all_data mt = mt_data mt"

definition memtable_clear :: "memtable \<Rightarrow> memtable" where
  "memtable_clear mt = mt\<lparr>mt_data := [], memory_usage := 0\<rparr>"

section \<open>The invariant\<close>

definition entry_cost :: "multi_level_key \<times> data_entry \<Rightarrow> u64" where
  "entry_cost x = word_of_nat (length (key_to_string (fst x)) + length (entry_value (snd x))
     + sizeof_DataEntry)"

definition memtable_wf :: "memtable \<Rightarrow> bool" where
  "memtable_wf mt \<longleftrightarrow> om_sorted (mt_data mt) \<and>
     memory_usage mt = sum_list (map entry_cost (mt_data mt))"

lemma memtable_wf_new [simp, intro]: "memtable_wf MemTable_new"
  by (simp add: memtable_wf_def MemTable_new_def)

lemma memtable_wf_sorted: "memtable_wf mt \<Longrightarrow> om_sorted (mt_data mt)"
  by (simp add: memtable_wf_def)

lemma memtable_wf_put:
  assumes "memtable_wf mt" and "memtable_put key entry mt = (r, mt')"
  shows "memtable_wf mt'"
proof -
  have s: "om_sorted (mt_data mt)" using assms(1) by (rule memtable_wf_sorted)
  show ?thesis
  proof (cases "map_of (mt_data mt) key")
    case None
    with assms s show ?thesis
      by (auto simp: memtable_put_def memtable_wf_def Let_def entry_cost_def om_insert_sum_new
          split: if_splits)
  next
    case (Some e)
    with assms s show ?thesis
      by (auto simp: memtable_put_def memtable_wf_def Let_def entry_cost_def
          om_insert_sum_old [OF s Some] split: if_splits)
  qed
qed

lemma memtable_wf_remove:
  assumes "memtable_wf mt" and "memtable_remove now key mt = (r, mt')"
  shows "memtable_wf mt'"
proof -
  have s: "om_sorted (mt_data mt)" using assms(1) by (rule memtable_wf_sorted)
  show ?thesis
  proof (cases "map_of (mt_data mt) key")
    case None
    with assms s show ?thesis
      by (auto simp: memtable_remove_def memtable_wf_def Let_def entry_cost_def
          om_insert_sum_new DataEntry_default_def)
  next
    case (Some e)
    with assms s show ?thesis
      by (auto simp: memtable_remove_def memtable_wf_def Let_def entry_cost_def
          om_insert_sum_old [OF s Some])
  qed
qed

lemma memtable_wf_clear [simp]: "memtable_wf (memtable_clear mt)"
  by (simp add: memtable_clear_def memtable_wf_def)

section \<open>The memtable as a table layer\<close>

definition memtable_lookup :: "multi_level_key \<Rightarrow> memtable \<Rightarrow> (data_entry result \<times> memtable) option" where
  "memtable_lookup k mt = Some (memtable_get k mt, mt)"

definition memtable_contents :: "memtable \<Rightarrow> multi_level_key \<Rightarrow> data_entry option" where
  "memtable_contents mt = map_of (mt_data mt)"

lemma found_memtable_get [simp]: "found (memtable_get k mt) = live (memtable_contents mt k)"
  by (auto simp: memtable_get_def memtable_contents_def split: option.splits)

lemma memtable_put_contents:
  "memtable_put k e mt = (r, mt') \<Longrightarrow> is_ok r \<Longrightarrow>
   memtable_contents mt' = (memtable_contents mt)(k \<mapsto> e)"
  by (auto simp: memtable_put_def memtable_contents_def Let_def split: if_splits)

lemma memtable_put_fail: "memtable_put k e mt = (r, mt') \<Longrightarrow> \<not> is_ok r \<Longrightarrow> mt' = mt"
  by (auto simp: memtable_put_def Let_def split: if_splits)

lemma memtable_remove_contents:
  "memtable_remove now k mt = (r, mt') \<Longrightarrow>
   is_ok r \<and> (\<exists>e. memtable_contents mt' = (memtable_contents mt)(k \<mapsto> e) \<and> deleted e)"
  by (auto simp: memtable_remove_def memtable_contents_def Let_def split: option.splits)

definition memtable_represents :: "memtable \<Rightarrow> (multi_level_key \<Rightarrow> data_entry option) \<Rightarrow> bool" where
  "memtable_represents mt m \<longleftrightarrow> memtable_wf mt \<and> m = memtable_contents mt"

interpretation mt: write_layer memtable_lookup memtable_represents
    memtable_put "memtable_remove now" for now
proof (unfold_locales, goal_cases)
  case (1 l m k)
  then show ?case by (simp add: memtable_lookup_def memtable_represents_def)
next
  case (2 l m k e r l')
  then show ?case
    using memtable_wf_put [of l k e r l'] memtable_put_contents [of k e l r l']
    by (simp add: memtable_represents_def)
next
  case (3 k e l r l')
  then show ?case by (rule memtable_put_fail)
next
  case (4 l m k r l')
  then show ?case
    using memtable_wf_remove [of l now k r l'] memtable_remove_contents [of now k l r l']
    by (auto simp: memtable_represents_def)
qed

section \<open>Range scans\<close>

lemma scan_loop_slice:
  assumes "i \<le> e" and "e \<le> length xs"
  shows "scan_loop xs i e count lim acc =
    Some (acc @ filter (\<lambda>x. \<not> deleted (snd x)) (take (lim - count) (take (e - i) (drop i xs))))"
  using assms
proof (induction xs i e count lim acc rule: scan_loop.induct)
  case (1 xs i e count lim acc)
  show ?case
  proof (cases "i = e \<or> \<not> count < lim")
    case True
    then show ?thesis by (auto simp: scan_loop.simps [of xs i e])
  next
    case False
    with "1.prems" have i: "i < length xs" by simp
    let ?acc = "if deleted (snd (xs ! i)) then acc else acc @ [xs ! i]"
    have "scan_loop xs (Suc i) e (Suc count) lim ?acc = Some (?acc @ filter
        (\<lambda>x. \<not> deleted (snd x)) (take (lim - Suc count) (take (e - Suc i) (drop (Suc i) xs))))"
      using "1.prems" False i by (intro "1.IH") auto
    moreover have "scan_loop xs i e count lim acc =
        scan_loop xs (Suc i) e (Suc count) lim ?acc"
      using False i by (subst scan_loop.simps) simp
    moreover have "take (lim - count) (take (e - i) (drop i xs)) =
        xs ! i # take (lim - Suc count) (take (e - Suc i) (drop (Suc i) xs))"
    proof -
      have "e - i = Suc (e - Suc i)" "lim - count = Suc (lim - Suc count)"
        using False "1.prems" by auto
      then show ?thesis by (simp only: Cons_nth_drop_Suc [OF i, symmetric] take_Suc_Cons)
    qed
    ultimately show ?thesis by simp
  qed
qed

lemma scan_loop_overrun:
  assumes "e < i" and "i \<le> length xs" and "length xs - i < lim - count"
  shows "scan_loop xs i e count lim acc = None"
  using assms
proof (induction xs i e count lim acc rule: scan_loop.induct)
  case (1 xs i e count lim acc)
  have go: "\<not> (i = e \<or> \<not> count < lim)" using "1.prems" by simp
  show ?case
  proof (cases "length xs \<le> i")
    case True
    with go show ?thesis by (subst scan_loop.simps) simp
  next
    case False
    with go "1.prems" have "scan_loop xs (Suc i) e (Suc count) lim
        (if deleted (snd (xs ! i)) then acc else acc @ [xs ! i]) = None"
      by (intro "1.IH") auto
    with go False show ?thesis by (subst scan_loop.simps) simp
  qed
qed

text \<open>
  The keys a scan covers. The end key is always inside: \<open>upper_bound\<close> already points past
  it, so neither value of \<open>inclusive_end\<close> changes anything.
\<close>

definition scan_keys :: "range_query \<Rightarrow> multi_level_key \<Rightarrow> bool" where
  "scan_keys q k = ((if inclusive_start q then start_key q \<le> k else start_key q < k)
     \<and> k \<le> end_key q)"

lemma takeWhile_stop: "length (takeWhile P xs) < length xs \<Longrightarrow> \<not> P (xs ! length (takeWhile P xs))"
  by (rule nth_length_takeWhile)

lemma upper_bound_past_end:
  "om_upper_bound k xs < length xs \<Longrightarrow> k < fst (xs ! om_upper_bound k xs)"
  unfolding om_upper_bound_def by (drule takeWhile_stop) (simp add: not_le)

lemma lower_bound_present:
  assumes "om_sorted xs" and "om_lower_bound k xs < length xs"
    and "fst (xs ! om_lower_bound k xs) = k"
  shows "drop (Suc (om_lower_bound k xs)) xs = filter (\<lambda>e. k < fst e) xs"
proof -
  let ?i = "om_lower_bound k xs"
  have d: "xs ! ?i # drop (Suc ?i) xs = filter (\<lambda>e. k \<le> fst e) xs"
    using assms by (simp add: Cons_nth_drop_Suc om_drop_lower)
  have "om_sorted (xs ! ?i # drop (Suc ?i) xs)"
    unfolding d using assms(1) by (rule filter_om_sorted)
  then have "filter (\<lambda>e. k < fst e) (drop (Suc ?i) xs) = drop (Suc ?i) xs"
    using assms(3) by (intro filter_True) auto
  moreover have "filter (\<lambda>e. k < fst e) (xs ! ?i # drop (Suc ?i) xs)
      = filter (\<lambda>e. k < fst e) xs"
    unfolding d by (simp add: conj_commute less_le cong: conj_cong)
  ultimately show ?thesis using assms(3) by simp
qed

lemma lower_bound_absent:
  assumes "om_sorted xs"
    and "\<not> (om_lower_bound k xs < length xs \<and> fst (xs ! om_lower_bound k xs) = k)"
  shows "filter (\<lambda>e. k \<le> fst e) xs = filter (\<lambda>e. k < fst e) xs"
proof -
  let ?i = "om_lower_bound k xs"
  have "k \<noteq> fst e" if e: "e \<in> set xs" for e
  proof
    assume k: "k = fst e"
    then have "e \<in> set (drop ?i xs)" using e assms(1) by (simp add: om_drop_lower)
    then obtain j where "j < length xs - ?i" and je: "xs ! (?i + j) = e"
      by (auto simp: in_set_conv_nth)
    then have j: "?i + j < length xs" "xs ! (?i + j) = e" by simp_all
    have nlt: "\<not> fst (xs ! ?i) < k" using takeWhile_stop [of "\<lambda>e. fst e < k" xs] j
      by (simp add: om_lower_bound_def)
    have "j = 0"
    proof (rule ccontr)
      assume "j \<noteq> 0"
      then have "fst (xs ! ?i) < fst (xs ! (?i + j))"
        using sorted_wrt_nth_less [OF assms(1), of ?i "?i + j"] j by simp
      with j k nlt show False by simp
    qed
    with j k assms(2) show False by simp
  qed
  then show ?thesis by (intro filter_cong) (auto simp: less_le)
qed

lemma memtable_range_scan_result:
  assumes wf: "memtable_wf mt" and se: "start_key q \<le> end_key q"
  shows "memtable_range_scan q mt = Some (Ok (filter (\<lambda>x. \<not> deleted (snd x))
    (take (unat (limit q)) (filter (\<lambda>x. scan_keys q (fst x)) (mt_data mt)))))"
proof -
  let ?xs = "mt_data mt"
  let ?lo = "om_lower_bound (start_key q) ?xs" and ?hi = "om_upper_bound (end_key q) ?xs"
  let ?skip = "\<not> inclusive_start q \<and> ?lo \<noteq> length ?xs \<and> fst (?xs ! ?lo) = start_key q"
  let ?lo' = "if ?skip then Suc ?lo else ?lo"
  have s: "om_sorted ?xs" using wf by (rule memtable_wf_sorted)
  have hi: "\<not> (inclusive_end q \<and> ?hi \<noteq> length ?xs \<and> fst (?xs ! ?hi) = end_key q)"
    using upper_bound_past_end [of "end_key q" ?xs] by (auto simp: le_neq_implies_less)
  have lohi: "?lo \<le> ?hi" using se by (rule om_bounds_mono)
  have range: "?lo' \<le> ?hi \<and> take (?hi - ?lo') (drop ?lo' ?xs)
      = filter (\<lambda>x. scan_keys q (fst x)) ?xs"
  proof (cases ?skip)
    case True
    then have lt: "?lo < length ?xs" and eq: "fst (?xs ! ?lo) = start_key q"
      by (simp_all add: le_neq_implies_less)
    have "?lo < ?hi"
    proof (rule ccontr)
      assume "\<not> ?lo < ?hi"
      with lohi have "?hi = ?lo" by simp
      with upper_bound_past_end [of "end_key q" ?xs] lt eq se show False by simp
    qed
    moreover have "take (?hi - Suc ?lo) (drop (Suc ?lo) ?xs)
        = filter (\<lambda>e. fst e \<le> end_key q) (filter (\<lambda>e. start_key q < fst e) ?xs)"
    proof -
      have "take (?hi - Suc ?lo) (drop (Suc ?lo) ?xs) = drop (Suc ?lo) (take ?hi ?xs)"
        by (simp add: drop_take)
      also have "\<dots> = tl (take (?hi - ?lo) (drop ?lo ?xs))"
        by (simp add: drop_take tl_take drop_Suc tl_drop)
      also have "\<dots> = tl (filter (\<lambda>e. start_key q \<le> fst e \<and> fst e \<le> end_key q) ?xs)"
        using s by (simp add: om_slice)
      also have "filter (\<lambda>e. start_key q \<le> fst e \<and> fst e \<le> end_key q) ?xs
          = filter (\<lambda>e. fst e \<le> end_key q) (?xs ! ?lo # drop (Suc ?lo) ?xs)"
        using lt s by (simp add: Cons_nth_drop_Suc om_drop_lower conj_commute)
      finally show ?thesis
        using lower_bound_present [OF s lt eq] eq se by simp
    qed
    ultimately show ?thesis
      using True by (simp add: scan_keys_def conj_commute)
  next
    case False
    have "filter (\<lambda>e. start_key q \<le> fst e \<and> fst e \<le> end_key q) ?xs
        = filter (\<lambda>x. scan_keys q (fst x)) ?xs"
    proof (cases "inclusive_start q")
      case True
      then show ?thesis by (simp add: scan_keys_def)
    next
      case excl: False
      with False have "\<not> (?lo < length ?xs \<and> fst (?xs ! ?lo) = start_key q)" by auto
      from lower_bound_absent [OF s this]
      have "filter (\<lambda>e. fst e \<le> end_key q) (filter (\<lambda>e. start_key q \<le> fst e) ?xs)
          = filter (\<lambda>e. fst e \<le> end_key q) (filter (\<lambda>e. start_key q < fst e) ?xs)"
        by simp
      with excl show ?thesis by (simp add: scan_keys_def conj_commute)
    qed
    with lohi show ?thesis by (simp only: if_not_P [OF False] om_slice [OF s] simp_thms)
  qed
  have "scan_loop ?xs ?lo' ?hi 0 (unat (limit q)) [] = Some (filter (\<lambda>x. \<not> deleted (snd x))
      (take (unat (limit q)) (filter (\<lambda>x. scan_keys q (fst x)) ?xs)))"
    using range by (simp only: scan_loop_slice om_upper_bound_le append_Nil diff_zero)
  with hi show ?thesis
    unfolding memtable_range_scan_def Let_def by (simp only: if_False option.map)
qed

text \<open>
  What a scan promises of the contents it reads: the live entries of the range, in key order.
  It holds when the limit has room for every entry of the range, tombstones included.
\<close>

definition scan_of :: "range_query \<Rightarrow> (multi_level_key \<Rightarrow> data_entry option) \<Rightarrow> table \<Rightarrow> bool" where
  "scan_of q m xs \<longleftrightarrow> om_sorted xs
     \<and> (\<forall>k. map_of xs k = (if scan_keys q k then live (m k) else None))"

definition range_room :: "range_query \<Rightarrow> (multi_level_key \<Rightarrow> data_entry option) \<Rightarrow> bool" where
  "range_room q m \<longleftrightarrow> card {k. scan_keys q k \<and> m k \<noteq> None} \<le> unat (limit q)"

lemma map_of_filter_distinct:
  "distinct (map fst xs) \<Longrightarrow> map_of (filter P xs) k =
     (case map_of xs k of None \<Rightarrow> None | Some e \<Rightarrow> if P (k, e) then Some e else None)"
proof (induction xs)
  case (Cons x xs)
  then have "map_of xs (fst x) = None" by (simp add: map_of_eq_None_iff)
  with Cons show ?case by (cases x) auto
qed simp

lemma range_entries_length:
  assumes "om_sorted data"
  shows "length (filter (\<lambda>x. scan_keys q (fst x)) data)
    = card {k. scan_keys q k \<and> map_of data k \<noteq> None}"
proof -
  let ?f = "filter (\<lambda>x. scan_keys q (fst x)) data"
  have "distinct (map fst ?f)" using assms by (intro om_sorted_distinct) auto
  then have "length ?f = card (set (map fst ?f))" by (metis distinct_card length_map)
  also have "set (map fst ?f) = {k. scan_keys q k \<and> map_of data k \<noteq> None}"
    by (auto simp: map_of_eq_None_iff)
  finally show ?thesis .
qed

lemma filter_scan_of:
  assumes "om_sorted data" and "range_room q (map_of data)"
  shows "scan_of q (map_of data) (filter (\<lambda>x. \<not> deleted (snd x))
    (take (unat (limit q)) (filter (\<lambda>x. scan_keys q (fst x)) data)))"
proof -
  have "length (filter (\<lambda>x. scan_keys q (fst x)) data) \<le> unat (limit q)"
    using assms range_entries_length [OF assms(1)] by (simp add: range_room_def)
  then have "take (unat (limit q)) (filter (\<lambda>x. scan_keys q (fst x)) data)
      = filter (\<lambda>x. scan_keys q (fst x)) data" by simp
  moreover have "distinct (map fst data)" using assms(1) by (rule om_sorted_distinct)
  ultimately show ?thesis
    using assms(1) filter_om_sorted [OF assms(1)]
    by (auto simp: scan_of_def map_of_filter_distinct split: option.splits)
qed

lemma memtable_range_scan_of:
  assumes "memtable_wf mt" and "start_key q \<le> end_key q" and "range_room q (memtable_contents mt)"
  shows "\<exists>xs. memtable_range_scan q mt = Some (Ok xs) \<and> scan_of q (memtable_contents mt) xs"
  using memtable_range_scan_result [OF assms(1,2)] assms(3)
    filter_scan_of [OF memtable_wf_sorted [OF assms(1)], of q]
  by (simp add: memtable_contents_def)

end
