(* ===== verification/Ss_Table.thy ===== *)
theory Ss_Table
  imports Mem_Table File_System
begin

text \<open>
  \<open>SSTable\<close> (\<open>src/storage/sstable.cpp\<close>): an immutable table in a file, with its index.

  The file is a header (magic number, version, count), the entries in key order, the index,
  and the offset of the index. \<open>write\<close> leaves the index in memory; a table opened later
  loads it from the file on first use. The lemmas show that every entry of the written table
  is read back, and when the index that is loaded is the index that was written: keys are
  stored as the text \<open>primary:secondary\<close> and split at the first colon.

  No method of the class calls another one that locks, so its mutex is left out. The running
  out of memory for a size read from a damaged file is not modelled.
\<close>

record index_entry =
  ie_key :: multi_level_key
  ie_offset :: u64
  ie_size :: u32

record sstable =
  sst_filename :: string
  sst_index :: "index_entry list"
  sst_size :: nat

definition SSTable_new :: "string \<Rightarrow> sstable" where
  "SSTable_new filename = \<lparr>sst_filename = filename, sst_index = [], sst_size = 0\<rparr>"

definition sst_magic :: nat where "sst_magic = 0x5354414C"

text \<open>A string on disk: its 32-bit length and that many of its bytes.\<close>

definition sst_string :: "string \<Rightarrow> string" where
  "sst_string s = (let n = unat (word_of_nat (length s) :: u32) in le_bytes 4 n @ take n s)"

definition sst_entry_bytes :: "multi_level_key \<Rightarrow> data_entry \<Rightarrow> string" where
  "sst_entry_bytes key entry =
     sst_string (key_to_string key)
     @ sst_string (entry_value entry)
     @ le_bytes 8 (unat (version entry))
     @ le_bytes 8 (unat (timestamp entry))
     @ [if deleted entry then CHR 0x01 else CHR 0x00]"

text \<open>The loop over the data: the bytes of the entries, and their index.\<close>

fun sst_write_entries :: "nat \<Rightarrow> table \<Rightarrow> string \<times> index_entry list" where
  "sst_write_entries current_offset [] = ([], [])"
| "sst_write_entries current_offset ((key, entry) # data) =
     (let bytes = sst_entry_bytes key entry;
          index_entry = \<lparr>ie_key = key, ie_offset = word_of_nat current_offset,
                         ie_size = word_of_nat (length bytes)\<rparr>;
          (rest, index) = sst_write_entries (current_offset + length bytes) data
      in (bytes @ rest, index_entry # index))"

definition sst_index_bytes :: "index_entry \<Rightarrow> string" where
  "sst_index_bytes ie =
     sst_string (key_to_string (ie_key ie))
     @ le_bytes 8 (unat (ie_offset ie)) @ le_bytes 4 (unat (ie_size ie))"

definition sst_header :: "table \<Rightarrow> string" where
  "sst_header data = le_bytes 4 sst_magic @ le_bytes 4 1 @ le_bytes 4 (length data)"

definition sst_image :: "table \<Rightarrow> string \<times> index_entry list" where
  "sst_image data =
     (let (bytes, index) = sst_write_entries (length (sst_header data)) data;
          index_offset = length (sst_header data) + length bytes
      in (sst_header data @ bytes
          @ le_bytes 4 (length index) @ concat (map sst_index_bytes index)
          @ le_bytes 8 index_offset, index))"

definition sst_write :: "table \<Rightarrow> sstable \<times> fsys \<Rightarrow> unit result \<times> sstable \<times> fsys" where
  "sst_write data = (\<lambda>(t, fs).
     if data = [] then (Error INVALID_ARGUMENT ''Cannot write empty data'', t, fs)
     else if \<not> create_directories (parent_path (sst_filename t)) fs
     then (Error STORAGE_ERROR (''Failed to write SSTable: '' @ fs_what fs), t, fs)
     else
       let (st, fs1) = stream_open_out (sst_filename t) stream_new fs
       in if \<not> st_open st
          then (Error STORAGE_ERROR
                  (''Failed to open SSTable file for writing: '' @ sst_filename t), t, fs1)
          else let (bytes, index) = sst_image data;
                   (st, fs2) = stream_write (sst_filename t) bytes (st, fs1)
               in (Ok (), t\<lparr>sst_index := index, sst_size := length data\<rparr>, fs2))"

section \<open>Reading the index back\<close>

definition read_opt :: "nat \<Rightarrow> string \<Rightarrow> stream \<Rightarrow> nat option \<times> stream" where
  "read_opt k content st =
     (case stream_read k content st of (b, st') \<Rightarrow>
        (if length b = k then Some (le_nat b) else None, st'))"

text \<open>The text of a key, split at its first colon.\<close>

definition parse_key :: "string \<Rightarrow> multi_level_key" where
  "parse_key s =
     (if CHR '':'' \<in> set s
      then MultiLevelKey (takeWhile (\<lambda>c. c \<noteq> CHR '':'') s)
             (drop 1 (dropWhile (\<lambda>c. c \<noteq> CHR '':'') s))
      else MultiLevelKey s [])"

fun load_index_loop :: "nat \<Rightarrow> string \<Rightarrow> stream \<Rightarrow> (index_entry list \<times> stream) option" where
  "load_index_loop 0 content st = Some ([], st)"
| "load_index_loop (Suc n) content st =
     do { (key_size, st) \<leftarrow> read_int 4 content st;
          let (key_str, st) = read_string key_size content st;
          (offset, st) \<leftarrow> read_int 8 content st;
          (size, st) \<leftarrow> read_int 4 content st;
          (index, st) \<leftarrow> load_index_loop n content st;
          Some (\<lparr>ie_key = parse_key key_str, ie_offset = word_of_nat offset,
                 ie_size = word_of_nat size\<rparr> # index, st) }"

definition sst_load_index :: "fsys \<Rightarrow> sstable \<Rightarrow> (unit result \<times> sstable) option" where
  "sst_load_index fs t =
     (if \<not> can_read (sst_filename t) fs
      then Some (Error STORAGE_ERROR ''Failed to open SSTable file'', t)
      else
        let content = (case fs_content fs (sst_filename t) of None \<Rightarrow> [] | Some c \<Rightarrow> c);
            (magic, st) = read_opt 4 content stream_opened;
            (ver, st) = read_opt 4 content st;
            (entry_count, st) = read_opt 4 content st
        in do {
          magic_number \<leftarrow> magic;
          if magic_number \<noteq> sst_magic
          then Some (Error STORAGE_ERROR ''Invalid SSTable magic number'', t)
          else do {
            version_number \<leftarrow> ver;
            if version_number \<noteq> 1
            then Some (Error STORAGE_ERROR ''Unsupported SSTable version'', t)
            else do {
              let st = stream_seekg_end 8 content st;
              (index_offset, st) \<leftarrow> read_int 8 content st;
              let st = stream_seekg index_offset st;
              (index_size, st) \<leftarrow> read_int 4 content st;
              (index, st) \<leftarrow> load_index_loop index_size content st;
              Some (Ok (), t\<lparr>sst_index := index, sst_size := length index\<rparr>) } } })"

definition sst_build_index :: "fsys \<Rightarrow> sstable \<Rightarrow> (unit result \<times> sstable) option" where
  "sst_build_index fs t = sst_load_index fs t"

definition sst_save_index :: "sstable \<Rightarrow> unit result \<times> sstable" where
  "sst_save_index t = (Ok (), t)"

section \<open>Reading entries\<close>

definition ensure_index :: "fsys \<Rightarrow> sstable \<Rightarrow> (unit result \<times> sstable) option" where
  "ensure_index fs t = (if sst_index t = [] then sst_load_index fs t else Some (Ok (), t))"

text \<open>The part of an entry after its key.\<close>

definition read_entry_data :: "string \<Rightarrow> stream \<Rightarrow> (data_entry \<times> stream) option" where
  "read_entry_data content st =
     do { (value_size, st) \<leftarrow> read_int 4 content st;
          let (val, st) = read_string value_size content st;
          (ver, st) \<leftarrow> read_int 8 content st;
          (timestamp_ms, st) \<leftarrow> read_int 8 content st;
          (deleted_flag, st) \<leftarrow> read_int 1 content st;
          Some (\<lparr>entry_value = val, version = word_of_nat ver,
                 timestamp = word_of_nat timestamp_ms, deleted = (deleted_flag \<noteq> 0)\<rparr>, st) }"

definition sst_find :: "multi_level_key \<Rightarrow> sstable \<Rightarrow> nat" where
  "sst_find key t = vec_lower_bound (\<lambda>ie k. ie_key ie < k) (sst_index t) key"

definition sst_read :: "fsys \<Rightarrow> multi_level_key \<Rightarrow> sstable \<Rightarrow> (data_entry result \<times> sstable) option" where
  "sst_read fs key t =
     do { (r, t) \<leftarrow> ensure_index fs t;
          case r of
            Error s m \<Rightarrow> Some (Error s m, t)
          | Ok _ \<Rightarrow>
              let it = sst_find key t
              in if it = length (sst_index t) \<or> ie_key (sst_index t ! it) \<noteq> key
                 then Some (Error NOT_FOUND ''Key not found in SSTable'', t)
                 else if \<not> can_read (sst_filename t) fs
                 then Some (Error STORAGE_ERROR ''Failed to open SSTable file for reading'', t)
                 else do {
                   let content = (case fs_content fs (sst_filename t) of None \<Rightarrow> [] | Some c \<Rightarrow> c);
                   let st = stream_seekg (unat (ie_offset (sst_index t ! it))) stream_opened;
                   (key_size, st) \<leftarrow> read_int 4 content st;
                   let (read_key, st) = read_string key_size content st;
                   if read_key \<noteq> key_to_string key
                   then Some (Error STORAGE_ERROR ''Key mismatch in SSTable'', t)
                   else do {
                     (entry, st) \<leftarrow> read_entry_data content st;
                     if deleted entry
                     then Some (Error NOT_FOUND ''Key is marked as deleted'', t)
                     else Some (Ok entry, t) } } }"

text \<open>The loop of \<open>range_scan\<close>, from the index position \<open>i\<close> to the position \<open>e\<close>.\<close>

function sst_scan_loop ::
    "string \<Rightarrow> index_entry list \<Rightarrow> nat \<Rightarrow> nat \<Rightarrow> nat \<Rightarrow> nat \<Rightarrow> stream \<Rightarrow> table \<Rightarrow> table option" where
  "sst_scan_loop content index i e count lim st results =
     (if i = e \<or> \<not> count < lim then Some results
      else if length index \<le> i then None
      else do {
        let st = stream_seekg (unat (ie_offset (index ! i))) st;
        (key_size, st) \<leftarrow> read_int 4 content st;
        let st = stream_seekg (st_pos st + key_size) st;
        (entry, st) \<leftarrow> read_entry_data content st;
        sst_scan_loop content index (Suc i) e (Suc count) lim st
          (if deleted entry then results else results @ [(ie_key (index ! i), entry)]) })"
  by pat_completeness auto
termination
  by (relation "measure (\<lambda>(content, index, i, e, count, lim, st, results). length index - i)") auto

declare sst_scan_loop.simps [simp del]

definition sst_range_scan :: "fsys \<Rightarrow> range_query \<Rightarrow> sstable \<Rightarrow> (table result \<times> sstable) option" where
  "sst_range_scan fs query t =
     do { (r, t) \<leftarrow> ensure_index fs t;
          case r of
            Error s m \<Rightarrow> Some (Error s m, t)
          | Ok _ \<Rightarrow>
              if \<not> can_read (sst_filename t) fs
              then Some (Error STORAGE_ERROR ''Failed to open SSTable file for reading'', t)
              else
                let content = (case fs_content fs (sst_filename t) of None \<Rightarrow> [] | Some c \<Rightarrow> c);
                    index = sst_index t; n = length index;
                    start_it = vec_lower_bound (\<lambda>ie k. ie_key ie < k) index (start_key query);
                    end_it = vec_upper_bound (\<lambda>k ie. k < ie_key ie) index (end_key query);
                    start_it = (if \<not> inclusive_start query \<and> start_it \<noteq> n
                                  \<and> ie_key (index ! start_it) = start_key query
                                then Suc start_it else start_it);
                    end_it = (if inclusive_end query \<and> end_it \<noteq> 0
                                \<and> ie_key (index ! (end_it - 1)) = end_key query
                              then Suc (end_it - 1) else end_it)
                in do { results \<leftarrow> sst_scan_loop content index start_it end_it 0
                          (unat (limit query)) stream_opened [];
                        Some (Ok results, t) } }"

section \<open>The file of a table\<close>

text \<open>The sizes the format has room for; the memtable admits far less.\<close>

definition sst_fits :: "table \<Rightarrow> bool" where
  "sst_fits data \<longleftrightarrow> data \<noteq> [] \<and> om_sorted data \<and> length data < 2 ^ 32
     \<and> (\<forall>(k, e) \<in> set data. length (sst_entry_bytes k e) < 2 ^ 32)
     \<and> (\<forall>(k, e) \<in> set data. length (key_to_string k) < 2 ^ 32 \<and> length (entry_value e) < 2 ^ 32)
     \<and> length (fst (sst_image data)) < 2 ^ 64"

definition entries_bytes :: "table \<Rightarrow> string" where
  "entries_bytes data = concat (map (\<lambda>(k, e). sst_entry_bytes k e) data)"

lemma entries_bytes_simps [simp]:
  "entries_bytes [] = []"
  "entries_bytes ((k, e) # data) = sst_entry_bytes k e @ entries_bytes data"
  "entries_bytes (xs @ ys) = entries_bytes xs @ entries_bytes ys"
  by (simp_all add: entries_bytes_def)

lemma sst_write_entries_bytes: "fst (sst_write_entries off data) = entries_bytes data"
  by (induction off data rule: sst_write_entries.induct) (auto simp: Let_def split: prod.splits)

lemma sst_write_entries_keys: "map ie_key (snd (sst_write_entries off data)) = map fst data"
  by (induction off data rule: sst_write_entries.induct) (auto simp: Let_def split: prod.splits)

lemma sst_write_entries_length: "length (snd (sst_write_entries off data)) = length data"
  using arg_cong [OF sst_write_entries_keys [of off data], of length] by simp

lemma sst_write_entries_nth:
  "i < length data \<Longrightarrow> snd (sst_write_entries off data) ! i =
     \<lparr>ie_key = fst (data ! i),
      ie_offset = word_of_nat (off + length (entries_bytes (take i data))),
      ie_size = word_of_nat (length (sst_entry_bytes (fst (data ! i)) (snd (data ! i))))\<rparr>"
proof (induction off data arbitrary: i rule: sst_write_entries.induct)
  case (2 off key entry data)
  then show ?case
    by (cases i) (auto simp: Let_def add.assoc split: prod.splits)
qed simp

lemma length_sst_header [simp]: "length (sst_header data) = 12"
  by (simp add: sst_header_def)

definition sst_index_of :: "table \<Rightarrow> index_entry list" where
  "sst_index_of data = snd (sst_write_entries 12 data)"

lemma sst_index_of_length [simp]: "length (sst_index_of data) = length data"
  by (simp add: sst_index_of_def sst_write_entries_length)

lemma sst_index_of_keys [simp]: "map ie_key (sst_index_of data) = map fst data"
  by (simp add: sst_index_of_def sst_write_entries_keys)

lemma sst_index_of_key [simp]: "i < length data \<Longrightarrow> ie_key (sst_index_of data ! i) = fst (data ! i)"
  by (simp add: sst_index_of_def sst_write_entries_nth)

lemma sst_index_of_offset:
  "i < length data \<Longrightarrow> ie_offset (sst_index_of data ! i)
     = word_of_nat (12 + length (entries_bytes (take i data)))"
  by (simp add: sst_index_of_def sst_write_entries_nth)

lemma sst_index_of_Nil_iff [simp]: "sst_index_of data = [] \<longleftrightarrow> data = []"
  by (metis length_0_conv sst_index_of_length)

lemma sst_image_eq:
  "sst_image data = (sst_header data @ entries_bytes data
     @ le_bytes 4 (length data) @ concat (map sst_index_bytes (sst_index_of data))
     @ le_bytes 8 (12 + length (entries_bytes data)), sst_index_of data)"
  using sst_write_entries_bytes [of 12 data] sst_write_entries_length [of 12 data]
  by (cases "sst_write_entries 12 data") (simp add: sst_image_def Let_def sst_index_of_def)

section \<open>Reading what was written\<close>

lemma length_sst_string [simp]: "length s < 2 ^ 32 \<Longrightarrow> length (sst_string s) = 4 + length s"
  by (simp add: sst_string_def Let_def word_of_nat_inverse_u32)

lemma at_sst_string:
  assumes "bytes_at st content (sst_string s)" and "length s < 2 ^ 32"
  shows "read_int 4 content st = Some (length s, skip 4 st)"
    and "read_string (length s) content (skip 4 st) = (s, skip (4 + length s) st)"
proof -
  have s: "sst_string s = le_bytes 4 (length s) @ s"
    using assms(2) by (simp add: sst_string_def Let_def word_of_nat_inverse_u32)
  with assms(1) have "bytes_at st content (le_bytes 4 (length s))" and "bytes_at (skip 4 st) content s"
    by (simp_all add: at_append)
  with assms(2) show "read_int 4 content st = Some (length s, skip 4 st)"
    and "read_string (length s) content (skip 4 st) = (s, skip (4 + length s) st)"
    by (simp_all add: at_read_int at_read_string)
qed

definition entry_tail :: "data_entry \<Rightarrow> string" where
  "entry_tail e = sst_string (entry_value e) @ le_bytes 8 (unat (version e))
     @ le_bytes 8 (unat (timestamp e)) @ [if deleted e then CHR 0x01 else CHR 0x00]"

lemma sst_entry_bytes_tail: "sst_entry_bytes k e = sst_string (key_to_string k) @ entry_tail e"
  by (simp add: sst_entry_bytes_def entry_tail_def)

lemma at_flag:
  assumes "bytes_at st content [if d then CHR 0x01 else CHR 0x00]"
  shows "read_int 1 content st = Some (if d then 1 else 0, skip 1 st)"
  using at_read [OF assms] by (simp add: read_int_def)

lemma at_entry_tail:
  assumes "bytes_at st content (entry_tail e)" and "length (entry_value e) < 2 ^ 32"
  shows "\<exists>n. read_entry_data content st = Some (e, skip n st)"
proof -
  let ?n = "length (entry_value e)"
  from assms have p: "bytes_at st content (sst_string (entry_value e))"
    "bytes_at (skip (4 + ?n) st) content (le_bytes 8 (unat (version e)))"
    "bytes_at (skip (12 + ?n) st) content (le_bytes 8 (unat (timestamp e)))"
    "bytes_at (skip (20 + ?n) st) content [if deleted e then CHR 0x01 else CHR 0x00]"
    by (simp_all add: entry_tail_def at_append add.commute add.left_commute)
  show ?thesis
    using at_sst_string [OF p(1) assms(2)] at_read_u64 [OF p(2)] at_read_u64 [OF p(3)]
      at_flag [OF p(4)]
    by (cases e) (auto simp: read_entry_data_def add.commute add.left_commute)
qed

text \<open>The file holds the table.\<close>

definition sst_stored :: "fsys \<Rightarrow> string \<Rightarrow> table \<Rightarrow> bool" where
  "sst_stored fs p data \<longleftrightarrow> sst_fits data \<and> fs_content fs p = Some (fst (sst_image data))
     \<and> \<not> fs_denied fs p"

lemma sst_fits_entry:
  assumes "sst_fits data" and "i < length data"
  shows "length (key_to_string (fst (data ! i))) < 2 ^ 32"
    and "length (entry_value (snd (data ! i))) < 2 ^ 32"
proof -
  have "data ! i \<in> set data" using assms(2) by simp
  with assms(1) show "length (key_to_string (fst (data ! i))) < 2 ^ 32"
    and "length (entry_value (snd (data ! i))) < 2 ^ 32"
    unfolding sst_fits_def by (auto simp: split_beta)
qed

lemma sst_offset_fits:
  assumes "sst_fits data" and "i < length data"
  shows "unat (ie_offset (sst_index_of data ! i)) = 12 + length (entries_bytes (take i data))"
proof -
  have "entries_bytes data = entries_bytes (take i data) @ entries_bytes (drop i data)"
    by (metis append_take_drop_id entries_bytes_simps(3))
  then have "12 + length (entries_bytes (take i data)) \<le> length (fst (sst_image data))"
    by (simp add: sst_image_eq)
  with assms(1) have "12 + length (entries_bytes (take i data)) < 2 ^ 64"
    unfolding sst_fits_def by linarith
  with assms(2) show ?thesis
    by (simp only: sst_index_of_offset word_of_nat_inverse_u64)
qed

lemma at_entry:
  assumes "sst_fits data" and "i < length data" and "st_good st"
  shows "bytes_at (stream_seekg (unat (ie_offset (sst_index_of data ! i))) st)
    (fst (sst_image data)) (sst_entry_bytes (fst (data ! i)) (snd (data ! i)))"
proof (rule at_start)
  have "data = take i data @ data ! i # drop (Suc i) data"
    using assms(2) by (rule id_take_nth_drop)
  then have "entries_bytes data = entries_bytes (take i data @ data ! i # drop (Suc i) data)"
    by simp
  also have "\<dots> = entries_bytes (take i data)
      @ sst_entry_bytes (fst (data ! i)) (snd (data ! i)) @ entries_bytes (drop (Suc i) data)"
    by (cases "data ! i") (simp only: entries_bytes_simps fst_conv snd_conv)
  finally have e: "entries_bytes data = entries_bytes (take i data)
      @ sst_entry_bytes (fst (data ! i)) (snd (data ! i)) @ entries_bytes (drop (Suc i) data)" .
  show "fst (sst_image data) = (sst_header data @ entries_bytes (take i data))
      @ sst_entry_bytes (fst (data ! i)) (snd (data ! i))
      @ (entries_bytes (drop (Suc i) data) @ le_bytes 4 (length data)
         @ concat (map sst_index_bytes (sst_index_of data))
         @ le_bytes 8 (12 + length (entries_bytes data)))"
    by (subst sst_image_eq, subst e) simp
qed (use assms in \<open>simp_all add: stream_seekg_def st_good_def sst_offset_fits\<close>)

lemma sst_find_index:
  assumes "om_sorted data" and "sst_index t = sst_index_of data"
  shows "sst_find key t = om_lower_bound key data"
proof -
  have "sst_find key t = length (takeWhile (\<lambda>ie. ie_key ie < key) (sst_index_of data))"
    unfolding sst_find_def assms(2) by (rule vec_lower_bound_map) (simp add: assms(1))
  also have "\<dots> = length (takeWhile (\<lambda>k. k < key) (map ie_key (sst_index_of data)))"
    by (simp only: takeWhile_map length_map comp_def)
  also have "\<dots> = om_lower_bound key data"
    by (simp only: sst_index_of_keys om_lower_bound_def takeWhile_map length_map comp_def)
  finally show ?thesis .
qed

lemma om_lookup_at:
  assumes "om_sorted m"
  shows "map_of m k = (let i = om_lower_bound k m
    in if i = length m \<or> fst (m ! i) \<noteq> k then None else Some (snd (m ! i)))"
  using assms
proof (induction m)
  case (Cons e m)
  then show ?case
    by (cases e) (auto simp: om_lower_bound_def Let_def map_of_eq_None_iff dest: bspec dest!: map_of_SomeD)
qed (simp add: om_lower_bound_def)

lemma sst_read_stored:
  assumes "sst_stored fs (sst_filename t) data" and "sst_index t = sst_index_of data"
  shows "\<exists>r. sst_read fs key t = Some (r, t) \<and> found r = live (map_of data key)"
proof -
  from assms(1) have fits: "sst_fits data" and s: "om_sorted data" and ne: "data \<noteq> []"
    and c: "fs_content fs (sst_filename t) = Some (fst (sst_image data))"
    and rd: "can_read (sst_filename t) fs"
    by (simp_all add: sst_stored_def sst_fits_def can_read_def)
  have ei: "ensure_index fs t = Some (Ok (), t)"
    using assms(2) ne by (simp add: ensure_index_def)
  let ?i = "om_lower_bound key data"
  have find: "sst_find key t = ?i" using s assms(2) by (rule sst_find_index)
  show ?thesis
  proof (cases "?i = length data \<or> fst (data ! ?i) \<noteq> key")
    case True
    then have "map_of data key = None" using om_lookup_at [OF s, of key] by simp
    moreover have "?i = length (sst_index t) \<or> ie_key (sst_index t ! ?i) \<noteq> key"
      using True assms(2) by (cases "?i = length data") (simp_all add: le_neq_implies_less)
    ultimately show ?thesis
      by (simp add: sst_read_def ei find)
  next
    case False
    then have i: "?i < length data" and k: "fst (data ! ?i) = key"
      by (simp_all add: le_neq_implies_less)
    let ?e = "snd (data ! ?i)"
    have m: "map_of data key = Some ?e" using False om_lookup_at [OF s, of key] by simp
    let ?st = "stream_seekg (unat (ie_offset (sst_index_of data ! ?i))) stream_opened"
    have "bytes_at ?st (fst (sst_image data)) (sst_entry_bytes key ?e)"
      using at_entry [OF fits i stream_opened_simps(3)] by (simp only: k)
    then have a1: "bytes_at ?st (fst (sst_image data)) (sst_string (key_to_string key))"
      and a2: "bytes_at (skip (4 + length (key_to_string key)) ?st) (fst (sst_image data)) (entry_tail ?e)"
      using sst_fits_entry(1) [OF fits i] k by (simp_all add: sst_entry_bytes_tail at_append)
    from at_entry_tail [OF a2 sst_fits_entry(2) [OF fits i]] obtain n where
      tail: "read_entry_data (fst (sst_image data)) (skip (4 + length (key_to_string key)) ?st)
        = Some (?e, skip n (skip (4 + length (key_to_string key)) ?st))"
      by blast
    have key: "length (key_to_string key) < 2 ^ 32" using sst_fits_entry(1) [OF fits i] k by simp
    have "\<not> (?i = length (sst_index t) \<or> ie_key (sst_index t ! ?i) \<noteq> key)"
      using i k assms(2) by simp
    then have "sst_read fs key t = (if deleted ?e
        then Some (Error NOT_FOUND ''Key is marked as deleted'', t) else Some (Ok ?e, t))"
      using rd c at_sst_string [OF a1 key] tail
      by (simp add: sst_read_def ei find assms(2) del: One_nat_def)
    then show ?thesis by (simp add: m)
  qed
qed

section \<open>Writing and loading\<close>

lemma sst_write_stores:
  assumes "sst_fits data" and "create_directories (parent_path (sst_filename t)) fs"
    and "\<not> fs_denied fs (sst_filename t)"
  shows "\<exists>t' fs'. sst_write data (t, fs) = (Ok (), t', fs')
    \<and> sst_filename t' = sst_filename t \<and> sst_index t' = sst_index_of data
    \<and> sst_stored fs' (sst_filename t) data
    \<and> (\<forall>q. q \<noteq> sst_filename t \<longrightarrow> fs_content fs' q = fs_content fs q)
    \<and> fs_denied fs' = fs_denied fs"
proof -
  have ne: "data \<noteq> []" using assms(1) by (simp add: sst_fits_def)
  obtain bytes where im: "sst_image data = (bytes, sst_index_of data)"
    by (simp add: sst_image_eq)
  show ?thesis
    using assms ne im
    by (simp add: sst_write_def stream_open_out_def stream_new_def stream_write_def
        sst_stored_def)
qed

lemma sst_write_failed:
  assumes "sst_write data (t, fs) = (r, t', fs')" and "\<not> is_ok r"
  shows "t' = t \<and> fs' = fs"
  using assms
  by (auto simp: sst_write_def stream_open_out_def stream_new_def Let_def
      split: if_splits prod.splits)

lemma sst_write_ok:
  assumes "sst_fits data" and "sst_write data (t, fs) = (r, t', fs')" and "is_ok r"
  shows "sst_filename t' = sst_filename t \<and> sst_index t' = sst_index_of data
    \<and> sst_stored fs' (sst_filename t) data
    \<and> (\<forall>q. q \<noteq> sst_filename t \<longrightarrow> fs_content fs' q = fs_content fs q)
    \<and> fs_denied fs' = fs_denied fs"
proof -
  have "create_directories (parent_path (sst_filename t)) fs \<and> \<not> fs_denied fs (sst_filename t)"
    using assms(2,3)
    by (auto simp: sst_write_def stream_open_out_def stream_new_def Let_def split: if_splits)
  with sst_write_stores [OF assms(1), of t fs] assms(2) show ?thesis by auto
qed

definition colon_free :: "multi_level_key \<Rightarrow> bool" where
  "colon_free k \<longleftrightarrow> CHR '':'' \<notin> set (primary_key k)"

lemma takeWhile_stop_at: "c \<notin> set a \<Longrightarrow>
    takeWhile (\<lambda>x. x \<noteq> c) (a @ c # b) = a \<and> dropWhile (\<lambda>x. x \<noteq> c) (a @ c # b) = c # b"
  by (induction a) auto

lemma parse_key_to_string: "colon_free k \<Longrightarrow> parse_key (key_to_string k) = k"
  by (cases k) (simp add: parse_key_def key_to_string_def colon_free_def takeWhile_stop_at)

lemma parse_key_colon_free: "colon_free (parse_key s)"
  by (auto simp: parse_key_def colon_free_def dest: set_takeWhileD)

definition reparsed :: "index_entry \<Rightarrow> index_entry" where
  "reparsed ie = ie\<lparr>ie_key := parse_key (key_to_string (ie_key ie))\<rparr>"

lemma load_index_loop_at:
  assumes "bytes_at st content (concat (map sst_index_bytes index))"
    and "\<forall>ie \<in> set index. length (key_to_string (ie_key ie)) < 2 ^ 32"
  shows "\<exists>st'. load_index_loop (length index) content st = Some (map reparsed index, st')"
  using assms
proof (induction index arbitrary: st)
  case (Cons ie index)
  let ?n = "length (key_to_string (ie_key ie))"
  have n: "?n < 2 ^ 32" using Cons.prems(2) by simp
  from Cons.prems(1) n have a: "bytes_at st content (sst_string (key_to_string (ie_key ie)))"
    "bytes_at (skip (4 + ?n) st) content (le_bytes 8 (unat (ie_offset ie)))"
    "bytes_at (skip (12 + ?n) st) content (le_bytes 4 (unat (ie_size ie)))"
    "bytes_at (skip (16 + ?n) st) content (concat (map sst_index_bytes index))"
    unfolding list.simps concat.simps sst_index_bytes_def [of ie]
    by (simp_all add: at_append add.commute add.left_commute)
  from Cons.IH [OF a(4)] Cons.prems(2) obtain st' where
    "load_index_loop (length index) content (skip (16 + ?n) st) = Some (map reparsed index, st')"
    by auto
  with at_sst_string [OF a(1) n] at_read_u64 [OF a(2)] at_read_u32 [OF a(3)] show ?case
    by (cases ie) (auto simp: reparsed_def add.commute add.left_commute)
qed simp

lemma at_read_opt:
  "bytes_at st content (le_bytes k n) \<Longrightarrow> n < 256 ^ k \<Longrightarrow>
   read_opt k content st = (Some n, skip k st)"
  using at_read [of st content "le_bytes k n"] by (simp add: read_opt_def le_nat_bytes_small)

lemma sst_load_index_stored:
  assumes "sst_stored fs (sst_filename t) data"
  shows "sst_load_index fs t = Some (Ok (),
    t\<lparr>sst_index := map reparsed (sst_index_of data), sst_size := length data\<rparr>)"
proof -
  let ?c = "fst (sst_image data)" and ?n = "length data"
  let ?ix = "concat (map sst_index_bytes (sst_index_of data))"
  let ?off = "12 + length (entries_bytes data)"
  from assms have fits: "sst_fits data" and c: "fs_content fs (sst_filename t) = Some ?c"
    and rd: "can_read (sst_filename t) fs"
    by (simp_all add: sst_stored_def can_read_def)
  have n: "?n < 2 ^ 32" and len: "length ?c < 2 ^ 64" using fits by (simp_all add: sst_fits_def)
  have c_eq: "?c = sst_header data @ entries_bytes data @ le_bytes 4 ?n @ ?ix @ le_bytes 8 ?off"
    by (simp add: sst_image_eq)
  have off: "?off < 2 ^ 64" using len by (simp only: c_eq length_append length_sst_header length_le_bytes)
  let ?st = stream_opened
  have h: "bytes_at ?st ?c (le_bytes 4 sst_magic)" "bytes_at (skip 4 ?st) ?c (le_bytes 4 1)"
    "bytes_at (skip 8 ?st) ?c (le_bytes 4 ?n)"
    by (simp_all add: c_eq sst_header_def bytes_at_def)
  let ?e = "stream_seekg_end 8 ?c (skip 12 ?st)"
  have e: "bytes_at ?e ?c (le_bytes 8 ?off)"
    by (rule at_start [of _ _ "sst_header data @ entries_bytes data @ le_bytes 4 ?n @ ?ix" _ "[]"])
      (simp_all add: stream_seekg_end_def Let_def st_good_def c_eq)
  let ?g = "stream_seekg ?off (skip 8 ?e)"
  have g: "bytes_at ?g ?c (le_bytes 4 ?n @ ?ix)"
    by (rule at_start [of _ _ "sst_header data @ entries_bytes data" _ "le_bytes 8 ?off"])
      (use at_good [OF e] in \<open>simp_all add: c_eq stream_seekg_def st_good_def Let_def\<close>)
  then have g1: "bytes_at ?g ?c (le_bytes 4 ?n)" and g2: "bytes_at (skip 4 ?g) ?c ?ix"
    by (simp_all add: at_append)
  have keys: "\<forall>ie \<in> set (sst_index_of data). length (key_to_string (ie_key ie)) < 2 ^ 32"
  proof
    fix ie assume "ie \<in> set (sst_index_of data)"
    then obtain i where "i < ?n" "ie = sst_index_of data ! i"
      by (auto simp: in_set_conv_nth)
    then show "length (key_to_string (ie_key ie)) < 2 ^ 32"
      using sst_fits_entry(1) [OF fits] by simp
  qed
  from load_index_loop_at [OF g2 keys] obtain st' where
    loop: "load_index_loop ?n ?c (skip 4 ?g) = Some (map reparsed (sst_index_of data), st')"
    by auto
  show ?thesis
    using rd c at_read_opt [OF h(1)] at_read_opt [OF h(2)] at_read_opt [OF h(3)]
      at_read_int [OF e] at_read_int [OF g1] loop n off
    by (simp add: sst_load_index_def sst_magic_def)
qed

text \<open>
  A table reads as its data when its index is in memory, and also when it is still to be
  loaded, provided that no primary key contains a colon.
\<close>

definition keys_reparse :: "table \<Rightarrow> bool" where
  "keys_reparse data \<longleftrightarrow> (\<forall>x \<in> set data. colon_free (fst x))"

lemma reparsed_index: "keys_reparse data \<Longrightarrow> map reparsed (sst_index_of data) = sst_index_of data"
proof (rule map_idI)
  fix ie assume k: "keys_reparse data" and "ie \<in> set (sst_index_of data)"
  then have "ie_key ie \<in> ie_key ` set (sst_index_of data)" by blast
  then have "ie_key ie \<in> set (map fst data)"
    by (simp only: sst_index_of_keys [symmetric] set_map)
  with k have "colon_free (ie_key ie)" by (auto simp: keys_reparse_def)
  then show "reparsed ie = ie" by (simp add: reparsed_def parse_key_to_string)
qed

definition sst_represents :: "fsys \<Rightarrow> sstable \<Rightarrow> (multi_level_key \<Rightarrow> data_entry option) \<Rightarrow> bool" where
  "sst_represents fs t m \<longleftrightarrow> (\<exists>data. sst_stored fs (sst_filename t) data \<and> m = map_of data
     \<and> (sst_index t = sst_index_of data \<or> sst_index t = [] \<and> keys_reparse data))"

lemma sst_read_loads:
  assumes "sst_index t = []"
    and "sst_load_index fs t = Some (Ok (), t')" and "sst_index t' \<noteq> []"
  shows "sst_read fs key t = sst_read fs key t'"
  using assms by (simp add: sst_read_def ensure_index_def)

lemma sst_read_represents:
  assumes "sst_represents fs t m"
  shows "\<exists>r t'. sst_read fs k t = Some (r, t') \<and> found r = live (m k) \<and> sst_represents fs t' m"
proof -
  from assms obtain data where st: "sst_stored fs (sst_filename t) data" and m: "m = map_of data"
    and ix: "sst_index t = sst_index_of data \<or> sst_index t = [] \<and> keys_reparse data"
    by (auto simp: sst_represents_def)
  show ?thesis
  proof (cases "sst_index t = sst_index_of data")
    case True
    from sst_read_stored [OF st True, of k] m assms show ?thesis by auto
  next
    case False
    with ix have e: "sst_index t = []" and k: "keys_reparse data" by simp_all
    let ?t = "t\<lparr>sst_index := sst_index_of data, sst_size := length data\<rparr>"
    have load: "sst_load_index fs t = Some (Ok (), ?t)"
      using sst_load_index_stored [OF st] reparsed_index [OF k] by simp
    have ne: "sst_index ?t \<noteq> []" using st by (simp add: sst_stored_def sst_fits_def)
    have st': "sst_stored fs (sst_filename ?t) data" using st by simp
    have "sst_represents fs ?t m" using st m by (auto simp: sst_represents_def)
    with sst_read_stored [OF st', of k] sst_read_loads [OF e load ne, of k] m
    show ?thesis by auto
  qed
qed

text \<open>What a read finds, without the table it leaves.\<close>

definition sst_reads :: "fsys \<Rightarrow> multi_level_key \<Rightarrow> sstable \<Rightarrow> data_entry option option" where
  "sst_reads fs key t = map_option (found \<circ> fst) (sst_read fs key t)"

lemma sst_reads_represents: "sst_represents fs t m \<Longrightarrow> sst_reads fs key t = Some (live (m key))"
  using sst_read_represents [of fs t m key] by (auto simp: sst_reads_def)

interpretation sst: table_layer "sst_read fs" "sst_represents fs" for fs
  by unfold_locales (rule sst_read_represents)

lemma sst_represents_cong:
  "fs_content fs' (sst_filename t) = fs_content fs (sst_filename t) \<Longrightarrow>
   fs_denied fs' = fs_denied fs \<Longrightarrow> sst_represents fs' t m = sst_represents fs t m"
  by (simp add: sst_represents_def sst_stored_def)

lemma ensure_index_filename:
  "ensure_index fs t = Some (r, t') \<Longrightarrow> sst_filename t' = sst_filename t"
  by (auto simp: ensure_index_def sst_load_index_def Let_def bind_eq_Some_conv
      split: if_splits prod.splits)

lemma sst_read_filename:
  assumes "sst_read fs key t = Some (r, t')"
  shows "sst_filename t' = sst_filename t"
proof -
  from assms obtain r0 t0 where e: "ensure_index fs t = Some (r0, t0)"
    by (auto simp: sst_read_def bind_eq_Some_conv)
  have "t' = t0"
    using assms e
    by (cases r0) (auto simp: sst_read_def Let_def bind_eq_Some_conv split_beta
        split: if_split_asm)
  with ensure_index_filename [OF e] show ?thesis by simp
qed

lemma sst_range_scan_filename:
  assumes "sst_range_scan fs q t = Some (r, t')"
  shows "sst_filename t' = sst_filename t"
proof -
  from assms obtain r0 t0 where e: "ensure_index fs t = Some (r0, t0)"
    by (auto simp: sst_range_scan_def bind_eq_Some_conv)
  have "t' = t0"
    using assms e
    by (cases r0) (auto simp: sst_range_scan_def Let_def bind_eq_Some_conv split: if_split_asm)
  with ensure_index_filename [OF e] show ?thesis by simp
qed

section \<open>A colon in a primary key\<close>

text \<open>
  Once the index has been loaded from the file, no key whose primary part contains a colon is
  found, whatever the table stores under it.
\<close>

lemma sst_find_bound: "sst_find k t \<le> length (sst_index t)"
proof -
  have "bound_loop p i n \<le> i + n" for p i n
  proof (induction p i n rule: bound_loop.induct)
    case (1 p first len)
    show ?case
    proof (cases "len = 0")
      case True
      then show ?thesis by (simp add: bound_loop.simps [of p first])
    next
      case False
      let ?h = "len div 2"
      have "?h < len" using False by simp
      moreover have "bound_loop p (Suc (first + ?h)) (len - ?h - 1)
          \<le> Suc (first + ?h) + (len - ?h - 1)" if "p (first + ?h)"
        using "1.IH"(1) [OF False refl refl that] .
      moreover have "bound_loop p first ?h \<le> first + ?h" if "\<not> p (first + ?h)"
        using "1.IH"(2) [OF False refl refl that] .
      ultimately show ?thesis
        by (subst bound_loop.simps) (auto simp: Let_def intro: le_trans)
    qed
  qed
  from this [of _ 0 "length (sst_index t)"] show ?thesis
    by (simp add: sst_find_def vec_lower_bound_def)
qed

lemma sst_colon_key_lost:
  assumes "sst_stored fs (sst_filename t) data" and "sst_index t = []" and "\<not> colon_free key"
  shows "\<exists>t'. sst_read fs key t = Some (Error NOT_FOUND ''Key not found in SSTable'', t')"
proof -
  let ?t = "t\<lparr>sst_index := map reparsed (sst_index_of data), sst_size := length data\<rparr>"
  have load: "sst_load_index fs t = Some (Ok (), ?t)"
    using assms(1) by (rule sst_load_index_stored)
  have "ie_key (sst_index ?t ! sst_find key ?t) \<noteq> key"
    if "sst_find key ?t \<noteq> length (sst_index ?t)"
  proof -
    have "sst_find key ?t < length (sst_index_of data)"
      using that sst_find_bound [of key ?t] by simp
    then have "colon_free (ie_key (sst_index ?t ! sst_find key ?t))"
      by (simp add: reparsed_def parse_key_colon_free)
    with assms(3) show ?thesis by auto
  qed
  then have "sst_find key ?t = length (sst_index ?t)
      \<or> ie_key (sst_index ?t ! sst_find key ?t) \<noteq> key"
    by blast
  then show ?thesis
    unfolding sst_read_def ensure_index_def Let_def using assms(2) load
    by (simp del: length_map)
qed

section \<open>Range scans\<close>

text \<open>A scan of a stored table gives what the same scan of a memtable with its data gives.\<close>

lemma read_entry_data_good:
  "bytes_at st content (entry_tail e) \<Longrightarrow> length (entry_value e) < 2 ^ 32 \<Longrightarrow>
   \<exists>st'. read_entry_data content st = Some (e, st') \<and> st_good st'"
  using at_entry_tail [of st content e] at_good [of st content "entry_tail e"] by auto

lemma sst_scan_loop_stored:
  assumes "sst_fits data" and "st_good st"
  shows "sst_scan_loop (fst (sst_image data)) (sst_index_of data) i e count lim st acc
    = scan_loop data i e count lim acc"
  using assms
proof (induction data i e count lim acc arbitrary: st rule: scan_loop.induct)
  case (1 xs i e count lim acc)
  let ?c = "fst (sst_image xs)" and ?ix = "sst_index_of xs"
  show ?case
  proof (cases "i = e \<or> \<not> count < lim \<or> length xs \<le> i")
    case True
    then show ?thesis
      by (subst scan_loop.simps, subst sst_scan_loop.simps) auto
  next
    case False
    then have i: "i < length xs" and go: "\<not> (i = e \<or> \<not> count < lim)" by auto
    let ?k = "fst (xs ! i)" and ?d = "snd (xs ! i)"
    let ?st = "stream_seekg (unat (ie_offset (?ix ! i))) st"
    let ?n = "length (key_to_string ?k)"
    have n: "?n < 2 ^ 32" using "1.prems"(1) i by (rule sst_fits_entry)
    from at_entry [OF "1.prems"(1) i "1.prems"(2)] n
    have a1: "bytes_at ?st ?c (sst_string (key_to_string ?k))"
      and a2: "bytes_at (skip (4 + ?n) ?st) ?c (entry_tail ?d)"
      by (simp_all add: sst_entry_bytes_tail at_append)
    let ?st2 = "stream_seekg (st_pos (skip 4 ?st) + ?n) (skip 4 ?st)"
    have st2: "?st2 = skip (4 + ?n) ?st"
      using at_good [OF a1]
      by (simp add: stream_seekg_def skip_def st_good_def Let_def add.assoc)
    from read_entry_data_good [OF a2 sst_fits_entry(2) [OF "1.prems"(1) i]] obtain st' where
      st': "read_entry_data ?c ?st2 = Some (?d, st')" "st_good st'"
      unfolding st2 by blast
    let ?acc = "if deleted ?d then acc else acc @ [xs ! i]"
    have "sst_scan_loop ?c ?ix i e count lim st acc
        = sst_scan_loop ?c ?ix (Suc i) e (Suc count) lim st' ?acc"
      using go i at_sst_string(1) [OF a1 n] st'(1)
      by (subst sst_scan_loop.simps) (simp add: Let_def)
    also have "\<dots> = scan_loop xs (Suc i) e (Suc count) lim ?acc"
      using i "1.prems"(1) st'(2) by (intro "1.IH" [OF go]) auto
    also have "\<dots> = scan_loop xs i e count lim acc"
      using go i by (subst (2) scan_loop.simps) simp
    finally show ?thesis .
  qed
qed

lemma sst_bounds:
  assumes "om_sorted data"
  shows "vec_lower_bound (\<lambda>ie k. ie_key ie < k) (sst_index_of data) key = om_lower_bound key data"
    and "vec_upper_bound (\<lambda>k ie. k < ie_key ie) (sst_index_of data) key = om_upper_bound key data"
proof -
  show "vec_lower_bound (\<lambda>ie k. ie_key ie < k) (sst_index_of data) key = om_lower_bound key data"
    using sst_find_index [OF assms, of "SSTable_new []\<lparr>sst_index := sst_index_of data\<rparr>" key]
    by (simp add: sst_find_def)
  have "vec_upper_bound (\<lambda>k ie. k < ie_key ie) (sst_index_of data) key
      = length (takeWhile (\<lambda>k. k \<le> key) (map ie_key (sst_index_of data)))"
    by (simp add: vec_upper_bound_map assms takeWhile_map comp_def del: sst_index_of_keys)
      (simp add: vec_upper_bound_map assms)
  then show "vec_upper_bound (\<lambda>k ie. k < ie_key ie) (sst_index_of data) key
      = om_upper_bound key data"
    by (simp only: sst_index_of_keys om_upper_bound_def takeWhile_map length_map comp_def)
qed

lemma sst_range_scan_loaded:
  assumes "sst_stored fs (sst_filename t) data" and "sst_index t = sst_index_of data"
  shows "sst_range_scan fs q t =
    map_option (\<lambda>r. (r, t)) (memtable_range_scan q \<lparr>mt_data = data, memory_usage = u\<rparr>)"
proof -
  let ?lo = "om_lower_bound (start_key q) data" and ?hi = "om_upper_bound (end_key q) data"
  from assms(1) have fits: "sst_fits data" and s: "om_sorted data" and ne: "data \<noteq> []"
    and c: "fs_content fs (sst_filename t) = Some (fst (sst_image data))"
    and rd: "can_read (sst_filename t) fs"
    by (simp_all add: sst_stored_def sst_fits_def can_read_def)
  have ei: "ensure_index fs t = Some (Ok (), t)"
    using assms(2) ne by (simp add: ensure_index_def)
  have hi: "\<not> (inclusive_end q \<and> ?hi \<noteq> length data \<and> fst (data ! ?hi) = end_key q)"
    using upper_bound_past_end [of "end_key q" data] by (auto simp: le_neq_implies_less)
  have lo: "(\<not> inclusive_start q \<and> ?lo \<noteq> length data \<and> ie_key (sst_index_of data ! ?lo) = start_key q)
      = (\<not> inclusive_start q \<and> ?lo \<noteq> length data \<and> fst (data ! ?lo) = start_key q)"
    by (auto simp: le_neq_implies_less)
  have he: "(if inclusive_end q \<and> ?hi \<noteq> 0 \<and> ie_key (sst_index_of data ! (?hi - 1)) = end_key q
      then Suc (?hi - 1) else ?hi) = ?hi"
    by auto
  show ?thesis
    unfolding sst_range_scan_def memtable_range_scan_def Let_def
    using rd c ei hi assms(2)
    by (auto simp: sst_bounds [OF s] lo he sst_scan_loop_stored [OF fits] option.map_comp comp_def
        map_conv_bind_option del: One_nat_def)
qed

lemma sst_range_scan_loads:
  assumes "sst_index t = []"
    and "sst_load_index fs t = Some (Ok (), t')" and "sst_index t' \<noteq> []"
  shows "sst_range_scan fs q t = sst_range_scan fs q t'"
  using assms by (simp add: sst_range_scan_def ensure_index_def)

lemma sst_range_scan_of:
  assumes "sst_represents fs t m" and "start_key q \<le> end_key q" and "range_room q m"
  shows "\<exists>xs t'. sst_range_scan fs q t = Some (Ok xs, t') \<and> scan_of q m xs
    \<and> sst_represents fs t' m \<and> sst_filename t' = sst_filename t"
proof -
  from assms(1) obtain data where st: "sst_stored fs (sst_filename t) data" and m: "m = map_of data"
    and ix: "sst_index t = sst_index_of data \<or> sst_index t = [] \<and> keys_reparse data"
    by (auto simp: sst_represents_def)
  let ?mt = "\<lparr>mt_data = data, memory_usage = sum_list (map entry_cost data)\<rparr>"
  have "memtable_wf ?mt" using st by (simp add: memtable_wf_def sst_stored_def sst_fits_def)
  from memtable_range_scan_of [OF this assms(2)] assms(3) m obtain xs where
    xs: "memtable_range_scan q ?mt = Some (Ok xs)" "scan_of q m xs"
    by (auto simp: memtable_contents_def)
  have loaded: "sst_range_scan fs q u = Some (Ok xs, u)"
    if "sst_stored fs (sst_filename u) data" "sst_index u = sst_index_of data" for u
    using sst_range_scan_loaded [OF that, of q "sum_list (map entry_cost data)"] xs(1) by simp
  show ?thesis
  proof (cases "sst_index t = sst_index_of data")
    case True
    with loaded [OF st] xs(2) assms(1) show ?thesis by auto
  next
    case False
    with ix have e: "sst_index t = []" and k: "keys_reparse data" by simp_all
    let ?t = "t\<lparr>sst_index := sst_index_of data, sst_size := length data\<rparr>"
    have load: "sst_load_index fs t = Some (Ok (), ?t)"
      using sst_load_index_stored [OF st] reparsed_index [OF k] by simp
    have ne: "sst_index ?t \<noteq> []" using st by (simp add: sst_stored_def sst_fits_def)
    have "sst_represents fs ?t m" using st m by (auto simp: sst_represents_def)
    with loaded [of ?t] sst_range_scan_loads [OF e load ne] st xs(2) show ?thesis by simp
  qed
qed

end
