(* ===== verification/Text_Numbers.thy ===== *)
theory Text_Numbers
  imports Prelude
begin

text \<open>
  Numbers in text, as the standard library reads and prints them: \<open>std::stoull\<close>, the
  extraction of an \<open>int\<close> from a stream, and a field of three digits filled with zeros.
\<close>

text \<open>
  \<open>std::stoull\<close>: white space, a sign, and at least one digit; the rest is ignored. \<open>None\<close>
  stands for the exception. A minus sign negates modulo \<open>2^64\<close>.
\<close>

definition is_space :: "char \<Rightarrow> bool" where
  "is_space c = (c = CHR '' '' \<or> (of_char c :: nat) \<in> {9..13})"

definition is_digit :: "char \<Rightarrow> bool" where
  "is_digit c = ((of_char c :: nat) \<in> {48..57})"

definition stoull :: "string \<Rightarrow> u64 option" where
  "stoull s =
     (let s1 = dropWhile is_space s;
          (neg, s2) = (case s1 of [] \<Rightarrow> (False, s1)
            | c # cs \<Rightarrow> if c = CHR ''-'' then (True, cs)
                         else if c = CHR ''+'' then (False, cs) else (False, s1));
          ds = takeWhile is_digit s2;
          n = digits_val (map (\<lambda>c. of_char c - 48) ds)
      in if ds = [] \<or> 2 ^ 64 \<le> n then None
         else Some (if neg then - word_of_nat n else word_of_nat n))"

definition pad3 :: "nat \<Rightarrow> string" where
  "pad3 n = replicate (3 - length (to_string n)) CHR ''0'' @ to_string n"

text \<open>\<open>ss >> n\<close> for an \<open>int\<close>: zero when there is no number, the nearest limit when it is too large.\<close>

definition stream_int :: "string \<Rightarrow> int" where
  "stream_int s =
     (let s1 = dropWhile is_space s;
          (neg, s2) = (case s1 of [] \<Rightarrow> (False, s1)
            | c # cs \<Rightarrow> if c = CHR ''-'' then (True, cs)
                         else if c = CHR ''+'' then (False, cs) else (False, s1));
          n = int (digits_val (map (\<lambda>c. of_char c - 48) (takeWhile is_digit s2)))
      in if neg then max (- (2 ^ 31)) (- n) else min (2 ^ 31 - 1) n)"

text \<open>\<open>std::stoi\<close>: like \<open>stoull\<close>, for an \<open>int\<close>; \<open>None\<close> stands for either exception.\<close>

definition stoi :: "string \<Rightarrow> int option" where
  "stoi s =
     (let s1 = dropWhile is_space s;
          (neg, s2) = (case s1 of [] \<Rightarrow> (False, s1)
            | c # cs \<Rightarrow> if c = CHR ''-'' then (True, cs)
                         else if c = CHR ''+'' then (False, cs) else (False, s1));
          ds = takeWhile is_digit s2;
          n = int (digits_val (map (\<lambda>c. of_char c - 48) ds));
          v = (if neg then - n else n)
      in if ds = [] \<or> v < - (2 ^ 31) \<or> 2 ^ 31 \<le> v then None else Some v)"

section \<open>Reading back what was printed\<close>

lemma digit_char: "(d :: nat) < 10 \<Longrightarrow> is_digit (char_of (48 + d)) \<and> \<not> is_space (char_of (48 + d))
    \<and> char_of (48 + d) \<noteq> CHR ''-'' \<and> char_of (48 + d) \<noteq> CHR ''+'' \<and> char_of (48 + d) \<noteq> CHR ''_''"
proof -
  assume d: "d < 10"
  have v: "(of_char (char_of (48 + d) :: char) :: nat) = 48 + d" using d by simp
  have other: "char_of (48 + d) \<noteq> c" if "(of_char c :: nat) \<notin> {48..57}" for c :: char
    using that v d by auto
  show ?thesis
    using v d other [of "CHR '' ''"] other [of "CHR ''-''"] other [of "CHR ''+''"] other [of "CHR ''_''"]
    by (simp add: is_digit_def is_space_def)
qed

lemma to_string_digits: "c \<in> set (to_string n) \<Longrightarrow> is_digit c \<and> \<not> is_space c
    \<and> c \<noteq> CHR ''-'' \<and> c \<noteq> CHR ''+'' \<and> c \<noteq> CHR ''_''"
  using digit_char digits_of_small by (auto simp: to_string_def)

lemma digits_of_nonempty: "digits_of n \<noteq> []"
  by (subst digits_of.simps) simp

lemma to_string_nonempty [simp]: "to_string n \<noteq> []"
  by (simp add: to_string_def digits_of_nonempty)

lemma to_string_value: "digits_val (map (\<lambda>c. of_char c - 48) (to_string n)) = n"
proof -
  have "map ((\<lambda>c. of_char c - 48 :: nat) \<circ> (\<lambda>d. char_of (48 + d))) (digits_of n) = map (\<lambda>d. d) (digits_of n)"
    by (rule map_cong [OF refl]) (use digits_of_small in fastforce)
  then show ?thesis by (simp add: to_string_def)
qed

lemma stoull_to_string:
  assumes "n < 2 ^ 64"
  shows "stoull (to_string n) = Some (word_of_nat n)"
proof -
  obtain c cs where c: "to_string n = c # cs" by (cases "to_string n") auto
  then have h: "\<not> is_space c" "c \<noteq> CHR ''-''" "c \<noteq> CHR ''+''"
    using to_string_digits [of c n] by simp_all
  have "takeWhile is_digit (to_string n) = to_string n"
    using to_string_digits by (simp add: takeWhile_eq_all_conv)
  with c h assms to_string_value [of n] show ?thesis by (simp add: stoull_def)
qed

lemma stoi_to_string:
  "stoi (to_string n) = (if n < 2 ^ 31 then Some (int n) else None)"
proof -
  obtain c cs where c: "to_string n = c # cs" by (cases "to_string n") auto
  then have h: "\<not> is_space c" "c \<noteq> CHR ''-''" "c \<noteq> CHR ''+''"
    using to_string_digits [of c n] by simp_all
  have "takeWhile is_digit (to_string n) = to_string n"
    using to_string_digits by (simp add: takeWhile_eq_all_conv)
  with c h to_string_value [of n] show ?thesis by (simp add: stoi_def not_less)
qed

end
