(* ===== verification/Lsm_Tree.thy ===== *)
theory Lsm_Tree
  imports Complex_Main Wal Ss_Table Text_Numbers
begin

text \<open>
  The storage engine (\<open>src/storage/lsm_tree.cpp\<close>, \<open>storage_engine_factory.cpp\<close>): a
  memtable, an immutable memtable that is being written out, the SSTables from old to new,
  and the write-ahead log, under one \<open>shared_mutex\<close>. The state of an operation is the engine
  and the file system.

  \<open>lsm_layers\<close> says which contents the engine stands for, newest layer first. The lemmas say
  what each operation does to these layers and what \<open>get\<close> and \<open>range_scan\<close> answer from
  them.

  The text of a time in \<open>generate_sstable_filename\<close> depends on the time zone of the machine;
  it is the parameter \<open>stamp\<close>. A data directory is written without a trailing slash.
\<close>

record lsm =
  data_dir :: string
  lsm_memtable :: memtable
  immutable_memtable :: "memtable option"
  sstables :: "sstable list"
  lsm_wal :: wal
  lsm_held :: bool
  stop_background :: bool
  background_thread :: bool
  lsm_is_open :: bool
  total_reads :: u64
  cache_hits :: u64
  memtable_size_limit :: u64
  max_sstables :: u64
  enable_compression :: bool

type_synonym lsm_state = "lsm \<times> fsys"

definition lsm_mutex_held :: "lsm_state \<Rightarrow> bool" where
  "lsm_mutex_held s = lsm_held (fst s)"

definition lsm_set_held :: "bool \<Rightarrow> lsm_state \<Rightarrow> lsm_state" where
  "lsm_set_held b s = ((fst s)\<lparr>lsm_held := b\<rparr>, snd s)"

interpretation lsm_mx: mutex_class lsm_mutex_held lsm_set_held
  by unfold_locales (auto simp: lsm_mutex_held_def lsm_set_held_def prod_eq_iff)

abbreviation lsm_locked :: "(lsm_state, 'a) op \<Rightarrow> (lsm_state, 'a) op" where
  "lsm_locked \<equiv> guarded lsm_mutex_held lsm_set_held"

definition on_wal :: "(wal_state, 'a) op \<Rightarrow> (lsm_state, 'a) op" where
  "on_wal f = (\<lambda>(l, fs). do { (r, (w, fs)) \<leftarrow> f (lsm_wal l, fs); Some (r, (l\<lparr>lsm_wal := w\<rparr>, fs)) })"

section \<open>Construction\<close>

definition LSMTreeEngine :: "string \<Rightarrow> (string \<Rightarrow> string option) \<Rightarrow> lsm option" where
  "LSMTreeEngine dir config =
     do { mem_limit \<leftarrow> (case config ''memtable_size_mb'' of
            None \<Rightarrow> Some MEMTABLE_SIZE_LIMIT
          | Some v \<Rightarrow> map_option (\<lambda>n. n * 1024 * 1024) (stoull v));
          max_tables \<leftarrow> (case config ''max_sstables'' of None \<Rightarrow> Some 10 | Some v \<Rightarrow> stoull v);
          let compression = (case config ''enable_compression'' of
                 None \<Rightarrow> False | Some v \<Rightarrow> v = ''true'');
          Some \<lparr>data_dir = dir, lsm_memtable = MemTable_new, immutable_memtable = None,
            sstables = [], lsm_wal = WAL_new (dir @ ''/wal.log''), lsm_held = False,
            stop_background = False, background_thread = False, lsm_is_open = False,
            total_reads = 0, cache_hits = 0, memtable_size_limit = mem_limit,
            max_sstables = max_tables, enable_compression = compression\<rparr> }"

definition create_engine ::
    "engine_type \<Rightarrow> string \<Rightarrow> (string \<Rightarrow> string option) \<Rightarrow> fsys \<Rightarrow> lsm option" where
  "create_engine type dir config fs =
     (if \<not> create_directories dir fs then None
      else case type of
             LSM_TREE \<Rightarrow> LSMTreeEngine dir config
           | B_PLUS_TREE \<Rightarrow> LSMTreeEngine dir config
           | HASH_TABLE \<Rightarrow> LSMTreeEngine dir config)"

section \<open>Reads and writes\<close>

definition get_from_memtable :: "multi_level_key \<Rightarrow> lsm \<Rightarrow> data_entry result" where
  "get_from_memtable key l = memtable_get key (lsm_memtable l)"

text \<open>The loop over the tables, given from new to old.\<close>

fun read_tables ::
    "fsys \<Rightarrow> multi_level_key \<Rightarrow> sstable list \<Rightarrow> (data_entry result \<times> sstable list) option" where
  "read_tables fs key [] = Some (Error NOT_FOUND ''Key not found in SSTables'', [])"
| "read_tables fs key (t # ts) =
     do { (r, t) \<leftarrow> sst_read fs key t;
          if is_ok r then Some (r, t # ts)
          else do { (r, ts) \<leftarrow> read_tables fs key ts; Some (r, t # ts) } }"

definition get_from_sstables :: "multi_level_key \<Rightarrow> (lsm_state, data_entry result) op" where
  "get_from_sstables key = (\<lambda>(l, fs).
     do { (r, ts) \<leftarrow> read_tables fs key (rev (sstables l));
          Some (r, (l\<lparr>sstables := rev ts\<rparr>, fs)) })"

definition lsm_get :: "multi_level_key \<Rightarrow> (lsm_state, data_entry result) op" where
  "lsm_get key = lsm_locked (\<lambda>(l, fs).
     if \<not> lsm_is_open l then Some (Error STORAGE_ERROR ''LSM tree is not open'', (l, fs))
     else
       let l = l\<lparr>total_reads := total_reads l + 1\<rparr>;
           memtable_result = get_from_memtable key l
       in if is_ok memtable_result
          then Some (memtable_result, (l\<lparr>cache_hits := cache_hits l + 1\<rparr>, fs))
          else
            let immutable_result = map_option (memtable_get key) (immutable_memtable l)
            in case immutable_result of
                 Some (Ok e) \<Rightarrow> Some (Ok e, (l\<lparr>cache_hits := cache_hits l + 1\<rparr>, fs))
               | _ \<Rightarrow>
                 do { (sstable_result, (l, fs)) \<leftarrow> get_from_sstables key (l, fs);
                      if is_ok sstable_result then Some (sstable_result, (l, fs))
                      else Some (Error NOT_FOUND ''Key not found'', (l, fs)) })"

text \<open>
  \<open>put\<close> wakes the background thread when the memtable is full; the wake-up has no effect on
  the state.
\<close>

definition lsm_put :: "multi_level_key \<Rightarrow> data_entry \<Rightarrow> (lsm_state, unit result) op" where
  "lsm_put key entry = lsm_locked (\<lambda>(l, fs).
     if \<not> lsm_is_open l then Some (Error STORAGE_ERROR ''LSM tree is not open'', (l, fs))
     else do {
       (wal_result, (l, fs)) \<leftarrow> on_wal (wal_append (WALEntry WAL_PUT key entry 0)) (l, fs);
       if \<not> is_ok wal_result then Some (wal_result, (l, fs))
       else let (put_result, mt) = memtable_put key entry (lsm_memtable l)
            in Some (put_result, (l\<lparr>lsm_memtable := mt\<rparr>, fs)) })"

text \<open>The conditional writes call \<open>get\<close>, \<open>put\<close> and \<open>remove\<close> of the same engine under its mutex.\<close>

abbreviation lsm_relock :: "(lsm_state, 'a) op \<Rightarrow> (lsm_state, 'a attempt) op" where
  "lsm_relock f \<equiv> relock lsm_mutex_held (returning f)"

definition lsm_put_if_version_match ::
    "multi_level_key \<Rightarrow> data_entry \<Rightarrow> u64 \<Rightarrow> (lsm_state, unit result attempt) op" where
  "lsm_put_if_version_match key entry expected_version = lsm_locked (\<lambda>(l, fs).
     if \<not> lsm_is_open l then Some (Returns (Error STORAGE_ERROR ''LSM tree is not open''), (l, fs))
     else and_then (lsm_relock (lsm_get key)) (\<lambda>current_result s.
       case current_result of
         Ok e \<Rightarrow>
           if version e \<noteq> expected_version
           then Some (Returns (Error VERSION_CONFLICT ''Version mismatch''), s)
           else lsm_relock (lsm_put key (entry\<lparr>version := expected_version + 1\<rparr>)) s
       | Error _ _ \<Rightarrow>
           if expected_version \<noteq> 0
           then Some (Returns (Error VERSION_CONFLICT
                  ''Key does not exist but expected version is not 0''), s)
           else lsm_relock (lsm_put key (entry\<lparr>version := expected_version + 1\<rparr>)) s) (l, fs))"

definition lsm_remove :: "time_point \<Rightarrow> multi_level_key \<Rightarrow> (lsm_state, unit result) op" where
  "lsm_remove now key = lsm_locked (\<lambda>(l, fs).
     if \<not> lsm_is_open l then Some (Error STORAGE_ERROR ''LSM tree is not open'', (l, fs))
     else
       let delete_entry = (DataEntry_default now)\<lparr>deleted := True, timestamp := millis_of now\<rparr>
       in do {
         (wal_result, (l, fs)) \<leftarrow>
           on_wal (wal_append (WALEntry WAL_DELETE key delete_entry 0)) (l, fs);
         if \<not> is_ok wal_result then Some (wal_result, (l, fs))
         else let (remove_result, mt) = memtable_remove now key (lsm_memtable l)
              in Some (remove_result, (l\<lparr>lsm_memtable := mt\<rparr>, fs)) })"

definition lsm_remove_if_version_match ::
    "time_point \<Rightarrow> multi_level_key \<Rightarrow> u64 \<Rightarrow> (lsm_state, unit result attempt) op" where
  "lsm_remove_if_version_match now key expected_version = lsm_locked (\<lambda>(l, fs).
     if \<not> lsm_is_open l then Some (Returns (Error STORAGE_ERROR ''LSM tree is not open''), (l, fs))
     else and_then (lsm_relock (lsm_get key)) (\<lambda>current_result s.
       case current_result of
         Error _ _ \<Rightarrow> Some (Returns (Error NOT_FOUND ''Key not found''), s)
       | Ok e \<Rightarrow>
           if version e \<noteq> expected_version
           then Some (Returns (Error VERSION_CONFLICT ''Version mismatch''), s)
           else lsm_relock (lsm_remove now key) s) (l, fs))"

text \<open>Range scans: the sources are merged into an ordered map, the newest value first.\<close>

definition merge_new :: "table \<Rightarrow> table \<Rightarrow> table" where
  "merge_new merged data =
     foldl (\<lambda>m (key, entry). if map_of m key = None then om_insert key entry m else m) merged data"

fun scan_tables :: "fsys \<Rightarrow> range_query \<Rightarrow> sstable list \<Rightarrow> table \<Rightarrow> (table \<times> sstable list) option" where
  "scan_tables fs query [] merged = Some (merged, [])"
| "scan_tables fs query (t # ts) merged =
     do { (r, t) \<leftarrow> sst_range_scan fs query t;
          (merged, ts) \<leftarrow> scan_tables fs query ts
            (case r of Ok data \<Rightarrow> merge_new merged data | Error _ _ \<Rightarrow> merged);
          Some (merged, t # ts) }"

fun take_live :: "nat \<Rightarrow> table \<Rightarrow> table" where
  "take_live room [] = []"
| "take_live room (x # xs) =
     (if room = 0 then []
      else if deleted (snd x) then take_live room xs
      else x # take_live (room - 1) xs)"

definition lsm_range_scan :: "range_query \<Rightarrow> (lsm_state, table result) op" where
  "lsm_range_scan query = lsm_locked (\<lambda>(l, fs).
     if \<not> lsm_is_open l then Some (Error STORAGE_ERROR ''LSM tree is not open'', (l, fs))
     else do {
       r \<leftarrow> memtable_range_scan query (lsm_memtable l);
       let merged = (case r of
              Ok data \<Rightarrow> foldl (\<lambda>m (key, entry). om_insert key entry m) [] data
            | Error _ _ \<Rightarrow> []);
       merged \<leftarrow> (case immutable_memtable l of
            None \<Rightarrow> Some merged
          | Some mt \<Rightarrow> do { r \<leftarrow> memtable_range_scan query mt;
                            Some (case r of Ok data \<Rightarrow> merge_new merged data
                                   | Error _ _ \<Rightarrow> merged) });
       (merged, ts) \<leftarrow> scan_tables fs query (rev (sstables l)) merged;
       Some (Ok (take_live (unat (limit query)) merged), (l\<lparr>sstables := rev ts\<rparr>, fs)) })"

fun multi_get_loop ::
    "time_point \<Rightarrow> multi_level_key list \<Rightarrow> data_entry list \<Rightarrow> (lsm_state, data_entry list) op" where
  "multi_get_loop now [] results s = Some (results, s)"
| "multi_get_loop now (key # keys) results s =
     do { (r, s) \<leftarrow> lsm_get key s;
          multi_get_loop now keys
            (results @ [case r of Ok e \<Rightarrow> e | Error _ _ \<Rightarrow> DataEntry_default now]) s }"

definition lsm_multi_get ::
    "time_point \<Rightarrow> multi_level_key list \<Rightarrow> (lsm_state, data_entry list result) op" where
  "lsm_multi_get now keys s =
     do { (results, s) \<leftarrow> multi_get_loop now keys [] s; Some (Ok results, s) }"

fun lsm_multi_put :: "table \<Rightarrow> (lsm_state, unit result) op" where
  "lsm_multi_put [] s = Some (Ok (), s)"
| "lsm_multi_put ((key, entry) # entries) s =
     do { (r, s) \<leftarrow> lsm_put key entry s;
          if is_ok r then lsm_multi_put entries s else Some (r, s) }"

section \<open>Flushing and compaction\<close>

text \<open>\<open>std::setw(3)\<close> with \<open>setfill('0')\<close>.\<close>

definition generate_sstable_filename :: "(int \<Rightarrow> string) \<Rightarrow> time_point \<Rightarrow> lsm \<Rightarrow> string" where
  "generate_sstable_filename stamp now l =
     data_dir l @ ''/sstable_'' @ stamp (cxx_div now 1000000000) @ ''_''
     @ pad3 (nat (cxx_div now 1000000 mod 1000)) @ ''.sst''"

definition write_table :: "string \<Rightarrow> table \<Rightarrow> lsm_state \<Rightarrow> unit result \<times> lsm_state" where
  "write_table filename data = (\<lambda>(l, fs).
     let (r, t, fs) = sst_write data (SSTable_new filename, fs)
     in if is_ok r then (r, (l\<lparr>sstables := sstables l @ [t]\<rparr>, fs)) else (r, (l, fs)))"

text \<open>The first step of \<open>flush_memtable\<close>: an older immutable memtable is written out.\<close>

definition flush_older :: "(int \<Rightarrow> string) \<Rightarrow> time_point \<Rightarrow> lsm_state \<Rightarrow> unit result \<times> lsm_state" where
  "flush_older stamp now s =
     (case immutable_memtable (fst s) of
        None \<Rightarrow> (Ok (), s)
      | Some imm \<Rightarrow> write_table (generate_sstable_filename stamp now (fst s))
                      (memtable_get_all_data imm) s)"

text \<open>
  \<open>flush_memtable\<close> reads the clock for the name of the older table (\<open>now1\<close>), for the name of
  the new one (\<open>now2\<close>), and for the checkpoint entry (\<open>now3\<close>).
\<close>

definition flush_memtable ::
    "(int \<Rightarrow> string) \<Rightarrow> time_point \<Rightarrow> time_point \<Rightarrow> time_point \<Rightarrow> (lsm_state, unit result) op" where
  "flush_memtable stamp now1 now2 now3 = (\<lambda>(l, fs).
     if memtable_size (lsm_memtable l) = 0 then Some (Ok (), (l, fs))
     else
       let (r, (l, fs)) = flush_older stamp now1 (l, fs)
       in if \<not> is_ok r then Some (r, (l, fs))
          else
            let imm = lsm_memtable l;
                l = l\<lparr>immutable_memtable := Some imm, lsm_memtable := MemTable_new\<rparr>;
                (r, (l, fs)) = write_table (generate_sstable_filename stamp now2 l)
                                 (memtable_get_all_data imm) (l, fs)
            in if \<not> is_ok r then Some (r, (l, fs))
               else do {
                 let l = l\<lparr>immutable_memtable := None\<rparr>;
                 (_, s) \<leftarrow> on_wal (wal_append (WALEntry WAL_CHECKPOINT (MultiLevelKey [] [])
                              (DataEntry_default now3) 0)) (l, fs);
                 Some (Ok (), s) })"

definition lsm_flush ::
    "(int \<Rightarrow> string) \<Rightarrow> time_point \<Rightarrow> time_point \<Rightarrow> time_point \<Rightarrow> (lsm_state, unit result) op" where
  "lsm_flush stamp now1 now2 now3 = lsm_locked (\<lambda>(l, fs).
     if \<not> lsm_is_open l then Some (Error STORAGE_ERROR ''LSM tree is not open'', (l, fs))
     else do {
       (flush_result, s) \<leftarrow> flush_memtable stamp now1 now2 now3 (l, fs);
       if \<not> is_ok flush_result then Some (flush_result, s)
       else on_wal wal_sync s })"

text \<open>
  \<open>compact_sstables\<close> takes the two oldest tables out of the vector and writes
  \<open>merged_data\<close>, which nothing ever fills.
\<close>

definition compact_sstables :: "(int \<Rightarrow> string) \<Rightarrow> time_point \<Rightarrow> (lsm_state, unit result) op" where
  "compact_sstables stamp now = (\<lambda>(l, fs).
     case sstables l of
       sstable1 # sstable2 # rest \<Rightarrow>
         let l = l\<lparr>sstables := rest\<rparr>;
             merged_data = [];
             (write_result, t, fs) =
               sst_write merged_data (SSTable_new (generate_sstable_filename stamp now l), fs)
         in if \<not> is_ok write_result then Some (write_result, (l, fs))
            else
              let l = l\<lparr>sstables := t # sstables l\<rparr>
              in if fs_denied fs (sst_filename sstable1)
                 then Some (Error STORAGE_ERROR
                        (''Failed to compact SSTables: '' @ fs_what fs), (l, fs))
                 else
                   let fs = fs_remove (sst_filename sstable1) fs
                   in if fs_denied fs (sst_filename sstable2)
                      then Some (Error STORAGE_ERROR
                             (''Failed to compact SSTables: '' @ fs_what fs), (l, fs))
                      else Some (Ok (), (l, fs_remove (sst_filename sstable2) fs))
     | _ \<Rightarrow> Some (Ok (), (l, fs)))"

definition lsm_compact :: "(int \<Rightarrow> string) \<Rightarrow> time_point \<Rightarrow> (lsm_state, unit result) op" where
  "lsm_compact stamp now = lsm_locked (\<lambda>(l, fs).
     if \<not> lsm_is_open l then Some (Error STORAGE_ERROR ''LSM tree is not open'', (l, fs))
     else compact_sstables stamp now (l, fs))"

definition need_compaction :: "lsm \<Rightarrow> bool" where
  "need_compaction l = (length (sstables l) > unat (max_sstables l))"

text \<open>One pass of \<open>background_work\<close>, after its wait: the two results are ignored.\<close>

definition background_pass ::
    "(int \<Rightarrow> string) \<Rightarrow> time_point \<Rightarrow> time_point \<Rightarrow> time_point \<Rightarrow> time_point \<Rightarrow> (lsm_state, unit) op" where
  "background_pass stamp now1 now2 now3 now4 s =
     (if stop_background (fst s) then Some ((), s)
      else lsm_locked (\<lambda>(l, fs).
        do { (_, (l, fs)) \<leftarrow>
               (if memtable_should_flush (lsm_memtable l)
                then flush_memtable stamp now1 now2 now3 (l, fs)
                else Some (Ok (), (l, fs)));
             (_, (l, fs)) \<leftarrow>
               (if need_compaction l then compact_sstables stamp now4 (l, fs)
                else Some (Ok (), (l, fs)));
             Some ((), (l, fs)) }) s)"

section \<open>Opening and closing\<close>

definition recover_entry :: "time_point \<Rightarrow> wal_entry \<Rightarrow> memtable \<Rightarrow> memtable" where
  "recover_entry now entry mt =
     (if we_type entry = WAL_PUT then snd (memtable_put (we_key entry) (we_data entry) mt)
      else if we_type entry = WAL_DELETE then snd (memtable_remove now (we_key entry) mt)
      else mt)"

definition recover_from_wal :: "time_point \<Rightarrow> (lsm_state, unit result) op" where
  "recover_from_wal now s =
     do { (replay_result, (l, fs)) \<leftarrow> on_wal (wal_replay_from now 0) s;
          case replay_result of
            Error st m \<Rightarrow> Some (Error st m, (l, fs))
          | Ok entries \<Rightarrow>
              Some (Ok (), (l\<lparr>lsm_memtable :=
                foldl (\<lambda>mt e. recover_entry now e mt) (lsm_memtable l) entries\<rparr>, fs)) }"

text \<open>\<open>path::extension\<close>: the file name from its last dot on, unless that is its first character.\<close>

definition path_extension :: "string \<Rightarrow> string" where
  "path_extension p =
     (let f = path_filename p;
          tail = takeWhile (\<lambda>c. c \<noteq> CHR ''.'') (rev f)
      in if length f \<le> Suc (length tail) then [] else CHR ''.'' # rev tail)"

definition files_in :: "string \<Rightarrow> fsys \<Rightarrow> string list" where
  "files_in dir fs = filter (\<lambda>p. parent_path p = dir) (map fst (fs_files fs))"

fun load_tables :: "fsys \<Rightarrow> string list \<Rightarrow> sstable list option" where
  "load_tables fs [] = Some []"
| "load_tables fs (p # ps) =
     do { (r, t) \<leftarrow> sst_load_index fs (SSTable_new p);
          ts \<leftarrow> load_tables fs ps;
          Some (if is_ok r then t # ts else ts) }"

definition load_sstables :: "(lsm_state, unit result) op" where
  "load_sstables = (\<lambda>(l, fs).
     if fs_denied fs (data_dir l)
     then Some (Error STORAGE_ERROR (''Failed to load SSTables: '' @ fs_what fs), (l, fs))
     else do {
       let sstable_files = sort (filter (\<lambda>p. path_extension p = ''.sst'') (files_in (data_dir l) fs));
       ts \<leftarrow> load_tables fs sstable_files;
       Some (Ok (), (l\<lparr>sstables := sstables l @ ts\<rparr>, fs)) })"

definition lsm_open :: "time_point \<Rightarrow> (lsm_state, unit result) op" where
  "lsm_open now = lsm_locked (\<lambda>(l, fs).
     if lsm_is_open l then Some (Ok (), (l, fs))
     else if \<not> create_directories (data_dir l) fs
     then Some (Error STORAGE_ERROR (''Failed to open LSM tree: '' @ fs_what fs), (l, fs))
     else do {
       (wal_result, s) \<leftarrow> on_wal wal_open (l, fs);
       if \<not> is_ok wal_result then Some (wal_result, s)
       else do {
         (recovery_result, s) \<leftarrow> recover_from_wal now s;
         if \<not> is_ok recovery_result then Some (recovery_result, s)
         else do {
           (load_result, (l, fs)) \<leftarrow> load_sstables s;
           if \<not> is_ok load_result then Some (load_result, (l, fs))
           else Some (Ok (), (l\<lparr>stop_background := False, background_thread := True,
                  lsm_is_open := True\<rparr>, fs)) } } })"

text \<open>
  \<open>close\<close> gives the lock up while it waits for the background thread; \<open>window\<close> is what other
  threads do to the state in that time.
\<close>

definition lsm_close ::
    "(int \<Rightarrow> string) \<Rightarrow> time_point \<Rightarrow> time_point \<Rightarrow> time_point \<Rightarrow> (lsm_state \<Rightarrow> lsm_state) \<Rightarrow>
     (lsm_state, unit result) op" where
  "lsm_close stamp now1 now2 now3 window = lsm_locked (\<lambda>(l, fs).
     if \<not> lsm_is_open l then Some (Ok (), (l, fs))
     else
       let l = l\<lparr>stop_background := True\<rparr>;
           (l, fs) = lsm_set_held True (window (lsm_set_held False (l, fs)));
           l = l\<lparr>background_thread := False\<rparr>
       in do {
         (_, s) \<leftarrow> (if memtable_size (lsm_memtable l) > 0
                     then flush_memtable stamp now1 now2 now3 (l, fs)
                     else Some (Ok (), (l, fs)));
         (_, (l, fs)) \<leftarrow> on_wal wal_close s;
         Some (Ok (), (l\<lparr>lsm_is_open := False\<rparr>, fs)) })"

text \<open>The destructor of the log runs after the body of the destructor of the engine.\<close>

definition LSMTreeEngine_delete ::
    "(int \<Rightarrow> string) \<Rightarrow> time_point \<Rightarrow> time_point \<Rightarrow> time_point \<Rightarrow> (lsm_state \<Rightarrow> lsm_state) \<Rightarrow>
     (lsm_state, unit) op" where
  "LSMTreeEngine_delete stamp now1 now2 now3 window s =
     do { (_, s) \<leftarrow> destructor (\<lambda>(l, fs). lsm_is_open l) (lsm_close stamp now1 now2 now3 window) s;
          on_wal WAL_delete s }"

section \<open>Backup, restore and statistics\<close>

text \<open>
  \<open>copy_file\<close>: \<open>None\<close> is the exception it throws. Without \<open>overwrite_existing\<close> an existing
  target is one of its reasons.
\<close>

definition copy_file :: "bool \<Rightarrow> string \<Rightarrow> string \<Rightarrow> fsys \<Rightarrow> fsys option" where
  "copy_file overwrite src dst fs =
     (if fs_denied fs src \<or> fs_denied fs dst \<or> (\<not> overwrite \<and> fs_content fs dst \<noteq> None)
      then None
      else map_option (\<lambda>c. fs_put dst c fs) (fs_content fs src))"

text \<open>Copies one file after the other; an exception leaves what was copied before it.\<close>

fun copy_files :: "bool \<Rightarrow> (string \<times> string) list \<Rightarrow> fsys \<Rightarrow> bool \<times> fsys" where
  "copy_files overwrite [] fs = (True, fs)"
| "copy_files overwrite ((src, dst) # ps) fs =
     (case copy_file overwrite src dst fs of
        None \<Rightarrow> (False, fs)
      | Some fs \<Rightarrow> copy_files overwrite ps fs)"

definition lsm_backup :: "string \<Rightarrow> (lsm_state, unit result) op" where
  "lsm_backup backup_path = lsm_locked (\<lambda>(l, fs).
     if \<not> lsm_is_open l then Some (Error STORAGE_ERROR ''LSM tree is not open'', (l, fs))
     else if \<not> create_directories backup_path fs
     then Some (Error STORAGE_ERROR (''Failed to backup: '' @ fs_what fs), (l, fs))
     else
       let (ok, fs) = copy_files True
             ((data_dir l @ ''/wal.log'', backup_path @ ''/wal.log'')
              # map (\<lambda>t. (sst_filename t, backup_path @ ''/'' @ path_filename (sst_filename t)))
                  (sstables l)) fs
       in if ok then Some (Ok (), (l, fs))
          else Some (Error STORAGE_ERROR (''Failed to backup: '' @ fs_what fs), (l, fs)))"

definition below :: "string \<Rightarrow> string \<Rightarrow> bool" where
  "below dir p = (p = dir \<or> take (Suc (length dir)) p = dir @ ''/'')"

definition remove_all :: "string \<Rightarrow> fsys \<Rightarrow> fsys" where
  "remove_all dir fs = fs\<lparr>fs_files := filter (\<lambda>(p, c). \<not> below dir p) (fs_files fs)\<rparr>"

text \<open>A backup directory that does not exist is one that cannot be opened.\<close>

definition lsm_restore :: "string \<Rightarrow> (lsm_state, unit result) op" where
  "lsm_restore backup_path = lsm_locked (\<lambda>(l, fs).
     if lsm_is_open l
     then Some (Error STORAGE_ERROR ''Cannot restore while LSM tree is open'', (l, fs))
     else if fs_denied fs (data_dir l)
     then Some (Error STORAGE_ERROR (''Failed to restore: '' @ fs_what fs), (l, fs))
     else
       let fs = remove_all (data_dir l) fs
       in if \<not> create_directories (data_dir l) fs \<or> fs_denied fs backup_path
          then Some (Error STORAGE_ERROR (''Failed to restore: '' @ fs_what fs), (l, fs))
          else
            let (ok, fs) = copy_files False
                  (map (\<lambda>p. (p, data_dir l @ ''/'' @ path_filename p)) (files_in backup_path fs)) fs
            in if ok then Some (Ok (), (l, fs))
               else Some (Error STORAGE_ERROR (''Failed to restore: '' @ fs_what fs), (l, fs)))"

definition lsm_size :: "(lsm_state, nat) op" where
  "lsm_size = lsm_locked (\<lambda>(l, fs).
     Some (memtable_size (lsm_memtable l)
           + (case immutable_memtable l of None \<Rightarrow> 0 | Some mt \<Rightarrow> memtable_size mt)
           + sum_list (map sst_size (sstables l)), (l, fs)))"

definition lsm_memory_usage :: "(lsm_state, u64) op" where
  "lsm_memory_usage = lsm_locked (\<lambda>(l, fs).
     Some (memtable_memory_usage (lsm_memtable l)
           + (case immutable_memtable l of None \<Rightarrow> 0 | Some mt \<Rightarrow> memtable_memory_usage mt),
           (l, fs)))"

text \<open>The ratio is a \<open>double\<close> in the code; its rounding is left out.\<close>

definition lsm_cache_hit_ratio :: "lsm \<Rightarrow> rat" where
  "lsm_cache_hit_ratio l =
     (if total_reads l > 0 then of_nat (unat (cache_hits l)) / of_nat (unat (total_reads l)) else 0)"

section \<open>The layers of an engine\<close>

text \<open>The contents an engine stands for, the newest layer first.\<close>

definition lsm_layers :: "lsm_state \<Rightarrow> (multi_level_key \<Rightarrow> data_entry option) list \<Rightarrow> bool" where
  "lsm_layers s ms \<longleftrightarrow>
     memtable_wf (lsm_memtable (fst s)) \<and>
     (\<forall>imm. immutable_memtable (fst s) = Some imm \<longrightarrow> memtable_wf imm) \<and>
     (\<exists>ts. list_all2 (sst_represents (snd s)) (rev (sstables (fst s))) ts \<and>
        ms = memtable_contents (lsm_memtable (fst s))
          # (case immutable_memtable (fst s) of None \<Rightarrow> [] | Some imm \<Rightarrow> [memtable_contents imm])
          @ ts)"

text \<open>An engine that is open, not in use, and whose log is not one of its tables.\<close>

definition lsm_running :: "lsm_state \<Rightarrow> bool" where
  "lsm_running s \<longleftrightarrow> lsm_is_open (fst s) \<and> \<not> lsm_held (fst s) \<and> wal_is_open (lsm_wal (fst s))
     \<and> \<not> wal_held (lsm_wal (fst s))
     \<and> wal_file (lsm_wal (fst s)) \<notin> sst_filename ` set (sstables (fst s))"

lemma read_tables_search:
  "table_layer.search (sst_read fs) key ts =
   map_option (\<lambda>(r, ts). (found r, ts)) (read_tables fs key ts)"
proof (induction ts)
  case (Cons t ts)
  show ?case
  proof (cases "sst_read fs key t")
    case (Some rt)
    then show ?thesis
      by (cases "read_tables fs key ts") (auto simp: Cons split: prod.splits)
  qed simp
qed simp

lemma read_tables_filenames:
  "read_tables fs key ts = Some (r, ts') \<Longrightarrow> map sst_filename ts' = map sst_filename ts"
  by (induction ts arbitrary: r ts')
    (auto simp: bind_eq_Some_conv dest!: sst_read_filename split: if_splits prod.splits)

lemma read_tables_represents:
  assumes "list_all2 (sst_represents fs) ts ms"
  shows "\<exists>r ts'. read_tables fs key ts = Some (r, ts') \<and> found r = first_live ms key
    \<and> list_all2 (sst_represents fs) ts' ms \<and> map sst_filename ts' = map sst_filename ts"
proof -
  from sst.search_first_live [OF assms, of key] obtain ts' where
    "table_layer.search (sst_read fs) key ts = Some (first_live ms key, ts')"
    and "list_all2 (sst_represents fs) ts' ms"
    by blast
  then show ?thesis
    by (auto simp: read_tables_search dest: read_tables_filenames)
qed

text \<open>What \<open>get\<close> answers: the first live entry, or \<open>NOT_FOUND\<close>.\<close>

definition lsm_answer :: "data_entry option \<Rightarrow> data_entry result" where
  "lsm_answer eo = (case eo of Some e \<Rightarrow> Ok e | None \<Rightarrow> Error NOT_FOUND ''Key not found'')"

lemma lsm_answer_simps [simp]:
  "lsm_answer (Some e) = Ok e" "lsm_answer None = Error NOT_FOUND ''Key not found''"
  by (simp_all add: lsm_answer_def)

lemmas lsm_op_simps = guarded_def lsm_mutex_held_def lsm_set_held_def

lemma get_layers:
  assumes "lsm_running s" and "lsm_layers s ms"
  shows "\<exists>s'. lsm_get key s = Some (lsm_answer (first_live ms key), s')
    \<and> lsm_running s' \<and> lsm_layers s' ms \<and> snd s' = snd s
    \<and> lsm_memtable (fst s') = lsm_memtable (fst s)"
proof -
  obtain l fs where s: "s = (l, fs)" by (cases s)
  let ?mt = "lsm_memtable l"
  from assms(2) s obtain ts where
    ts: "list_all2 (sst_represents fs) (rev (sstables l)) ts"
    and ms: "ms = memtable_contents ?mt
      # (case immutable_memtable l of None \<Rightarrow> [] | Some imm \<Rightarrow> [memtable_contents imm]) @ ts"
    and wf: "memtable_wf ?mt" "\<And>imm. immutable_memtable l = Some imm \<Longrightarrow> memtable_wf imm"
    by (auto simp: lsm_layers_def)
  from assms(1) s have run: "lsm_is_open l" "\<not> lsm_held l" "wal_is_open (lsm_wal l)"
    "\<not> wal_held (lsm_wal l)" "wal_file (lsm_wal l) \<notin> sst_filename ` set (sstables l)"
    by (simp_all add: lsm_running_def)
  from read_tables_represents [OF ts, of key] obtain r ts' where
    rt: "read_tables fs key (rev (sstables l)) = Some (r, ts')" "found r = first_live ts key"
      "list_all2 (sst_represents fs) ts' ts" "map sst_filename ts' = map sst_filename (rev (sstables l))"
    by blast
  have names: "sst_filename ` set ts' = sst_filename ` set (sstables l)"
    using arg_cong [OF rt(4), of set] by simp
  show ?thesis
  proof (cases "memtable_get key ?mt")
    case (Ok e)
    then have "live (memtable_contents ?mt key) = Some e"
      using found_memtable_get [of key ?mt] by simp
    with Ok s run ts wf ms show ?thesis
      by (simp add: lsm_get_def lsm_op_simps get_from_memtable_def lsm_running_def
          lsm_layers_def Let_def exI [of _ ts])
  next
    case (Error st m)
    then have mt: "live (memtable_contents ?mt key) = None"
      using found_memtable_get [of key ?mt] by simp
    show ?thesis
    proof (cases "\<exists>e imm. immutable_memtable l = Some imm \<and> memtable_get key imm = Ok e")
      case True
      then obtain e imm where imm: "immutable_memtable l = Some imm" "memtable_get key imm = Ok e"
        by blast
      then have "live (memtable_contents imm key) = Some e"
        using found_memtable_get [of key imm] by simp
      with Error imm mt s run ts wf ms show ?thesis
        by (simp add: lsm_get_def lsm_op_simps get_from_memtable_def lsm_running_def
            lsm_layers_def Let_def exI [of _ ts])
    next
      case False
      have "first_live ms key = first_live ts key"
      proof (cases "immutable_memtable l")
        case (Some imm)
        with False have "found (memtable_get key imm) = None"
          by (cases "memtable_get key imm") auto
        with Some mt ms show ?thesis by simp
      qed (use mt ms in simp)
      moreover have "(if is_ok r then r else Error NOT_FOUND ''Key not found'')
          = lsm_answer (first_live ts key)"
        using rt(2) by (cases r) (auto simp flip: rt(2))
      moreover have "lsm_get key s = Some (if is_ok r then r else Error NOT_FOUND ''Key not found'',
          (l\<lparr>total_reads := total_reads l + 1, sstables := rev ts'\<rparr>, fs))"
        using Error False s run rt(1)
        by (auto simp: lsm_get_def lsm_op_simps get_from_memtable_def get_from_sstables_def
            Let_def split: option.splits result.splits)
      moreover have "lsm_running (l\<lparr>total_reads := total_reads l + 1, sstables := rev ts'\<rparr>, fs)"
        using run names by (simp add: lsm_running_def)
      moreover have "lsm_layers (l\<lparr>total_reads := total_reads l + 1, sstables := rev ts'\<rparr>, fs) ms"
        using rt(3) ms wf by (auto simp: lsm_layers_def)
      ultimately show ?thesis using s by simp
    qed
  qed
qed

text \<open>The answer of a \<open>get\<close>, without the state it leaves.\<close>

definition lsm_reads :: "multi_level_key \<Rightarrow> lsm_state \<Rightarrow> data_entry result option" where
  "lsm_reads key s = map_option fst (lsm_get key s)"

lemma reads_layers:
  "lsm_running s \<Longrightarrow> lsm_layers s ms \<Longrightarrow> lsm_reads key s = Some (lsm_answer (first_live ms key))"
  using get_layers [of s ms key] by (auto simp: lsm_reads_def)

lemma get_closed:
  "\<not> lsm_is_open (fst s) \<Longrightarrow> \<not> lsm_held (fst s) \<Longrightarrow>
   lsm_get key s = Some (Error STORAGE_ERROR ''LSM tree is not open'', s)"
  by (cases s) (auto simp: lsm_get_def lsm_op_simps)

section \<open>Writes\<close>

text \<open>An append to the log changes no table.\<close>

definition wal_usable :: "lsm \<Rightarrow> bool" where
  "wal_usable l \<longleftrightarrow> wal_is_open (lsm_wal l) \<and> \<not> wal_held (lsm_wal l)
     \<and> wal_file (lsm_wal l) \<notin> sst_filename ` set (sstables l)"

lemma lsm_running_iff:
  "lsm_running (l, fs) \<longleftrightarrow> lsm_is_open l \<and> \<not> lsm_held l \<and> wal_usable l"
  by (auto simp: lsm_running_def wal_usable_def)

lemma wal_usable_fields [simp]:
  "wal_usable (l\<lparr>lsm_memtable := mt\<rparr>) = wal_usable l"
  "wal_usable (l\<lparr>immutable_memtable := im\<rparr>) = wal_usable l"
  "wal_usable (l\<lparr>lsm_held := b\<rparr>) = wal_usable l"
  "wal_usable (l\<lparr>total_reads := n\<rparr>) = wal_usable l"
  "wal_usable (l\<lparr>cache_hits := n\<rparr>) = wal_usable l"
  by (simp_all add: wal_usable_def)

lemma tables_frame:
  assumes "\<forall>q. q \<noteq> p \<longrightarrow> fs_content fs' q = fs_content fs q" and "fs_denied fs' = fs_denied fs"
    and "p \<notin> sst_filename ` set ts"
  shows "list_all2 (sst_represents fs') ts ms = list_all2 (sst_represents fs) ts ms"
proof (rule list.rel_cong [OF refl refl])
  fix t m assume "t \<in> set ts"
  with assms(3) have "sst_filename t \<noteq> p" by auto
  with assms show "sst_represents fs' t m = sst_represents fs t m"
    by (intro sst_represents_cong) auto
qed

lemma on_wal_append:
  assumes "wal_usable l"
  shows "\<exists>w fs'. on_wal (wal_append e) (l, fs) = Some (Ok (), (l\<lparr>lsm_wal := w\<rparr>, fs'))
    \<and> wal_usable (l\<lparr>lsm_wal := w\<rparr>) \<and> wal_file w = wal_file (lsm_wal l)
    \<and> fs_denied fs' = fs_denied fs
    \<and> (\<forall>q. q \<noteq> wal_file (lsm_wal l) \<longrightarrow> fs_content fs' q = fs_content fs q)
    \<and> (\<forall>ms. list_all2 (sst_represents fs') (rev (sstables l)) ms
          = list_all2 (sst_represents fs) (rev (sstables l)) ms)"
proof -
  from assms have "wal_is_open (lsm_wal l)" "\<not> wal_held (lsm_wal l)"
    by (simp_all add: wal_usable_def)
  from wal_append_open [OF this, of e fs] obtain w fs' where
    w: "wal_append e (lsm_wal l, fs) = Some (Ok (), (w, fs'))" "wal_is_open w" "\<not> wal_held w"
      "wal_file w = wal_file (lsm_wal l)" "fs_denied fs' = fs_denied fs"
      "\<forall>q. q \<noteq> wal_file (lsm_wal l) \<longrightarrow> fs_content fs' q = fs_content fs q"
    by blast
  have "wal_file (lsm_wal l) \<notin> sst_filename ` set (rev (sstables l))"
    using assms by (simp add: wal_usable_def)
  from tables_frame [OF w(6,5) this] w assms show ?thesis
    by (intro exI [of _ w] exI [of _ fs']) (simp add: on_wal_def wal_usable_def)
qed

definition key_fits :: "multi_level_key \<Rightarrow> data_entry \<Rightarrow> bool" where
  "key_fits key entry \<longleftrightarrow> length (key_to_string key) \<le> MAX_KEY_SIZE
     \<and> length (entry_value entry) \<le> MAX_VALUE_SIZE"

lemma memtable_put_ok_iff: "is_ok (fst (memtable_put key entry mt)) \<longleftrightarrow> key_fits key entry"
  by (auto simp: memtable_put_def key_fits_def Let_def)

lemma put_layers:
  assumes "lsm_running s" and "lsm_layers s (m # ms)"
  shows "\<exists>r s'. lsm_put key entry s = Some (r, s') \<and> lsm_running s'
    \<and> (is_ok r \<longleftrightarrow> key_fits key entry)
    \<and> lsm_layers s' ((if is_ok r then m(key \<mapsto> entry) else m) # ms)"
proof -
  obtain l fs where s: "s = (l, fs)" by (cases s)
  let ?mt = "lsm_memtable l"
  from assms(1) s have run: "lsm_is_open l" "\<not> lsm_held l" "wal_usable l"
    by (simp_all add: lsm_running_iff)
  have usable: "wal_usable (l\<lparr>lsm_held := True\<rparr>)" using run by simp
  from on_wal_append [OF usable, of "WALEntry WAL_PUT key entry 0" fs] obtain w fs' where
    w: "on_wal (wal_append (WALEntry WAL_PUT key entry 0)) (l\<lparr>lsm_held := True\<rparr>, fs)
        = Some (Ok (), (l\<lparr>lsm_held := True, lsm_wal := w\<rparr>, fs'))"
      "wal_usable (l\<lparr>lsm_held := True, lsm_wal := w\<rparr>)"
      "\<forall>ms. list_all2 (sst_represents fs') (rev (sstables l)) ms
          = list_all2 (sst_represents fs) (rev (sstables l)) ms"
    by auto
  obtain r mt where p: "memtable_put key entry ?mt = (r, mt)" by fastforce
  have ok: "is_ok r \<longleftrightarrow> key_fits key entry" using memtable_put_ok_iff [of key entry ?mt] p by simp
  have "lsm_put key entry s
      = Some (r, (l\<lparr>lsm_held := False, lsm_wal := w, lsm_memtable := mt\<rparr>, fs'))"
    using s run w(1) p by (simp add: lsm_put_def lsm_op_simps)
  moreover have "lsm_running (l\<lparr>lsm_held := False, lsm_wal := w, lsm_memtable := mt\<rparr>, fs')"
    using run w(2) by (simp add: lsm_running_iff wal_usable_def)
  moreover have "memtable_contents mt = (if is_ok r then m(key \<mapsto> entry) else m) \<and> memtable_wf mt"
    using assms(2) s p memtable_put_contents [OF p] memtable_put_fail [OF p] memtable_wf_put [OF _ p]
    by (auto simp: lsm_layers_def)
  then have "lsm_layers (l\<lparr>lsm_held := False, lsm_wal := w, lsm_memtable := mt\<rparr>, fs')
      ((if is_ok r then m(key \<mapsto> entry) else m) # ms)"
    using assms(2) s w(3) by (auto simp: lsm_layers_def)
  ultimately show ?thesis using ok by blast
qed

lemma remove_layers:
  assumes "lsm_running s" and "lsm_layers s (m # ms)"
  shows "\<exists>s' e. lsm_remove now key s = Some (Ok (), s') \<and> lsm_running s' \<and> deleted e
    \<and> lsm_layers s' (m(key \<mapsto> e) # ms)"
proof -
  obtain l fs where s: "s = (l, fs)" by (cases s)
  let ?mt = "lsm_memtable l"
  let ?d = "(DataEntry_default now)\<lparr>deleted := True, timestamp := millis_of now\<rparr>"
  from assms(1) s have run: "lsm_is_open l" "\<not> lsm_held l" "wal_usable l"
    by (simp_all add: lsm_running_iff)
  have usable: "wal_usable (l\<lparr>lsm_held := True\<rparr>)" using run by simp
  from on_wal_append [OF usable, of "WALEntry WAL_DELETE key ?d 0" fs] obtain w fs' where
    w: "on_wal (wal_append (WALEntry WAL_DELETE key ?d 0)) (l\<lparr>lsm_held := True\<rparr>, fs)
        = Some (Ok (), (l\<lparr>lsm_held := True, lsm_wal := w\<rparr>, fs'))"
      "wal_usable (l\<lparr>lsm_held := True, lsm_wal := w\<rparr>)"
      "\<forall>ms. list_all2 (sst_represents fs') (rev (sstables l)) ms
          = list_all2 (sst_represents fs) (rev (sstables l)) ms"
    by auto
  obtain r mt where p: "memtable_remove now key ?mt = (r, mt)" by fastforce
  from memtable_remove_contents [OF p] obtain e where
    e: "is_ok r" "memtable_contents mt = (memtable_contents ?mt)(key \<mapsto> e)" "deleted e" by blast
  from e(1) have r: "r = Ok ()" by (cases r) auto
  have "lsm_remove now key s
      = Some (Ok (), (l\<lparr>lsm_held := False, lsm_wal := w, lsm_memtable := mt\<rparr>, fs'))"
    using s run w(1) p r by (simp add: lsm_remove_def lsm_op_simps Let_def)
  moreover have "lsm_running (l\<lparr>lsm_held := False, lsm_wal := w, lsm_memtable := mt\<rparr>, fs')"
    using run w(2) by (simp add: lsm_running_iff wal_usable_def)
  moreover have "lsm_layers (l\<lparr>lsm_held := False, lsm_wal := w, lsm_memtable := mt\<rparr>, fs')
      (m(key \<mapsto> e) # ms)"
    using assms(2) s w(3) e memtable_wf_remove [OF _ p] by (auto simp: lsm_layers_def)
  ultimately show ?thesis using e(3) by blast
qed

section \<open>Flushing\<close>

lemma write_table_tables:
  assumes "sst_fits data" and "name \<notin> sst_filename ` set (sstables l)"
    and "list_all2 (sst_represents fs) (rev (sstables l)) ms"
  shows "\<exists>r ts' fs'. write_table name data (l, fs) = (r, (l\<lparr>sstables := ts'\<rparr>, fs'))
    \<and> (if is_ok r
       then list_all2 (sst_represents fs') (rev ts') (map_of data # ms)
         \<and> sst_filename ` set ts' = insert name (sst_filename ` set (sstables l))
       else ts' = sstables l \<and> fs' = fs)"
proof -
  obtain r t fs' where w: "sst_write data (SSTable_new name, fs) = (r, t, fs')"
    by (metis surj_pair)
  show ?thesis
  proof (cases "is_ok r")
    case True
    from sst_write_ok [OF assms(1) w True] have
      t: "sst_filename t = name" "sst_index t = sst_index_of data" "sst_stored fs' name data"
        "\<forall>q. q \<noteq> name \<longrightarrow> fs_content fs' q = fs_content fs q" "fs_denied fs' = fs_denied fs"
      by (simp_all add: SSTable_new_def)
    have "sst_represents fs' t (map_of data)" using t by (auto simp: sst_represents_def)
    moreover have "list_all2 (sst_represents fs') (rev (sstables l)) ms"
      using tables_frame [OF t(4,5), of "rev (sstables l)" ms] assms(2,3) by simp
    ultimately show ?thesis
      using w t(1) True
      by (intro exI [of _ r] exI [of _ "sstables l @ [t]"] exI [of _ fs'])
        (auto simp: write_table_def)
  next
    case False
    with sst_write_failed [OF w] w show ?thesis
      by (intro exI [of _ r] exI [of _ "sstables l"] exI [of _ fs]) (simp add: write_table_def)
  qed
qed

lemma generate_sstable_filename_dir:
  "data_dir l' = data_dir l \<Longrightarrow>
   generate_sstable_filename stamp now l' = generate_sstable_filename stamp now l"
  by (simp add: generate_sstable_filename_def)

text \<open>The names a flush uses are new: not those of a table or of the log, and not the same.\<close>

definition fresh_names :: "(int \<Rightarrow> string) \<Rightarrow> time_point \<Rightarrow> time_point \<Rightarrow> lsm \<Rightarrow> bool" where
  "fresh_names stamp now1 now2 l \<longleftrightarrow>
     (let n1 = generate_sstable_filename stamp now1 l; n2 = generate_sstable_filename stamp now2 l
      in n2 \<notin> insert (wal_file (lsm_wal l)) (sst_filename ` set (sstables l))
         \<and> (immutable_memtable l \<noteq> None \<longrightarrow>
              n1 \<noteq> n2 \<and> n1 \<notin> insert (wal_file (lsm_wal l)) (sst_filename ` set (sstables l))))"

text \<open>The memtables fit the format of the files they are written to.\<close>

definition tables_fit :: "lsm \<Rightarrow> bool" where
  "tables_fit l \<longleftrightarrow> (mt_data (lsm_memtable l) \<noteq> [] \<longrightarrow> sst_fits (mt_data (lsm_memtable l)))
     \<and> (\<forall>imm. immutable_memtable l = Some imm \<longrightarrow> sst_fits (mt_data imm))"

abbreviation older_contents :: "lsm \<Rightarrow> (multi_level_key \<Rightarrow> data_entry option) list" where
  "older_contents l \<equiv> (case immutable_memtable l of None \<Rightarrow> [] | Some imm \<Rightarrow> [memtable_contents imm])"

lemma flush_older_tables:
  assumes "tables_fit l" and "fresh_names stamp now1 now2 l"
    and "list_all2 (sst_represents fs) (rev (sstables l)) ts" and "wal_usable l"
  shows "\<exists>r ts' fs'. flush_older stamp now1 (l, fs) = (r, (l\<lparr>sstables := ts'\<rparr>, fs'))
    \<and> (if is_ok r
       then list_all2 (sst_represents fs') (rev ts') (older_contents l @ ts)
         \<and> generate_sstable_filename stamp now2 l \<notin> sst_filename ` set ts'
         \<and> wal_usable (l\<lparr>sstables := ts'\<rparr>)
       else ts' = sstables l \<and> fs' = fs)"
proof (cases "immutable_memtable l")
  case None
  with assms show ?thesis
    by (intro exI [of _ "Ok ()"] exI [of _ "sstables l"] exI [of _ fs])
      (simp add: flush_older_def fresh_names_def Let_def)
next
  case (Some imm)
  let ?n = "generate_sstable_filename stamp now1 l"
  have "sst_fits (mt_data imm)" and "?n \<notin> sst_filename ` set (sstables l)"
    using assms(1,2) Some by (auto simp: tables_fit_def fresh_names_def Let_def)
  from write_table_tables [OF this assms(3)] obtain r ts' fs' where
    w: "write_table ?n (mt_data imm) (l, fs) = (r, (l\<lparr>sstables := ts'\<rparr>, fs'))"
      "if is_ok r then list_all2 (sst_represents fs') (rev ts') (map_of (mt_data imm) # ts)
         \<and> sst_filename ` set ts' = insert ?n (sst_filename ` set (sstables l))
       else ts' = sstables l \<and> fs' = fs"
    by blast
  with Some assms(2,4) show ?thesis
    by (intro exI [of _ r] exI [of _ ts'] exI [of _ fs'])
      (auto simp: flush_older_def memtable_get_all_data_def memtable_contents_def fresh_names_def
        Let_def wal_usable_def)
qed

lemma memtable_contents_new [simp]: "memtable_contents MemTable_new = (\<lambda>k. None)"
  by (simp add: memtable_contents_def MemTable_new_def)

lemma flush_memtable_layers:
  assumes "wal_usable l" and "lsm_layers (l, fs) ms" and "tables_fit l"
    and "fresh_names stamp now1 now2 l"
  shows "\<exists>r l' fs' ms'. flush_memtable stamp now1 now2 now3 (l, fs) = Some (r, (l', fs'))
    \<and> lsm_layers (l', fs') ms' \<and> (ms' = ms \<or> ms' = (\<lambda>k. None) # ms) \<and> wal_usable l'
    \<and> lsm_is_open l' = lsm_is_open l \<and> lsm_held l' = lsm_held l"
proof (cases "memtable_size (lsm_memtable l) = 0")
  case True
  with assms show ?thesis
    by (intro exI [of _ "Ok ()"] exI [of _ l] exI [of _ fs] exI [of _ ms])
      (simp add: flush_memtable_def memtable_get_all_data_def Let_def)
next
  case False
  let ?mt = "lsm_memtable l"
  from assms(2) obtain ts where
    ts: "list_all2 (sst_represents fs) (rev (sstables l)) ts"
    and ms: "ms = memtable_contents ?mt # older_contents l @ ts"
    and wf: "memtable_wf ?mt" "\<And>imm. immutable_memtable l = Some imm \<Longrightarrow> memtable_wf imm"
    by (auto simp: lsm_layers_def)
  have fits: "sst_fits (mt_data ?mt)"
    using False assms(3) by (simp add: tables_fit_def memtable_size_def)
  from flush_older_tables [OF assms(3,4) ts assms(1)] obtain r ts1 fs1 where
    o: "flush_older stamp now1 (l, fs) = (r, (l\<lparr>sstables := ts1\<rparr>, fs1))"
    and o_res: "if is_ok r
       then list_all2 (sst_represents fs1) (rev ts1) (older_contents l @ ts)
         \<and> generate_sstable_filename stamp now2 l \<notin> sst_filename ` set ts1
         \<and> wal_usable (l\<lparr>sstables := ts1\<rparr>)
       else ts1 = sstables l \<and> fs1 = fs"
    by blast
  have o_ok: "is_ok r \<Longrightarrow> list_all2 (sst_represents fs1) (rev ts1) (older_contents l @ ts)
         \<and> generate_sstable_filename stamp now2 l \<notin> sst_filename ` set ts1
         \<and> wal_usable (l\<lparr>sstables := ts1\<rparr>)"
    and o_fail: "\<not> is_ok r \<Longrightarrow> ts1 = sstables l \<and> fs1 = fs"
    using o_res by simp_all
  show ?thesis
  proof (cases "is_ok r")
    case no: False
    with o o_fail False assms show ?thesis
      by (intro exI [of _ r] exI [of _ l] exI [of _ fs] exI [of _ ms])
        (simp add: flush_memtable_def memtable_get_all_data_def Let_def)
  next
    case ok: True
    let ?n2 = "generate_sstable_filename stamp now2 l"
    let ?l1 = "l\<lparr>sstables := ts1, immutable_memtable := Some ?mt, lsm_memtable := MemTable_new\<rparr>"
    have n2: "generate_sstable_filename stamp now2 ?l1 = ?n2"
      by (rule generate_sstable_filename_dir) simp
    from o_ok [OF ok] have t1: "list_all2 (sst_represents fs1) (rev (sstables ?l1)) (older_contents l @ ts)"
      and fresh: "?n2 \<notin> sst_filename ` set (sstables ?l1)" and u1: "wal_usable (l\<lparr>sstables := ts1\<rparr>)"
      by simp_all
    from write_table_tables [OF fits fresh t1] obtain r2 ts2 fs2 where
      w: "write_table ?n2 (mt_data ?mt) (?l1, fs1) = (r2, (?l1\<lparr>sstables := ts2\<rparr>, fs2))"
      and w_res: "if is_ok r2
        then list_all2 (sst_represents fs2) (rev ts2) (map_of (mt_data ?mt) # older_contents l @ ts)
          \<and> sst_filename ` set ts2 = insert ?n2 (sst_filename ` set (sstables ?l1))
        else ts2 = sstables ?l1 \<and> fs2 = fs1"
      by blast
    have w_ok: "is_ok r2 \<Longrightarrow>
          list_all2 (sst_represents fs2) (rev ts2) (memtable_contents ?mt # older_contents l @ ts)
          \<and> sst_filename ` set ts2 = insert ?n2 (sst_filename ` set ts1)"
      and w_fail: "\<not> is_ok r2 \<Longrightarrow> ts2 = ts1 \<and> fs2 = fs1"
      using w_res by (simp_all add: memtable_contents_def)
    let ?ms = "(\<lambda>k. None) # ms"
    show ?thesis
    proof (cases "is_ok r2")
      case no: False
      have "flush_memtable stamp now1 now2 now3 (l, fs) = Some (r2, (?l1, fs1))"
        using False o ok w no w_fail [OF no] n2 by (simp add: flush_memtable_def memtable_get_all_data_def Let_def)
      moreover have "lsm_layers (?l1, fs1) ?ms"
        using t1 wf(1) by (auto simp: lsm_layers_def ms)
      moreover have "wal_usable ?l1" using u1 by (simp add: wal_usable_def)
      ultimately show ?thesis
        by (intro exI [of _ r2] exI [of _ ?l1] exI [of _ fs1] exI [of _ ?ms]) simp
    next
      case yes: True
      let ?l2 = "?l1\<lparr>sstables := ts2, immutable_memtable := None\<rparr>"
      have "?n2 \<noteq> wal_file (lsm_wal l)" using assms(4) by (simp add: fresh_names_def Let_def)
      then have "wal_usable ?l2" using u1 w_ok [OF yes] by (simp add: wal_usable_def)
      from on_wal_append [OF this, of "WALEntry WAL_CHECKPOINT (MultiLevelKey [] [])
          (DataEntry_default now3) 0" fs2] obtain w3 fs3 where
        c: "on_wal (wal_append (WALEntry WAL_CHECKPOINT (MultiLevelKey [] [])
              (DataEntry_default now3) 0)) (?l2, fs2) = Some (Ok (), (?l2\<lparr>lsm_wal := w3\<rparr>, fs3))"
          "wal_usable (?l2\<lparr>lsm_wal := w3\<rparr>)"
          "list_all2 (sst_represents fs3) (rev ts2) (memtable_contents ?mt # older_contents l @ ts)"
        using w_ok [OF yes] by auto
      have "flush_memtable stamp now1 now2 now3 (l, fs) = Some (Ok (), (?l2\<lparr>lsm_wal := w3\<rparr>, fs3))"
        using False o ok w yes n2 c(1) by (simp add: flush_memtable_def memtable_get_all_data_def Let_def)
      moreover have "lsm_layers (?l2\<lparr>lsm_wal := w3\<rparr>, fs3) ?ms"
        using c(3) by (auto simp: lsm_layers_def ms)
      ultimately show ?thesis
        using c(2) by (intro exI [of _ "Ok ()"] exI [of _ "?l2\<lparr>lsm_wal := w3\<rparr>"]
            exI [of _ fs3] exI [of _ ?ms]) simp
    qed
  qed
qed

lemma flush_layers:
  assumes "lsm_running s" and "lsm_layers s ms" and "tables_fit (fst s)"
    and "fresh_names stamp now1 now2 (fst s)"
  shows "\<exists>r s' ms'. lsm_flush stamp now1 now2 now3 s = Some (r, s') \<and> lsm_running s'
    \<and> lsm_layers s' ms' \<and> (ms' = ms \<or> ms' = (\<lambda>k. None) # ms)"
proof -
  obtain l fs where s: "s = (l, fs)" by (cases s)
  let ?l = "l\<lparr>lsm_held := True\<rparr>"
  from assms s have run: "lsm_is_open l" "\<not> lsm_held l" "wal_usable l"
    by (simp_all add: lsm_running_iff)
  have fr: "fresh_names stamp now1 now2 ?l"
    using assms(4) s generate_sstable_filename_dir [of ?l l stamp]
    by (simp add: fresh_names_def Let_def)
  from assms s run have "wal_usable ?l" "lsm_layers (?l, fs) ms" "tables_fit ?l"
    by (simp_all add: lsm_layers_def tables_fit_def)
  from flush_memtable_layers [OF this fr, of now3] obtain r l' fs' ms' where
    f: "flush_memtable stamp now1 now2 now3 (?l, fs) = Some (r, (l', fs'))"
      "lsm_layers (l', fs') ms'" "ms' = ms \<or> ms' = (\<lambda>k. None) # ms" "wal_usable l'"
      "lsm_is_open l'" "lsm_held l'"
    using run(1) by auto
  have same: "lsm_wal l'\<lparr>wal_held := False\<rparr> = lsm_wal l'" using f(4) by (simp add: wal_usable_def)
  have sync: "on_wal wal_sync (l', fs') = Some (Ok (), (l', fs'))"
    using f(4) same
    by (simp add: on_wal_def wal_sync_def guarded_def wal_mutex_held_def wal_set_held_def wal_usable_def)
  have "\<exists>r. lsm_flush stamp now1 now2 now3 s = Some (r, (l'\<lparr>lsm_held := False\<rparr>, fs'))"
    using s run f(1) sync by (cases "is_ok r") (simp_all add: lsm_flush_def lsm_op_simps)
  moreover have "lsm_running (l'\<lparr>lsm_held := False\<rparr>, fs')"
    using f(4,5) by (simp add: lsm_running_iff)
  moreover have "lsm_layers (l'\<lparr>lsm_held := False\<rparr>, fs') ms'"
    using f(2) by (simp add: lsm_layers_def)
  ultimately show ?thesis using f(3) by blast
qed

section \<open>Compaction\<close>

lemma compact_sstables_two:
  "sstables l = t1 # t2 # rest \<Longrightarrow> compact_sstables stamp now (l, fs) =
     Some (Error INVALID_ARGUMENT ''Cannot write empty data'', (l\<lparr>sstables := rest\<rparr>, fs))"
  by (simp add: compact_sstables_def sst_write_def)

lemma compact_layers:
  assumes "lsm_running s" and "lsm_layers s ms" and "2 \<le> length (sstables (fst s))"
  shows "\<exists>s'. lsm_compact stamp now s = Some (Error INVALID_ARGUMENT ''Cannot write empty data'', s')
    \<and> lsm_running s' \<and> lsm_layers s' (take (length ms - 2) ms) \<and> snd s' = snd s"
proof -
  obtain l fs where s: "s = (l, fs)" by (cases s)
  from assms(3) s obtain t1 t2 rest where t: "sstables l = t1 # t2 # rest"
    by (cases "sstables l"; cases "tl (sstables l)") auto
  from assms s have run: "lsm_is_open l" "\<not> lsm_held l" "wal_usable l"
    by (simp_all add: lsm_running_iff)
  from assms(2) s t obtain ts where
    ts: "list_all2 (sst_represents fs) (rev rest @ [t2, t1]) ts"
    and ms: "ms = memtable_contents (lsm_memtable l) # older_contents l @ ts"
    by (auto simp: lsm_layers_def)
  from ts obtain ts' m2 m1 where ts': "list_all2 (sst_represents fs) (rev rest) ts'"
    "ts = ts' @ [m2, m1]"
    by (auto simp: list_all2_append1 list_all2_Cons1)
  let ?l = "l\<lparr>lsm_held := False, sstables := rest\<rparr>"
  have "lsm_compact stamp now s
      = Some (Error INVALID_ARGUMENT ''Cannot write empty data'', (?l, fs))"
    using s run t by (simp add: lsm_compact_def lsm_op_simps compact_sstables_two)
  moreover have "lsm_running (?l, fs)"
    using run t by (auto simp: lsm_running_iff wal_usable_def)
  moreover have "lsm_layers (?l, fs) (take (length ms - 2) ms)"
    using assms(2) s ts' by (auto simp: lsm_layers_def ms)
  ultimately show ?thesis using s by auto
qed

section \<open>Conditional writes\<close>

lemma conditional_writes_raise:
  assumes "lsm_is_open (fst s)" and "\<not> lsm_held (fst s)"
  shows "lsm_put_if_version_match key entry v s = Some (Raises, s)"
    and "lsm_remove_if_version_match now key v s = Some (Raises, s)"
  using assms
  by (cases s; simp add: lsm_put_if_version_match_def lsm_remove_if_version_match_def lsm_op_simps
      and_then_def relock_def)+

section \<open>The log after an engine has been opened\<close>

lemma wal_replay_ok_fails:
  assumes "wal_replay_from now seq s = Some (Ok es, s')"
  shows "st_fail (wal_stream (fst s')) \<and> snd s' = snd s \<and> wal_file (fst s') = wal_file (fst s)
    \<and> wal_is_open (fst s') \<and> \<not> wal_held (fst s')"
proof -
  obtain w fs where s: "s = (w, fs)" by (cases s)
  let ?st = "stream_seekg 0 (wal_stream w)"
  obtain r st where l: "replay_loop now seq (file_bytes (wal_file w) fs) ?st [] = (r, st)"
    by fastforce
  have o: "wal_is_open w" "r = Ok es"
    and s': "s' = (w\<lparr>wal_stream := st, wal_held := False\<rparr>, fs)"
    using assms s l by (auto simp: wal_replay_from_def guarded_def wal_mutex_held_def
        wal_set_held_def bind_eq_Some_conv split: if_splits)
  have "st_fail st"
  proof (cases "st_good ?st")
    case True
    with l o(2) show ?thesis using replay_ok_fails by blast
  next
    case False
    then have "st_fail (wal_stream w)"
      by (auto simp: stream_seekg_def st_good_def Let_def split: if_splits)
    moreover have "st = ?st" using l False by (simp add: replay_loop.simps [of now seq])
    ultimately show ?thesis by (simp add: stream_seekg_def Let_def)
  qed
  with o s s' show ?thesis by simp
qed

lemma load_sstables_frame:
  "load_sstables (l, fs) = Some (r, (l', fs')) \<Longrightarrow>
   fs' = fs \<and> (\<exists>ts. l' = l\<lparr>sstables := ts\<rparr>)"
  by (auto simp: load_sstables_def bind_eq_Some_conv split: if_splits)
    (metis lsm.surjective lsm.update_convs(4))

lemma open_fails_log:
  assumes "lsm_open now s = Some (Ok (), s')" and "\<not> lsm_is_open (fst s)"
  shows "lsm_is_open (fst s') \<and> \<not> lsm_held (fst s') \<and> wal_is_open (lsm_wal (fst s'))
    \<and> \<not> wal_held (lsm_wal (fst s')) \<and> st_fail (wal_stream (lsm_wal (fst s')))"
proof -
  obtain l fs where s: "s = (l, fs)" by (cases s)
  let ?l = "l\<lparr>lsm_held := True\<rparr>"
  obtain u where u: "(if \<not> create_directories (data_dir ?l) fs
      then Some (Error STORAGE_ERROR (''Failed to open LSM tree: '' @ fs_what fs), (?l, fs))
      else do {
        (r1, s1) \<leftarrow> on_wal wal_open (?l, fs);
        if \<not> is_ok r1 then Some (r1, s1)
        else do {
          (r2, s2) \<leftarrow> recover_from_wal now s1;
          if \<not> is_ok r2 then Some (r2, s2)
          else do {
            (r3, (l, fs)) \<leftarrow> load_sstables s2;
            if \<not> is_ok r3 then Some (r3, (l, fs))
            else Some (Ok (), (l\<lparr>stop_background := False, background_thread := True,
                   lsm_is_open := True\<rparr>, fs)) } } }) = Some (Ok (), u)"
    and u': "s' = lsm_set_held False u"
    using assms unfolding lsm_open_def s
    by (elim guarded_SomeE) (simp add: lsm_set_held_def)
  obtain r1 s1 where o: "on_wal wal_open (?l, fs) = Some (r1, s1)"
    using u by (cases "on_wal wal_open (?l, fs)") (simp_all split: if_split_asm prod.split_asm)
  have ok1: "is_ok r1" using u o by (cases r1) (simp_all split: if_split_asm)
  obtain r2 s2 where r2: "recover_from_wal now s1 = Some (r2, s2)"
    using u o ok1 by (cases "recover_from_wal now s1") (simp_all split: if_split_asm prod.split_asm)
  have ok2: "is_ok r2" using u o ok1 r2 by (cases r2) (simp_all split: if_split_asm)
  obtain r3 l3 fs3 where r3: "load_sstables s2 = Some (r3, (l3, fs3))"
    using u o ok1 r2 ok2 by (cases "load_sstables s2") (simp_all split: if_split_asm prod.split_asm)
  have ok3: "is_ok r3" using u o ok1 r2 ok2 r3 by (cases r3) (simp_all split: if_split_asm)
  have s': "u = (l3\<lparr>stop_background := False, background_thread := True,
      lsm_is_open := True\<rparr>, fs3)"
    using u o ok1 r2 ok2 r3 ok3 by (simp split: if_split_asm)
  obtain l2 fs2 where s2: "s2 = (l2, fs2)" by (cases s2)
  have r: "recover_from_wal now s1 = Some (Ok (), (l2, fs2))"
    and t: "load_sstables (l2, fs2) = Some (Ok (), (l3, fs3))"
    using r2 r3 s2 ok2 ok3 by (auto elim!: is_okE)
  from load_sstables_frame [OF t] have w: "lsm_wal l3 = lsm_wal l2" by auto
  from r obtain rr w2 fs2' where rr: "wal_replay_from now 0 (lsm_wal (fst s1), snd s1) = Some (rr, (w2, fs2'))"
    by (auto simp: recover_from_wal_def on_wal_def bind_eq_Some_conv split: prod.splits)
  with r have "\<exists>es. rr = Ok es" and "lsm_wal l2 = w2"
    by (cases rr; auto simp: recover_from_wal_def on_wal_def split: prod.splits)+
  then obtain es where "wal_replay_from now 0 (lsm_wal (fst s1), snd s1) = Some (Ok es, (w2, fs2'))"
    and "lsm_wal l2 = fst (w2, fs2')"
    using rr by auto
  with wal_replay_ok_fails [OF this(1)] w s' u' show ?thesis by (simp add: lsm_set_held_def)
qed

lemma put_failed_log:
  assumes "lsm_is_open (fst s)" and "\<not> lsm_held (fst s)" and "wal_is_open (lsm_wal (fst s))"
    and "\<not> wal_held (lsm_wal (fst s))" and "st_fail (wal_stream (lsm_wal (fst s)))"
  shows "\<exists>s'. lsm_put key entry s = Some (fst (memtable_put key entry (lsm_memtable (fst s))), s')
    \<and> snd s' = snd s"
proof -
  obtain l fs where s: "s = (l, fs)" by (cases s)
  from assms s wal_append_failed [of "(lsm_wal l, fs)" "WALEntry WAL_PUT key entry 0"]
  show ?thesis
    by (auto simp: lsm_put_def lsm_op_simps on_wal_def split: prod.splits)
qed

section \<open>Range scans\<close>

text \<open>Merging takes nothing from what is there and adds the keys that are not.\<close>

lemma merge_new_map:
  "distinct (map fst data) \<Longrightarrow> map_of (merge_new m data) k =
     (case map_of m k of Some e \<Rightarrow> Some e | None \<Rightarrow> map_of data k)"
  unfolding merge_new_def
proof (induction data arbitrary: m)
  case (Cons x data)
  then have "map_of data (fst x) = None" by (simp add: map_of_eq_None_iff)
  with Cons show ?case by (cases x) (auto split: option.splits)
qed (simp split: option.splits)

lemma foldl_invariant:
  "P m \<Longrightarrow> (\<And>m x. P m \<Longrightarrow> P (f m x)) \<Longrightarrow> P (foldl f m xs)"
  by (induction xs arbitrary: m) simp_all

lemma merge_new_sorted:
  assumes "om_sorted m"
  shows "om_sorted (merge_new m data)"
  unfolding merge_new_def
proof (rule foldl_invariant [where P = om_sorted, OF assms])
  fix m :: table and x :: "multi_level_key \<times> data_entry"
  assume "om_sorted m"
  then show "om_sorted (case x of (key, entry) \<Rightarrow>
      if map_of m key = None then om_insert key entry m else m)"
    using om_insert_sorted [of m] by (cases x; cases "map_of m (fst x)") simp_all
qed

lemma insert_all_map:
  "distinct (map fst data) \<Longrightarrow>
   map_of (foldl (\<lambda>m (key, entry). om_insert key entry m) m data) k =
     (case map_of data k of Some e \<Rightarrow> Some e | None \<Rightarrow> map_of m k)"
proof (induction data arbitrary: m)
  case (Cons x data)
  then have "map_of data (fst x) = None" by (simp add: map_of_eq_None_iff)
  with Cons show ?case by (cases x) (auto split: option.splits)
qed simp

lemma insert_all_sorted:
  fixes data :: table
  assumes "om_sorted m"
  shows "om_sorted (foldl (\<lambda>m (key, entry). om_insert key entry m) m data)"
proof (rule foldl_invariant [where P = om_sorted, OF assms])
  fix m :: table and x :: "multi_level_key \<times> data_entry"
  assume "om_sorted m"
  then show "om_sorted (case x of (key, entry) \<Rightarrow> om_insert key entry m)"
    using om_insert_sorted [of m] by (cases x) simp
qed

lemma scan_of_distinct: "scan_of q m xs \<Longrightarrow> distinct (map fst xs)"
  by (simp add: scan_of_def om_sorted_distinct)

text \<open>A merged map holds the first live entry of the layers read so far.\<close>

definition merged_of ::
    "range_query \<Rightarrow> (multi_level_key \<Rightarrow> data_entry option) list \<Rightarrow> table \<Rightarrow> bool" where
  "merged_of q ms xs \<longleftrightarrow> om_sorted xs
     \<and> (\<forall>k. map_of xs k = (if scan_keys q k then first_live ms k else None))"

lemma merged_of_first:
  assumes "scan_of q m xs"
  shows "merged_of q [m] (foldl (\<lambda>m (key, entry). om_insert key entry m) [] xs)"
proof -
  have "om_sorted (foldl (\<lambda>m (key, entry). om_insert key entry m) [] xs)"
    by (rule insert_all_sorted) simp
  moreover have "first_live [m] k = live (m k)" for k by (simp split: option.split)
  ultimately show ?thesis
    using assms insert_all_map [OF scan_of_distinct [OF assms], of "[]"]
    by (simp add: merged_of_def scan_of_def split: option.split)
qed

lemma merged_of_next:
  assumes "merged_of q ms merged" and "scan_of q m xs"
  shows "merged_of q (ms @ [m]) (merge_new merged xs)"
proof -
  have "om_sorted (merge_new merged xs)"
    using assms(1) by (intro merge_new_sorted) (simp add: merged_of_def)
  moreover have "first_live (ms @ [m]) k
      = (case first_live ms k of Some e \<Rightarrow> Some e | None \<Rightarrow> live (m k))" for k
    by (simp add: first_live_append split: option.split)
  ultimately show ?thesis
    using assms merge_new_map [OF scan_of_distinct [OF assms(2)], of merged]
    by (simp add: merged_of_def scan_of_def split: option.split)
qed

lemma scan_tables_merged:
  assumes "list_all2 (sst_represents fs) ts ms" and "start_key q \<le> end_key q"
    and "\<forall>m \<in> set ms. range_room q m" and "merged_of q ms0 merged"
  shows "\<exists>merged' ts'. scan_tables fs q ts merged = Some (merged', ts')
    \<and> merged_of q (ms0 @ ms) merged' \<and> list_all2 (sst_represents fs) ts' ms
    \<and> map sst_filename ts' = map sst_filename ts"
  using assms
proof (induction ts ms arbitrary: merged ms0 rule: list_all2_induct)
  case (Cons t ts m ms)
  from sst_range_scan_of [OF Cons.hyps(1) Cons.prems(1)] Cons.prems(2) obtain xs t' where
    t: "sst_range_scan fs q t = Some (Ok xs, t')" "scan_of q m xs" "sst_represents fs t' m"
      "sst_filename t' = sst_filename t"
    by auto
  from Cons.IH [OF Cons.prems(1) _ merged_of_next [OF Cons.prems(3) t(2)]] Cons.prems(2)
  obtain merged' ts' where
    "scan_tables fs q ts (merge_new merged xs) = Some (merged', ts')"
    "merged_of q ((ms0 @ [m]) @ ms) merged'" "list_all2 (sst_represents fs) ts' ms"
    "map sst_filename ts' = map sst_filename ts"
    by auto
  with t show ?case by simp
qed simp

lemma take_live_live:
  "(\<And>x. x \<in> set xs \<Longrightarrow> \<not> deleted (snd x)) \<Longrightarrow> take_live n xs = take n xs"
  by (induction xs arbitrary: n) (auto simp: take_Cons split: nat.split)

lemma first_live_live: "first_live ms k = Some e \<Longrightarrow> \<not> deleted e"
  by (induction ms) (auto dest: live_SomeD split: option.splits)

lemma merged_of_live: "merged_of q ms xs \<Longrightarrow> x \<in> set xs \<Longrightarrow> \<not> deleted (snd x)"
  using map_of_is_SomeI [of xs "fst x" "snd x"] om_sorted_distinct [of xs]
  by (auto simp: merged_of_def dest: first_live_live split: if_splits)

lemma range_scan_layers:
  assumes "lsm_running s" and "lsm_layers s ms" and "start_key q \<le> end_key q"
    and "\<forall>m \<in> set ms. range_room q m"
  shows "\<exists>xs s'. lsm_range_scan q s = Some (Ok (take (unat (limit q)) xs), s')
    \<and> merged_of q ms xs \<and> lsm_running s' \<and> lsm_layers s' ms \<and> snd s' = snd s"
proof -
  obtain l fs where s: "s = (l, fs)" by (cases s)
  let ?mt = "lsm_memtable l"
  from assms(2) s obtain ts where
    ts: "list_all2 (sst_represents fs) (rev (sstables l)) ts"
    and ms: "ms = memtable_contents ?mt # older_contents l @ ts"
    and wf: "memtable_wf ?mt" "\<And>imm. immutable_memtable l = Some imm \<Longrightarrow> memtable_wf imm"
    by (auto simp: lsm_layers_def)
  from assms(1) s have run: "lsm_is_open l" "\<not> lsm_held l" "wal_usable l"
    by (simp_all add: lsm_running_iff)
  from memtable_range_scan_of [OF wf(1) assms(3)] assms(4) ms obtain x0 where
    x0: "memtable_range_scan q ?mt = Some (Ok x0)" "scan_of q (memtable_contents ?mt) x0"
    by auto
  let ?m0 = "foldl (\<lambda>m (key, entry). om_insert key entry m) [] x0"
  have m0: "merged_of q [memtable_contents ?mt] ?m0" using x0(2) by (rule merged_of_first)
  have "\<exists>m1. (case immutable_memtable l of None \<Rightarrow> Some ?m0
      | Some mt \<Rightarrow> do { r \<leftarrow> memtable_range_scan q mt;
          Some (case r of Ok data \<Rightarrow> merge_new ?m0 data | Error _ _ \<Rightarrow> ?m0) }) = Some m1
      \<and> merged_of q (memtable_contents ?mt # older_contents l) m1"
  proof (cases "immutable_memtable l")
    case (Some imm)
    with memtable_range_scan_of [OF wf(2) [OF Some] assms(3)] assms(4) ms obtain x1 where
      "memtable_range_scan q imm = Some (Ok x1)" "scan_of q (memtable_contents imm) x1"
      by auto
    with merged_of_next [OF m0] Some show ?thesis by auto
  qed (use m0 in simp)
  then obtain m1 where m1: "(case immutable_memtable l of None \<Rightarrow> Some ?m0
      | Some mt \<Rightarrow> do { r \<leftarrow> memtable_range_scan q mt;
          Some (case r of Ok data \<Rightarrow> merge_new ?m0 data | Error _ _ \<Rightarrow> ?m0) }) = Some m1"
    "merged_of q (memtable_contents ?mt # older_contents l) m1"
    by blast
  from scan_tables_merged [OF ts assms(3) _ m1(2)] assms(4) ms obtain merged ts' where
    sc: "scan_tables fs q (rev (sstables l)) m1 = Some (merged, ts')" "merged_of q ms merged"
      "list_all2 (sst_represents fs) ts' ts"
      "map sst_filename ts' = map sst_filename (rev (sstables l))"
    by auto
  let ?l = "l\<lparr>lsm_held := False, sstables := rev ts'\<rparr>"
  have "take_live (unat (limit q)) merged = take (unat (limit q)) merged"
    using merged_of_live [OF sc(2)] by (rule take_live_live)
  then have "lsm_range_scan q s = Some (Ok (take (unat (limit q)) merged), (?l, fs))"
    using s run x0(1) m1(1) sc(1) by (simp add: lsm_range_scan_def lsm_op_simps)
  moreover have "lsm_running (?l, fs)"
    using run arg_cong [OF sc(4), of set] by (simp add: lsm_running_iff wal_usable_def)
  moreover have "lsm_layers (?l, fs) ms"
    using assms(2) s sc(3) by (auto simp: lsm_layers_def ms)
  ultimately show ?thesis using sc(2) s by auto
qed

section \<open>Recovery\<close>

text \<open>What a log says about a key: the value of its last entry, unless that is a removal.\<close>

definition log_step :: "multi_level_key \<Rightarrow> string option \<Rightarrow> wal_entry \<Rightarrow> string option" where
  "log_step k v e =
     (if we_key e \<noteq> k then v
      else if we_type e = WAL_PUT then if key_fits k (we_data e) then Some (entry_value (we_data e)) else v
      else if we_type e = WAL_DELETE then None
      else v)"

definition log_value :: "wal_entry list \<Rightarrow> multi_level_key \<Rightarrow> string option" where
  "log_value es k = foldl (log_step k) None es"

definition live_value :: "memtable \<Rightarrow> multi_level_key \<Rightarrow> string option" where
  "live_value mt k = map_option entry_value (live (memtable_contents mt k))"

lemma live_value_new [simp]: "live_value MemTable_new k = None"
  by (simp add: live_value_def)

lemma logged_simps [simp]:
  "we_type (logged now e) = we_type e" "we_key (logged now e) = we_key e"
  "entry_value (we_data (logged now e)) = entry_value (we_data e)"
  "deleted (we_data (logged now e)) = False"
  by (simp_all add: logged_def DataEntry_default_def)

lemma key_fits_logged [simp]: "key_fits k (we_data (logged now e)) = key_fits k (we_data e)"
  by (simp add: key_fits_def)

lemma recover_entry_value:
  "live_value (recover_entry now (logged now e) mt) k = log_step k (live_value mt k) e"
proof -
  obtain r1 mt1 where p: "memtable_put (we_key e) (we_data (logged now e)) mt = (r1, mt1)"
    by fastforce
  obtain r2 mt2 where d: "memtable_remove now (we_key e) mt = (r2, mt2)" by fastforce
  have fits: "is_ok r1 \<longleftrightarrow> key_fits (we_key e) (we_data e)"
    using memtable_put_ok_iff [of "we_key e" "we_data (logged now e)" mt] p by simp
  have put: "live_value mt1 k = (if we_key e \<noteq> k \<or> \<not> is_ok r1 then live_value mt k
      else Some (entry_value (we_data e)))"
    using memtable_put_contents [OF p] memtable_put_fail [OF p]
    by (cases "is_ok r1") (auto simp: live_value_def)
  from memtable_remove_contents [OF d] have del:
    "live_value mt2 k = (if we_key e \<noteq> k then live_value mt k else None)"
    by (auto simp: live_value_def)
  have rec: "recover_entry now (logged now e) mt
      = (if we_type e = WAL_PUT then mt1 else if we_type e = WAL_DELETE then mt2 else mt)"
    using p d by (simp add: recover_entry_def)
  have "live_value (if we_type e = WAL_PUT then mt1 else if we_type e = WAL_DELETE then mt2 else mt) k
      = (if we_type e = WAL_PUT then live_value mt1 k
         else if we_type e = WAL_DELETE then live_value mt2 k else live_value mt k)"
    by simp
  then show ?thesis
    unfolding rec log_step_def using put del fits by (simp split del: if_split cong: if_cong) auto
qed

lemma recover_entries_value:
  "live_value (foldl (\<lambda>mt e. recover_entry now e mt) mt (map (logged now) es)) k
   = foldl (log_step k) (live_value mt k) es"
proof (induction es arbitrary: mt)
  case (Cons e es)
  then show ?case by (simp only: list.map foldl_Cons recover_entry_value)
qed simp

text \<open>What \<open>get\<close> says of a key: its value, or that there is none.\<close>

definition lsm_value :: "multi_level_key \<Rightarrow> lsm_state \<Rightarrow> string option option" where
  "lsm_value k s = map_option (\<lambda>r. map_option entry_value (found r)) (lsm_reads k s)"

lemma lsm_value_memtable:
  assumes "lsm_is_open l" and "\<not> lsm_held l" and "sstables l = []" and "immutable_memtable l = None"
  shows "lsm_value k (l, fs) = Some (live_value (lsm_memtable l) k)"
  using assms found_memtable_get [of k "lsm_memtable l"]
  by (cases "memtable_get k (lsm_memtable l)")
    (simp_all add: lsm_value_def lsm_reads_def lsm_get_def lsm_op_simps get_from_memtable_def
      get_from_sstables_def live_value_def Let_def flip: found_memtable_get)

lemma recover_entry_wf:
  assumes "memtable_wf mt"
  shows "memtable_wf (recover_entry now e mt)"
proof -
  have "memtable_wf (snd (memtable_put (we_key e) (we_data e) mt))"
    by (rule memtable_wf_put [OF assms prod.collapse [symmetric]])
  moreover have "memtable_wf (snd (memtable_remove now (we_key e) mt))"
    by (rule memtable_wf_remove [OF assms prod.collapse [symmetric]])
  ultimately show ?thesis using assms by (simp add: recover_entry_def)
qed

definition log_fits :: "wal_entry list \<Rightarrow> bool" where
  "log_fits es \<longleftrightarrow> (\<forall>e \<in> set es. nul_free (we_key e) \<and> length (wal_serialize e) \<le> 1024 * 1024)"

text \<open>What \<open>open\<close> does with a log that can be opened, in a directory without tables.\<close>

lemma open_with_log:
  assumes "\<not> lsm_is_open l" and "\<not> lsm_held l" and "create_directories (data_dir l) fs"
    and "wal_open (lsm_wal l, fs) = Some (Ok (), (w1, fs))"
    and "wal_replay_from now 0 (w1, fs) = Some (r, (w2, fs))"
    and sst: "filter (\<lambda>p. path_extension p = ''.sst'') (files_in (data_dir l) fs) = []"
  shows "lsm_open now (l, fs) = Some (case r of
      Error st m \<Rightarrow> (Error st m, (l\<lparr>lsm_wal := w2\<rparr>, fs))
    | Ok es \<Rightarrow> (Ok (), (l\<lparr>lsm_wal := w2, stop_background := False, background_thread := True,
        lsm_is_open := True, lsm_memtable := foldl (\<lambda>mt e. recover_entry now e mt) (lsm_memtable l) es\<rparr>, fs)))"
proof (cases r)
  case (Error st m)
  with assms(4,5) have "on_wal wal_open (l\<lparr>lsm_held := True\<rparr>, fs) = Some (Ok (), (l\<lparr>lsm_held := True, lsm_wal := w1\<rparr>, fs))"
    "recover_from_wal now (l\<lparr>lsm_held := True, lsm_wal := w1\<rparr>, fs)
      = Some (Error st m, (l\<lparr>lsm_held := True, lsm_wal := w2\<rparr>, fs))"
    by (simp_all add: recover_from_wal_def on_wal_def)
  with assms(1-3) Error show ?thesis by (cases l) (simp add: lsm_open_def lsm_op_simps)
next
  case (Ok es)
  let ?mt = "foldl (\<lambda>mt e. recover_entry now e mt) (lsm_memtable l) es"
  have rec: "recover_from_wal now (l\<lparr>lsm_held := True, lsm_wal := w1\<rparr>, fs)
      = Some (Ok (), (l\<lparr>lsm_held := True, lsm_wal := w2, lsm_memtable := ?mt\<rparr>, fs))"
    using assms(5) Ok by (simp add: recover_from_wal_def on_wal_def)
  have "\<not> fs_denied fs (data_dir l)" using assms(3) by (simp add: create_directories_def)
  then have load: "load_sstables (l\<lparr>lsm_held := True, lsm_wal := w2, lsm_memtable := ?mt\<rparr>, fs)
      = Some (Ok (), (l\<lparr>lsm_held := True, lsm_wal := w2, lsm_memtable := ?mt\<rparr>, fs))"
    using sst by (simp add: load_sstables_def)
  show ?thesis
    using assms(1-4) rec load Ok by (cases l) (simp add: lsm_open_def lsm_op_simps on_wal_def)
qed

lemma open_recovers:
  assumes "\<not> lsm_is_open l" and "\<not> lsm_held l" and "create_directories (data_dir l) fs"
    and "\<not> wal_held (lsm_wal l)" and "\<not> wal_is_open (lsm_wal l)"
    and "\<not> st_open (wal_stream (lsm_wal l))"
    and "create_directories (parent_path (wal_file (lsm_wal l))) fs"
    and "\<not> fs_denied fs (wal_file (lsm_wal l))"
    and log: "fs_content fs (wal_file (lsm_wal l)) = Some (concat (map wal_record es))"
    and "log_fits es"
    and sst: "filter (\<lambda>p. path_extension p = ''.sst'') (files_in (data_dir l) fs) = []"
  shows "\<exists>l'. lsm_open now (l, fs) = Some (Ok (), (l', fs)) \<and> lsm_is_open l'
    \<and> sstables l' = sstables l \<and> immutable_memtable l' = immutable_memtable l
    \<and> lsm_memtable l' =
        foldl (\<lambda>mt e. recover_entry now e mt) (lsm_memtable l) (map (logged now) es)"
proof -
  let ?w = "lsm_wal l"
  from wal_open_existing [of ?w fs] assms obtain w1 where
    w1: "wal_open (?w, fs) = Some (Ok (), (w1, fs))" "wal_ready (w1, fs)" "wal_file w1 = wal_file ?w"
    by auto
  have bytes: "file_bytes (wal_file (fst (w1, fs))) (snd (w1, fs)) = concat (map wal_record es)"
    using log w1(3) by (simp add: file_bytes_def)
  from wal_replay_ready [OF w1(2) bytes, of now 0] assms(10) obtain w2 where
    w2: "wal_replay_from now 0 (w1, fs) = Some (Ok (map (logged now) es), (w2, fs))"
    by (auto simp: log_fits_def)
  from open_with_log [OF assms(1-3) w1(1) w2 sst] show ?thesis by simp
qed

text \<open>A log that ends inside a record. When the header is there and the body is not, \<open>open\<close> fails and
  leaves the log open with a failed stream; the next \<open>open\<close> then finds an empty log.\<close>

lemma open_torn:
  assumes "\<not> lsm_is_open l" and "\<not> lsm_held l" and "create_directories (data_dir l) fs"
    and "lsm_wal l = WAL_new p" and "create_directories (parent_path p) fs" and "\<not> fs_denied fs p"
    and log: "fs_content fs p = Some (concat (map wal_record es) @ take n (wal_record e))"
    and "n < length (wal_record e)" and "log_fits es" and "length (wal_serialize e) \<le> 1024 * 1024"
    and sst: "filter (\<lambda>p. path_extension p = ''.sst'') (files_in (data_dir l) fs) = []"
  shows "if n < 8
    then \<exists>l'. lsm_open now (l, fs) = Some (Ok (), (l', fs)) \<and> lsm_is_open l' \<and> lsm_memtable l' =
        foldl (\<lambda>mt e. recover_entry now e mt) (lsm_memtable l) (map (logged now) es)
    else \<exists>l1 l2. lsm_open now (l, fs) = Some (Error STORAGE_ERROR ''Incomplete record in WAL'', (l1, fs))
        \<and> \<not> lsm_is_open l1
        \<and> lsm_open now2 (l1, fs) = Some (Ok (), (l2, fs)) \<and> lsm_is_open l2
        \<and> lsm_memtable l2 = lsm_memtable l"
proof -
  have "\<exists>w'. wal_open (WAL_new p, fs) = Some (Ok (), (w', fs)) \<and> wal_ready (w', fs) \<and> wal_file w' = p"
    using wal_open_existing [of "WAL_new p" fs] assms(5-7) by (simp add: WAL_new_def stream_new_def)
  then obtain w1 where
    w1: "wal_open (lsm_wal l, fs) = Some (Ok (), (w1, fs))" "wal_ready (w1, fs)" "wal_file w1 = p"
    unfolding assms(4) by blast
  have bytes: "wal_bytes (w1, fs) = concat (map wal_record es) @ take n (wal_record e)"
    using log w1(3) by (simp add: file_bytes_def)
  have fits: "\<forall>e \<in> set es. nul_free (we_key e) \<and> length (wal_serialize e) \<le> 1024 * 1024"
    using assms(9) by (simp add: log_fits_def)
  from wal_replay_torn [OF w1(2) bytes assms(8,10) fits, of now 0] obtain w2 where
    w2: "wal_replay_from now 0 (w1, fs) = Some (if n < 8 then Ok (map (logged now) es)
        else Error STORAGE_ERROR ''Incomplete record in WAL'', (w2, fs))"
      "wal_is_open w2" "\<not> wal_held w2" "st_fail (wal_stream w2)"
    by auto
  note first = open_with_log [OF assms(1-3) w1(1) w2(1) sst]
  show ?thesis
  proof (cases "n < 8")
    case True
    with first show ?thesis by simp
  next
    case False
    let ?l1 = "l\<lparr>lsm_wal := w2\<rparr>"
    have e: "lsm_open now (l, fs) = Some (Error STORAGE_ERROR ''Incomplete record in WAL'', (?l1, fs))"
      using False first by simp
    have "wal_open (lsm_wal ?l1, fs) = Some (Ok (), (w2, fs))"
      using w2(2,3) by (simp add: wal_open_def guarded_def wal_mutex_held_def wal_set_held_def)
    moreover obtain w3 where "wal_replay_from now2 0 (w2, fs) = Some (Ok [], (w3, fs))"
      using wal_replay_failed [OF w2(2-4)] by blast
    ultimately have "\<exists>l2. lsm_open now2 (?l1, fs) = Some (Ok (), (l2, fs)) \<and> lsm_is_open l2
        \<and> lsm_memtable l2 = lsm_memtable l"
      using open_with_log [of ?l1 fs w2 now2 "Ok []" w3] assms(1-3) sst by simp
    with e False assms(1) show ?thesis by auto
  qed
qed

section \<open>Restoring\<close>

lemma remove_all_content:
  "fs_content (remove_all dir fs) p = (if below dir p then None else fs_content fs p)"
proof -
  have "map_of (filter (\<lambda>(q, c). P q) xs) p = (if P p then map_of xs p else None)"
    for P :: "string \<Rightarrow> bool" and xs :: "(string \<times> string) list"
    by (induction xs) auto
  from this [of "\<lambda>q. \<not> below dir q" "fs_files fs"] show ?thesis
    by (simp add: fs_content_def remove_all_def)
qed

lemma restore_unreadable:
  assumes "\<not> lsm_is_open l" and "\<not> lsm_held l" and "\<not> fs_denied fs (data_dir l)"
    and "fs_denied fs backup_path"
  shows "\<exists>fs'. lsm_restore backup_path (l, fs)
      = Some (Error STORAGE_ERROR (''Failed to restore: '' @ fs_what fs), (l, fs'))
    \<and> (\<forall>p. below (data_dir l) p \<longrightarrow> fs_content fs' p = None)"
proof -
  have "lsm_restore backup_path (l, fs)
      = Some (Error STORAGE_ERROR (''Failed to restore: '' @ fs_what fs), (l, remove_all (data_dir l) fs))"
    using assms by (simp add: lsm_restore_def lsm_op_simps remove_all_def)
  then show ?thesis by (simp add: remove_all_content)
qed

end
