(* ===== verification/Storage_Properties.thy ===== *)
theory Storage_Properties
  imports Lsm_Tree
begin

text \<open>
  The properties of the storage engine: the checksum, the log, the tables and the engine that
  is built from them, each with a concrete input at which it applies.
\<close>

section \<open>Concrete states\<close>

definition demo_key :: multi_level_key where "demo_key = MultiLevelKey ''user'' ''name''"
definition demo_other :: multi_level_key where "demo_other = MultiLevelKey ''user'' ''mail''"

definition demo_entry :: "string \<Rightarrow> data_entry" where
  "demo_entry v = \<lparr>entry_value = v, version = 1, timestamp = 5, deleted = False\<rparr>"

definition demo_data :: table where "demo_data = [(demo_key, demo_entry ''old'')]"

definition demo_fs :: fsys where
  "demo_fs = \<lparr>fs_files = [(''d/wal.log'', []), (''d/a.sst'', fst (sst_image demo_data)),
      (''d/b.sst'', fst (sst_image demo_data))],
    fs_denied = (\<lambda>p. p = ''lost''), fs_what = ''what''\<rparr>"

definition demo_table :: "string \<Rightarrow> sstable" where
  "demo_table p = \<lparr>sst_filename = p, sst_index = sst_index_of demo_data, sst_size = 1\<rparr>"

definition demo_wal :: wal where
  "demo_wal = \<lparr>wal_file = ''d/wal.log'', wal_stream = stream_opened, wal_is_open = True,
    wal_sequence_number = 0, wal_held = False\<rparr>"

definition demo_mt :: memtable where
  "demo_mt = snd (memtable_put demo_other (demo_entry ''new'') MemTable_new)"

definition demo_lsm :: lsm where
  "demo_lsm = \<lparr>data_dir = ''d'', lsm_memtable = demo_mt, immutable_memtable = None,
    sstables = [demo_table ''d/a.sst'', demo_table ''d/b.sst''], lsm_wal = demo_wal,
    lsm_held = False, stop_background = False, background_thread = True, lsm_is_open = True,
    total_reads = 0, cache_hits = 0, memtable_size_limit = MEMTABLE_SIZE_LIMIT,
    max_sstables = 10, enable_compression = False\<rparr>"

definition demo_state :: lsm_state where "demo_state = (demo_lsm, demo_fs)"

text \<open>The contents of the concrete engine.\<close>

definition demo_new :: "multi_level_key \<Rightarrow> data_entry option" where
  "demo_new = [demo_other \<mapsto> demo_entry ''new'']"

definition demo_old :: "multi_level_key \<Rightarrow> data_entry option" where
  "demo_old = [demo_key \<mapsto> demo_entry ''old'']"

lemma demo_fits: "sst_fits demo_data"
  by (simp add: sst_fits_def sst_image_eq sst_index_of_def demo_data_def demo_key_def demo_entry_def
      sst_entry_bytes_def key_to_string_def sst_index_bytes_def)

lemma demo_map: "map_of demo_data = demo_old"
  by (simp add: demo_data_def demo_old_def)

lemma demo_represents:
  assumes "p = ''d/a.sst'' \<or> p = ''d/b.sst''"
  shows "sst_represents demo_fs (demo_table p) demo_old"
proof -
  have "sst_stored demo_fs p demo_data"
    using assms demo_fits by (auto simp: sst_stored_def demo_fs_def fs_content_def)
  then show ?thesis
    unfolding sst_represents_def demo_map [symmetric]
    by (intro exI [of _ demo_data]) (simp add: demo_table_def)
qed

lemma demo_mt_data: "mt_data demo_mt = [(demo_other, demo_entry ''new'')]"
  by (simp add: demo_mt_def memtable_put_def MemTable_new_def demo_other_def demo_entry_def
      key_to_string_def MAX_KEY_SIZE_def MAX_VALUE_SIZE_def Let_def)

lemma demo_mt_wf: "memtable_wf demo_mt"
  unfolding demo_mt_def by (rule memtable_wf_put [OF memtable_wf_new prod.collapse [symmetric]])

lemma demo_mt_contents: "memtable_contents demo_mt = demo_new"
  by (simp add: memtable_contents_def demo_mt_data demo_new_def)

lemma demo_running: "lsm_running demo_state"
  by (simp add: demo_state_def lsm_running_def demo_lsm_def demo_wal_def demo_table_def)

lemma demo_layers: "lsm_layers demo_state [demo_new, demo_old, demo_old]"
  using demo_represents demo_mt_wf
  by (simp add: lsm_layers_def demo_state_def demo_lsm_def demo_mt_contents)

lemma demo_tables_fit: "tables_fit (fst demo_state)"
  by (simp add: tables_fit_def demo_state_def demo_lsm_def demo_mt_data
      sst_fits_def sst_image_eq sst_index_of_def demo_other_def demo_entry_def
      sst_entry_bytes_def key_to_string_def sst_index_bytes_def)

lemma demo_keys: "demo_key \<noteq> demo_other"
  by (simp add: demo_key_def demo_other_def)

section \<open>The engine\<close>

text \<open>C2: \<open>get\<close> on an open engine answers with the first live entry that the memtable, the
  immutable memtable and the tables from new to old hold for the key, and with \<open>NOT_FOUND\<close>
  when there is none; it changes no contents.\<close>

theorem lsm_get_first_live:
  assumes "lsm_running s" and "lsm_layers s ms"
  shows "\<exists>s'. lsm_get key s = Some (lsm_answer (first_live ms key), s')
    \<and> lsm_running s' \<and> lsm_layers s' ms \<and> snd s' = snd s"
  using get_layers [OF assms, of key] by blast

theorem lsm_get_first_live_witness:
  "\<exists>s'. lsm_get demo_key demo_state = Some (Ok (demo_entry ''old''), s')"
  using lsm_get_first_live [OF demo_running demo_layers, of demo_key] demo_keys
  by (auto simp: demo_new_def demo_old_def demo_entry_def)

text \<open>The answer of \<open>get\<close> is the newest version of the key exactly when no tombstone lies
  above a live version of it in an older layer.\<close>

theorem lsm_get_newest_iff:
  assumes "lsm_running s" and "lsm_layers s ms"
  shows "(\<exists>s'. lsm_get key s = Some (lsm_answer (newest ms key), s')) \<longleftrightarrow> no_shadowed_live ms key"
proof -
  have "lsm_answer a = lsm_answer b \<longleftrightarrow> a = b" for a b
    by (cases a; cases b) simp_all
  with get_layers [OF assms, of key] show ?thesis
    by (auto simp: first_live_newest)
qed

theorem lsm_get_newest_iff_witness:
  "\<exists>s'. lsm_get demo_key demo_state = Some (lsm_answer (newest [demo_new, demo_old, demo_old] demo_key), s')"
  using lsm_get_newest_iff [OF demo_running demo_layers, of demo_key] demo_keys
  by (simp add: demo_new_def demo_old_def demo_entry_def)

text \<open>A \<open>put\<close> whose key and value keep the limits reports \<open>OK\<close>; the key then reads as the
  entry, and every other key reads as before.\<close>

theorem lsm_put_get:
  assumes "lsm_running s" and "lsm_layers s ms" and "key_fits key entry" and "\<not> deleted entry"
  shows "\<exists>s'. lsm_put key entry s = Some (Ok (), s') \<and> lsm_running s'
    \<and> lsm_reads key s' = Some (Ok entry)
    \<and> (\<forall>k. k \<noteq> key \<longrightarrow> lsm_reads k s' = lsm_reads k s)"
proof -
  obtain m ms' where ms: "ms = m # ms'" using assms(2) by (auto simp: lsm_layers_def)
  from put_layers [OF assms(1) assms(2) [unfolded ms], of key entry] assms(3) obtain s' where
    p: "lsm_put key entry s = Some (Ok (), s')" "lsm_running s'"
      "lsm_layers s' (m(key \<mapsto> entry) # ms')"
    by (auto elim!: is_okE)
  from reads_layers [OF p(2,3)] reads_layers [OF assms(1) assms(2) [unfolded ms]] p(1,2) assms(4)
  show ?thesis by auto
qed

theorem lsm_put_get_witness:
  "\<exists>s'. lsm_put demo_key (demo_entry ''v'') demo_state = Some (Ok (), s')
    \<and> lsm_reads demo_key s' = Some (Ok (demo_entry ''v''))"
proof -
  have "key_fits demo_key (demo_entry ''v'')" "\<not> deleted (demo_entry ''v'')"
    by (simp_all add: key_fits_def demo_key_def demo_entry_def key_to_string_def
        MAX_KEY_SIZE_def MAX_VALUE_SIZE_def)
  from lsm_put_get [OF demo_running demo_layers this] show ?thesis by blast
qed

text \<open>C5: \<open>remove\<close> reports \<open>OK\<close>, but the key then reads as its first live entry in the layers
  below the memtable: a value that has been flushed comes back.\<close>

theorem lsm_remove_uncovers:
  assumes "lsm_running s" and "lsm_layers s (m # ms)"
  shows "\<exists>s'. lsm_remove now key s = Some (Ok (), s') \<and> lsm_running s'
    \<and> lsm_reads key s' = Some (lsm_answer (first_live ms key))"
proof -
  from remove_layers [OF assms, of now key] obtain s' e where
    r: "lsm_remove now key s = Some (Ok (), s')" "lsm_running s'" "deleted e"
      "lsm_layers s' (m(key \<mapsto> e) # ms)"
    by blast
  from reads_layers [OF r(2,4), of key] r show ?thesis by auto
qed

theorem lsm_remove_uncovers_witness:
  "\<exists>s'. lsm_remove 0 demo_key demo_state = Some (Ok (), s')
    \<and> lsm_reads demo_key s' = Some (Ok (demo_entry ''old''))"
  using lsm_remove_uncovers [OF demo_running demo_layers, of 0 demo_key]
  by (auto simp: demo_old_def demo_entry_def)

text \<open>C6: a flush to file names that are not in use changes no answer, whether it succeeds or
  fails at any of its writes.\<close>

theorem lsm_flush_keeps_answers:
  assumes "lsm_running s" and "lsm_layers s ms" and "tables_fit (fst s)"
    and "fresh_names stamp now1 now2 (fst s)"
  shows "\<exists>r s'. lsm_flush stamp now1 now2 now3 s = Some (r, s') \<and> lsm_running s'
    \<and> (\<forall>k. lsm_reads k s' = lsm_reads k s)"
proof -
  from flush_layers [OF assms, of now3] obtain r s' ms' where
    f: "lsm_flush stamp now1 now2 now3 s = Some (r, s')" "lsm_running s'" "lsm_layers s' ms'"
      "ms' = ms \<or> ms' = (\<lambda>k. None) # ms"
    by blast
  have "lsm_reads k s' = lsm_reads k s" for k
    using reads_layers [OF f(2,3), of k] reads_layers [OF assms(1,2), of k] f(4) by auto
  with f(1,2) show ?thesis by blast
qed

theorem lsm_flush_keeps_answers_witness:
  "\<exists>r s'. lsm_flush (\<lambda>t. ''t'') 0 0 0 demo_state = Some (r, s')
    \<and> (\<forall>k. lsm_reads k s' = lsm_reads k demo_state)"
proof -
  have "fresh_names (\<lambda>t. ''t'') 0 0 (fst demo_state)"
    by (simp add: fresh_names_def generate_sstable_filename_def demo_state_def demo_lsm_def
        demo_wal_def demo_table_def)
  from lsm_flush_keeps_answers [OF demo_running demo_layers demo_tables_fit this, of 0]
  show ?thesis by blast
qed

text \<open>With two tables or more, \<open>compact\<close> always reports \<open>INVALID_ARGUMENT\<close> and takes the two
  oldest tables out of the engine: keys that only they hold are no longer found.\<close>

theorem lsm_compact_drops_oldest:
  assumes "lsm_running s" and "lsm_layers s ms" and "2 \<le> length (sstables (fst s))"
  shows "\<exists>s'. lsm_compact stamp now s = Some (Error INVALID_ARGUMENT ''Cannot write empty data'', s')
    \<and> lsm_running s' \<and> snd s' = snd s
    \<and> (\<forall>k. lsm_reads k s'
          = Some (lsm_answer (first_live (take (length ms - 2) ms) k)))"
proof -
  from compact_layers [OF assms, of stamp now] obtain s' where
    c: "lsm_compact stamp now s = Some (Error INVALID_ARGUMENT ''Cannot write empty data'', s')"
      "lsm_running s'" "lsm_layers s' (take (length ms - 2) ms)" "snd s' = snd s"
    by blast
  from reads_layers [OF c(2,3)] c show ?thesis by auto
qed

theorem lsm_compact_drops_oldest_witness:
  "\<exists>s'. lsm_compact (\<lambda>t. ''t'') 0 demo_state
      = Some (Error INVALID_ARGUMENT ''Cannot write empty data'', s')
    \<and> lsm_reads demo_key s' = Some (Error NOT_FOUND ''Key not found'')"
proof -
  have "2 \<le> length (sstables (fst demo_state))" by (simp add: demo_state_def demo_lsm_def)
  from lsm_compact_drops_oldest [OF demo_running demo_layers this, of "\<lambda>t. ''t''" 0] demo_keys
  show ?thesis by (auto simp: demo_new_def)
qed

text \<open>C10: a range scan whose limit has room for the entries of the range in every layer gives, in
  key order and up to the limit, exactly the entries that \<open>get\<close> finds for the keys of the
  range; the end key belongs to the range whatever \<open>inclusive_end\<close> says.\<close>

theorem lsm_range_scan_agrees_with_get:
  assumes "lsm_running s" and "lsm_layers s ms" and "start_key q \<le> end_key q"
    and "\<forall>m \<in> set ms. range_room q m"
  shows "\<exists>xs s'. lsm_range_scan q s = Some (Ok (take (unat (limit q)) xs), s')
    \<and> om_sorted xs
    \<and> (\<forall>k e. (k, e) \<in> set xs \<longleftrightarrow>
          scan_keys q k \<and> lsm_reads k s = Some (Ok e))"
proof -
  from range_scan_layers [OF assms] obtain xs s' where
    x: "lsm_range_scan q s = Some (Ok (take (unat (limit q)) xs), s')" "merged_of q ms xs"
    by blast
  have s: "om_sorted xs" using x(2) by (simp add: merged_of_def)
  have get: "lsm_reads k s = Some (lsm_answer (first_live ms k))" for k
    using reads_layers [OF assms(1,2), of k] .
  have "(k, e) \<in> set xs \<longleftrightarrow> scan_keys q k \<and> first_live ms k = Some e" for k e
    using x(2) map_of_eq_Some_iff [OF om_sorted_distinct [OF s], of k e]
    by (auto simp: merged_of_def split: if_splits)
  moreover have "lsm_answer a = Ok e \<longleftrightarrow> a = Some e" for a e
    by (cases a) simp_all
  ultimately have "\<forall>k e. (k, e) \<in> set xs \<longleftrightarrow> scan_keys q k \<and> lsm_reads k s = Some (Ok e)"
    using get by simp
  with x(1) s show ?thesis by blast
qed

definition demo_query :: range_query where
  "demo_query = RangeQuery_default\<lparr>end_key := MultiLevelKey ''z'' []\<rparr>"

theorem lsm_range_scan_agrees_with_get_witness:
  "\<exists>xs s'. lsm_range_scan demo_query demo_state = Some (Ok (take 1000 xs), s')
    \<and> (demo_key, demo_entry ''old'') \<in> set xs"
proof -
  have card: "card {k. scan_keys demo_query k \<and> [k0 \<mapsto> e] k \<noteq> None} \<le> 1" for k0 and e :: data_entry
  proof -
    have "card {k. scan_keys demo_query k \<and> [k0 \<mapsto> e] k \<noteq> None} \<le> card {k0}"
      by (intro card_mono) (auto split: if_splits)
    then show ?thesis by simp
  qed
  have room: "\<forall>m \<in> set [demo_new, demo_old, demo_old]. range_room demo_query m"
    using card [of demo_other "demo_entry ''new''"] card [of demo_key "demo_entry ''old''"]
    by (simp only: range_room_def demo_new_def demo_old_def list.set ball_simps)
      (simp add: demo_query_def RangeQuery_default_def)
  have le: "start_key demo_query \<le> end_key demo_query" and k: "scan_keys demo_query demo_key"
    by (simp_all add: demo_query_def RangeQuery_default_def scan_keys_def demo_key_def
        less_eq_multi_level_key_def key_order_lex)
  from reads_layers [OF demo_running demo_layers, of demo_key] demo_keys
  have g: "lsm_reads demo_key demo_state = Some (Ok (demo_entry ''old''))"
    by (auto simp: demo_new_def demo_old_def demo_entry_def)
  have lim: "unat (limit demo_query) = 1000" by (simp add: demo_query_def RangeQuery_default_def)
  from lsm_range_scan_agrees_with_get [OF demo_running demo_layers le room] k g lim
  show ?thesis by metis
qed

text \<open>On an open engine the two conditional writes throw and write nothing: they call \<open>get\<close>, which
  locks the mutex they hold. On a closed engine they report an error.\<close>

theorem lsm_conditional_writes_raise:
  assumes "\<not> lsm_held (fst s)"
  shows "lsm_put_if_version_match key entry v s =
      Some (if lsm_is_open (fst s) then Raises else Returns (Error STORAGE_ERROR ''LSM tree is not open''), s)
    \<and> lsm_remove_if_version_match now key v s =
      Some (if lsm_is_open (fst s) then Raises else Returns (Error STORAGE_ERROR ''LSM tree is not open''), s)"
proof (cases "lsm_is_open (fst s)")
  case True
  then show ?thesis using assms by (simp add: conditional_writes_raise)
next
  case False
  with assms show ?thesis
    by (cases s) (simp add: lsm_put_if_version_match_def lsm_remove_if_version_match_def lsm_op_simps)
qed

theorem lsm_conditional_writes_raise_witness:
  "lsm_put_if_version_match demo_key (demo_entry ''v'') 1 demo_state = Some (Raises, demo_state)"
proof -
  have "\<not> lsm_held (fst demo_state)" "lsm_is_open (fst demo_state)"
    by (simp_all add: demo_state_def demo_lsm_def)
  with lsm_conditional_writes_raise [OF this(1), of demo_key "demo_entry ''v''" 1 0] show ?thesis
    by simp
qed

text \<open>Once \<open>open\<close> has reported \<open>OK\<close>, the log takes no more entries: replaying it left the
  stream in a failed state, so a \<open>put\<close> that keeps the limits reports \<open>OK\<close> and leaves every
  file as it was.\<close>

theorem lsm_put_after_open_not_logged:
  assumes "lsm_open now s = Some (Ok (), s')" and "\<not> lsm_is_open (fst s)"
    and "key_fits key entry"
  shows "\<exists>s''. lsm_put key entry s' = Some (Ok (), s'') \<and> snd s'' = snd s'"
proof -
  from open_fails_log [OF assms(1,2)] have
    "lsm_is_open (fst s')" "\<not> lsm_held (fst s')" "wal_is_open (lsm_wal (fst s'))"
    "\<not> wal_held (lsm_wal (fst s'))" "st_fail (wal_stream (lsm_wal (fst s')))"
    by simp_all
  from put_failed_log [OF this, of key entry]
    memtable_put_ok_iff [of key entry "lsm_memtable (fst s')"] assms(3)
  show ?thesis by (auto elim!: is_okE)
qed

definition demo_closed :: lsm where
  "demo_closed = demo_lsm\<lparr>lsm_memtable := MemTable_new, sstables := [], lsm_is_open := False,
     background_thread := False, lsm_wal := WAL_new ''d/wal.log''\<rparr>"

definition demo_log :: "wal_entry list" where
  "demo_log = [WALEntry WAL_PUT demo_key (demo_entry ''a'') 0,
     WALEntry WAL_DELETE demo_key (demo_entry []) 0,
     WALEntry WAL_PUT demo_other (demo_entry ''b'') 0]"

definition demo_log_fs :: fsys where
  "demo_log_fs = \<lparr>fs_files = [(''d/wal.log'', concat (map wal_record demo_log))],
    fs_denied = (\<lambda>p. p = ''lost''), fs_what = ''what''\<rparr>"

lemma demo_log_fits: "log_fits demo_log"
  by (simp add: log_fits_def demo_log_def WALEntry_def calculate_checksum_def wal_serialize_def
      nul_free_def NUL_def demo_key_def demo_other_def demo_entry_def)

lemma demo_paths:
  "parent_path ''d/wal.log'' = ''d''" "path_extension ''d/wal.log'' = ''.log''"
  by (simp_all add: parent_path_def path_extension_def path_filename_def Let_def)

lemma demo_opens:
  "\<exists>l'. lsm_open 7 (demo_closed, demo_log_fs) = Some (Ok (), (l', demo_log_fs)) \<and> lsm_is_open l'
    \<and> lsm_memtable l' =
        foldl (\<lambda>mt e. recover_entry 7 e mt) MemTable_new (map (logged 7) demo_log)"
proof -
  have "\<exists>l'. lsm_open 7 (demo_closed, demo_log_fs) = Some (Ok (), (l', demo_log_fs)) \<and> lsm_is_open l'
    \<and> sstables l' = sstables demo_closed \<and> immutable_memtable l' = immutable_memtable demo_closed
    \<and> lsm_memtable l' = foldl (\<lambda>mt e. recover_entry 7 e mt) (lsm_memtable demo_closed)
        (map (logged 7) demo_log)"
    by (rule open_recovers [OF _ _ _ _ _ _ _ _ _ demo_log_fits])
      (simp_all add: demo_closed_def demo_lsm_def WAL_new_def stream_new_def create_directories_def
        demo_log_fs_def fs_content_def files_in_def demo_paths)
  then show ?thesis by (auto simp: demo_closed_def)
qed

theorem lsm_put_after_open_not_logged_witness:
  "\<exists>s' s''. lsm_open 7 (demo_closed, demo_log_fs) = Some (Ok (), s')
    \<and> lsm_put demo_key (demo_entry ''v'') s' = Some (Ok (), s'') \<and> snd s'' = snd s'"
proof -
  from demo_opens obtain l' where o: "lsm_open 7 (demo_closed, demo_log_fs) = Some (Ok (), (l', demo_log_fs))"
    by blast
  have "\<not> lsm_is_open (fst (demo_closed, demo_log_fs))" by (simp add: demo_closed_def)
  moreover have "key_fits demo_key (demo_entry ''v'')"
    by (simp add: key_fits_def demo_key_def demo_entry_def key_to_string_def
        MAX_KEY_SIZE_def MAX_VALUE_SIZE_def)
  ultimately show ?thesis using lsm_put_after_open_not_logged [OF o] o by blast
qed

text \<open>C11: a new engine that is opened in a directory without table files, on an undamaged log (no
  key with a zero byte, no record over a megabyte), answers \<open>get\<close> from the log: for every key with
  the value of the last \<open>PUT\<close> record that the memtable accepts, unless a \<open>DELETE\<close> record comes after it,
  and with no value when there is none. \<open>put\<close> logs an entry before the memtable checks its size, and
  the replay skips the entries that the memtable refuses.\<close>

theorem lsm_open_recovers_log:
  assumes "\<not> lsm_is_open l" and "\<not> lsm_held l" and "create_directories (data_dir l) fs"
    and "lsm_wal l = WAL_new p" and "create_directories (parent_path p) fs" and "\<not> fs_denied fs p"
    and "fs_content fs p = Some (concat (map wal_record es))" and "log_fits es"
    and "filter (\<lambda>p. path_extension p = ''.sst'') (files_in (data_dir l) fs) = []"
    and "lsm_memtable l = MemTable_new" and "sstables l = []" and "immutable_memtable l = None"
  shows "\<exists>l'. lsm_open now (l, fs) = Some (Ok (), (l', fs)) \<and> lsm_is_open l'
    \<and> (\<forall>k. lsm_value k (l', fs) = Some (log_value es k))"
proof -
  have "\<exists>l'. lsm_open now (l, fs) = Some (Ok (), (l', fs)) \<and> lsm_is_open l'
    \<and> sstables l' = sstables l \<and> immutable_memtable l' = immutable_memtable l
    \<and> lsm_memtable l' =
        foldl (\<lambda>mt e. recover_entry now e mt) (lsm_memtable l) (map (logged now) es)"
    by (rule open_recovers [OF assms(1-3) _ _ _ _ _ _ assms(8,9)])
      (use assms in \<open>simp_all add: WAL_new_def stream_new_def\<close>)
  then obtain l' where l': "lsm_open now (l, fs) = Some (Ok (), (l', fs))" "lsm_is_open l'"
    "sstables l' = []" "immutable_memtable l' = None"
    "lsm_memtable l' = foldl (\<lambda>mt e. recover_entry now e mt) MemTable_new (map (logged now) es)"
    using assms(10-12) by auto
  have free: "\<not> lsm_held l'"
    using lsm_mx.releases [OF l'(1) [unfolded lsm_open_def]] by (simp add: lsm_mutex_held_def)
  have "lsm_value k (l', fs) = Some (log_value es k)" for k
    using lsm_value_memtable [OF l'(2) free l'(3,4), of k fs] recover_entries_value [of now MemTable_new es k]
    by (simp add: l'(5) log_value_def)
  with l'(1,2) show ?thesis by blast
qed

theorem lsm_open_recovers_log_witness:
  "\<exists>l'. lsm_open 7 (demo_closed, demo_log_fs) = Some (Ok (), (l', demo_log_fs))
    \<and> lsm_value demo_key (l', demo_log_fs) = Some None
    \<and> lsm_value demo_other (l', demo_log_fs) = Some (Some ''b'')"
proof -
  have "\<exists>l'. lsm_open 7 (demo_closed, demo_log_fs) = Some (Ok (), (l', demo_log_fs)) \<and> lsm_is_open l'
      \<and> (\<forall>k. lsm_value k (l', demo_log_fs) = Some (log_value demo_log k))"
    by (rule lsm_open_recovers_log [OF _ _ _ _ _ _ _ demo_log_fits])
      (simp_all add: demo_closed_def demo_lsm_def create_directories_def
        demo_log_fs_def fs_content_def files_in_def demo_paths)
  moreover have "log_value demo_log demo_key = None" "log_value demo_log demo_other = Some ''b''"
    using demo_keys
    by (simp_all add: log_value_def log_step_def demo_log_def WALEntry_def calculate_checksum_def
        WAL_PUT_def WAL_DELETE_def key_fits_def demo_entry_def demo_key_def demo_other_def
        key_to_string_def MAX_KEY_SIZE_def MAX_VALUE_SIZE_def)
  ultimately show ?thesis by auto
qed

text \<open>C12: a log that a crash cut off inside its last record. With less than the header of that
  record the engine opens with the complete records. With more, \<open>open\<close> reports \<open>STORAGE_ERROR\<close>,
  and when it is called once more it reports \<open>OK\<close>, with none of the entries of the log.\<close>

theorem lsm_open_torn_log:
  assumes "\<not> lsm_is_open l" and "\<not> lsm_held l" and "create_directories (data_dir l) fs"
    and "lsm_wal l = WAL_new p" and "create_directories (parent_path p) fs" and "\<not> fs_denied fs p"
    and "fs_content fs p = Some (concat (map wal_record es) @ take n (wal_record e))"
    and "n < length (wal_record e)" and "log_fits es" and "length (wal_serialize e) \<le> 1024 * 1024"
    and "filter (\<lambda>p. path_extension p = ''.sst'') (files_in (data_dir l) fs) = []"
    and "lsm_memtable l = MemTable_new"
  shows "if n < 8
    then \<exists>l'. lsm_open now (l, fs) = Some (Ok (), (l', fs)) \<and> lsm_is_open l'
        \<and> (\<forall>k. live_value (lsm_memtable l') k = log_value es k)
    else \<exists>l1 l2. lsm_open now (l, fs) = Some (Error STORAGE_ERROR ''Incomplete record in WAL'', (l1, fs))
        \<and> \<not> lsm_is_open l1
        \<and> lsm_open now2 (l1, fs) = Some (Ok (), (l2, fs)) \<and> lsm_is_open l2
        \<and> (\<forall>k. live_value (lsm_memtable l2) k = None)"
  using open_torn [OF assms(1-11), of now now2] assms(12) recover_entries_value [of now MemTable_new es]
  by (cases "n < 8") (auto simp: log_value_def)

definition demo_torn_fs :: fsys where
  "demo_torn_fs = \<lparr>fs_files = [(''d/wal.log'', concat (map wal_record demo_log)
      @ take 12 (wal_record (WALEntry WAL_PUT demo_key (demo_entry ''c'') 0)))],
    fs_denied = (\<lambda>p. p = ''lost''), fs_what = ''what''\<rparr>"

theorem lsm_open_torn_log_witness:
  "\<exists>l1 l2. lsm_open 7 (demo_closed, demo_torn_fs)
      = Some (Error STORAGE_ERROR ''Incomplete record in WAL'', (l1, demo_torn_fs))
    \<and> lsm_open 8 (l1, demo_torn_fs) = Some (Ok (), (l2, demo_torn_fs))
    \<and> live_value (lsm_memtable l2) demo_other = None"
proof -
  let ?e = "WALEntry WAL_PUT demo_key (demo_entry ''c'') 0"
  have len: "length (wal_serialize ?e) = 20"
    by (simp add: wal_serialize_def WALEntry_def calculate_checksum_def demo_key_def demo_entry_def)
  have "if (12 :: nat) < 8
    then \<exists>l'. lsm_open 7 (demo_closed, demo_torn_fs) = Some (Ok (), (l', demo_torn_fs)) \<and> lsm_is_open l'
        \<and> (\<forall>k. live_value (lsm_memtable l') k = log_value demo_log k)
    else \<exists>l1 l2. lsm_open 7 (demo_closed, demo_torn_fs)
          = Some (Error STORAGE_ERROR ''Incomplete record in WAL'', (l1, demo_torn_fs))
        \<and> \<not> lsm_is_open l1
        \<and> lsm_open 8 (l1, demo_torn_fs) = Some (Ok (), (l2, demo_torn_fs)) \<and> lsm_is_open l2
        \<and> (\<forall>k. live_value (lsm_memtable l2) k = None)"
    by (rule lsm_open_torn_log [of _ _ "''d/wal.log''" demo_log 12 ?e])
      (simp_all add: len demo_log_fits demo_closed_def demo_lsm_def create_directories_def
        demo_torn_fs_def fs_content_def files_in_def demo_paths)
  then show ?thesis by auto
qed

text \<open>A restore from a directory that cannot be opened fails after it has deleted every
  file of the data directory.\<close>

theorem lsm_restore_unreadable_deletes:
  assumes "\<not> lsm_is_open l" and "\<not> lsm_held l" and "\<not> fs_denied fs (data_dir l)"
    and "fs_denied fs backup_path"
  shows "\<exists>fs'. lsm_restore backup_path (l, fs)
      = Some (Error STORAGE_ERROR (''Failed to restore: '' @ fs_what fs), (l, fs'))
    \<and> (\<forall>p. below (data_dir l) p \<longrightarrow> fs_content fs' p = None)"
  using assms by (rule restore_unreadable)

theorem lsm_restore_unreadable_deletes_witness:
  "\<exists>fs'. lsm_restore ''lost'' (demo_closed, demo_log_fs)
      = Some (Error STORAGE_ERROR ''Failed to restore: what'', (demo_closed, fs'))
    \<and> fs_content demo_log_fs ''d/wal.log'' \<noteq> None \<and> fs_content fs' ''d/wal.log'' = None"
proof -
  have "\<not> lsm_is_open demo_closed" "\<not> lsm_held demo_closed"
    "\<not> fs_denied demo_log_fs (data_dir demo_closed)" "fs_denied demo_log_fs ''lost''"
    by (simp_all add: demo_closed_def demo_lsm_def demo_log_fs_def)
  from lsm_restore_unreadable_deletes [OF this] obtain fs' where
    f: "lsm_restore ''lost'' (demo_closed, demo_log_fs)
      = Some (Error STORAGE_ERROR (''Failed to restore: '' @ fs_what demo_log_fs), (demo_closed, fs'))"
    "\<forall>p. below (data_dir demo_closed) p \<longrightarrow> fs_content fs' p = None"
    by blast
  have "below (data_dir demo_closed) ''d/wal.log''"
    by (simp add: below_def demo_closed_def demo_lsm_def)
  with f(2) have "fs_content fs' ''d/wal.log'' = None" by blast
  with f(1) show ?thesis by (simp add: demo_log_fs_def fs_content_def)
qed

section \<open>The log\<close>

text \<open>C13: entries appended to an open, empty log whose keys have no zero byte and whose bodies
  have at most a megabyte are replayed in order; type, key, sequence number and value are those
  of the entry, version, timestamp and deletion flag are not (\<open>logged\<close>).\<close>

theorem wal_append_replay:
  assumes "wal_ready s" and "wal_bytes s = []" and "log_fits es"
  shows "\<exists>s1 s2. wal_append_all es s = Some (Ok (), s1)
    \<and> wal_replay_from now seq s1 =
        Some (Ok (map (logged now) (filter (\<lambda>e. seq \<le> we_seq e) es)), s2)"
proof -
  from wal_append_all_ready [OF assms(1), of es] obtain s1 where
    a: "wal_append_all es s = Some (Ok (), s1)" "wal_ready s1"
      "wal_bytes s1 = concat (map wal_record es)"
    using assms(2) by auto
  from wal_replay_ready [OF a(2,3), of now seq] assms(3) a(1) show ?thesis
    by (auto simp: log_fits_def)
qed

definition demo_wal_state :: wal_state where "demo_wal_state = (demo_wal, demo_fs)"

lemma demo_wal_ready: "wal_ready demo_wal_state" and demo_wal_empty: "wal_bytes demo_wal_state = []"
  by (simp_all add: wal_ready_def demo_wal_state_def demo_wal_def demo_fs_def fs_content_def
      file_bytes_def)

theorem wal_append_replay_witness:
  "\<exists>s1 s2. wal_append_all demo_log demo_wal_state = Some (Ok (), s1)
    \<and> wal_replay_from 7 0 s1 = Some (Ok (map (logged 7) demo_log), s2)"
  using wal_append_replay [OF demo_wal_ready demo_wal_empty demo_log_fits, of 7 0] by simp

text \<open>C14: a replay that meets a record of which one byte of the body was changed, after any
  number of undamaged records, reports a CRC mismatch and delivers nothing.\<close>

theorem wal_replay_detects_damage:
  assumes "log_fits es" and "length (wal_serialize e) \<le> 1024 * 1024"
    and "i < length (wal_serialize e)" and "wal_serialize e ! i \<noteq> c"
    and "\<not> wal_held w" and "wal_is_open w" and "st_good (wal_stream w)"
    and "file_bytes (wal_file w) fs = concat (map wal_record es) @ damaged_record e i c @ rest"
  shows "map_option fst (wal_replay_from now seq (w, fs))
    = Some (Error STORAGE_ERROR ''CRC mismatch in WAL record'')"
proof -
  let ?c = "file_bytes (wal_file w) fs" and ?st = "stream_seekg 0 (wal_stream w)"
  have st: "st_good ?st" "st_pos ?st = 0"
    using assms(7) by (simp_all add: stream_seekg_def st_good_def Let_def)
  have es: "bytes_at ?st ?c (concat (map wal_record es))"
    using st assms(8) by (intro at_start [of _ _ "[]"]) auto
  have d: "bytes_at (skip (length (concat (map wal_record es))) ?st) ?c (damaged_record e i c)"
    using st assms(8) by (intro at_start [of _ _ "concat (map wal_record es)" _ rest]) auto
  obtain acc where "replay_loop now seq ?c ?st []
      = replay_loop now seq ?c (skip (length (concat (map wal_record es))) ?st) acc"
    using replay_prefix [OF es] assms(1) by (auto simp: log_fits_def)
  moreover from replay_damaged [OF d assms(2-4)] obtain st' where
    "replay_loop now seq ?c (skip (length (concat (map wal_record es))) ?st) acc
      = (Error STORAGE_ERROR ''CRC mismatch in WAL record'', st')"
    by blast
  ultimately show ?thesis
    using assms(5,6)
    by (simp add: wal_replay_from_def guarded_def wal_mutex_held_def wal_set_held_def)
qed

lemma demo_char: "char_of (Suc 0) \<noteq> CHR 0x02"
  by (rule notI, drule arg_cong [of _ _ "of_char :: char \<Rightarrow> nat"]) simp

theorem wal_replay_detects_damage_witness:
  "map_option fst (wal_replay_from 7 0 (demo_wal, fs_put ''d/wal.log''
      (concat (map wal_record demo_log) @ damaged_record (hd demo_log) 0 CHR 0x02 @ []) demo_fs))
    = Some (Error STORAGE_ERROR ''CRC mismatch in WAL record'')"
  by (rule wal_replay_detects_damage [OF demo_log_fits, where i = 0 and c = "CHR 0x02" and rest = "[]"
        and e = "hd demo_log"])
    (simp_all add: demo_log_def wal_serialize_def WALEntry_def calculate_checksum_def
      WAL_PUT_def demo_key_def demo_entry_def demo_wal_def demo_char)

text \<open>\<open>truncate\<close> on an open log never returns: it calls \<open>replay_from\<close>, which locks the
  mutex that \<open>truncate\<close> holds. On a closed log it reports an error.\<close>

theorem wal_truncate_stuck:
  assumes "\<not> wal_held w"
  shows "map_option fst (wal_truncate now seq (w, fs)) =
    (if wal_is_open w then None else Some (Error STORAGE_ERROR ''WAL is not open''))"
proof (cases "wal_is_open w")
  case True
  then show ?thesis using wal_truncate_open_stuck [of "(w, fs)" now seq] by simp
next
  case False
  with assms show ?thesis
    by (simp add: wal_truncate_def guarded_def wal_mutex_held_def wal_set_held_def)
qed

theorem wal_truncate_stuck_witness: "wal_truncate 7 0 (demo_wal, demo_fs) = None"
proof -
  have "\<not> wal_held demo_wal" by (simp add: demo_wal_def)
  from wal_truncate_stuck [OF this, of 7 0 demo_fs] show ?thesis by (simp add: demo_wal_def)
qed

section \<open>Tables\<close>

text \<open>C15: a table that was written reads back every live entry; a key that is absent or
  deleted is not found. The same holds for a table opened from the file, when no primary key
  has a colon.\<close>

theorem sst_write_read:
  assumes "sst_fits data" and "create_directories (parent_path p) fs" and "\<not> fs_denied fs p"
  shows "\<exists>t fs'. sst_write data (SSTable_new p, fs) = (Ok (), t, fs')
    \<and> (\<forall>key. sst_reads fs' key t = Some (live (map_of data key)))
    \<and> (keys_reparse data \<longrightarrow> (\<forall>key. sst_reads fs' key (SSTable_new p)
          = Some (live (map_of data key))))"
proof -
  from sst_write_stores [OF assms(1), of "SSTable_new p" fs] assms(2,3) obtain t fs' where
    w: "sst_write data (SSTable_new p, fs) = (Ok (), t, fs')" "sst_filename t = p"
      "sst_index t = sst_index_of data" "sst_stored fs' p data"
    by (auto simp: SSTable_new_def)
  have "sst_represents fs' t (map_of data)" using w by (auto simp: sst_represents_def)
  moreover have "sst_represents fs' (SSTable_new p) (map_of data)" if "keys_reparse data"
    using w that by (auto simp: sst_represents_def SSTable_new_def)
  ultimately show ?thesis
    using w(1) sst_reads_represents by (intro exI [of _ t] exI [of _ fs']) simp
qed

theorem sst_write_read_witness:
  "\<exists>t fs'. sst_write demo_data (SSTable_new ''d/c.sst'', demo_fs) = (Ok (), t, fs')
    \<and> sst_reads fs' demo_key t = Some (Some (demo_entry ''old''))"
proof -
  have "create_directories (parent_path ''d/c.sst'') demo_fs" "\<not> fs_denied demo_fs ''d/c.sst''"
    by (simp_all add: create_directories_def parent_path_def demo_fs_def)
  from sst_write_read [OF demo_fits this] show ?thesis
    by (auto simp: demo_map demo_old_def demo_entry_def)
qed

text \<open>A table whose index is loaded from its file finds no key with a colon in its primary
  part, whatever it stores under that key.\<close>

theorem sst_colon_key_not_found:
  assumes "sst_stored fs p data" and "CHR '':'' \<in> set (primary_key key)"
  shows "map_option fst (sst_read fs key (SSTable_new p))
    = Some (Error NOT_FOUND ''Key not found in SSTable'')"
proof -
  have "sst_stored fs (sst_filename (SSTable_new p)) data" "sst_index (SSTable_new p) = []"
    using assms(1) by (simp_all add: SSTable_new_def)
  from sst_colon_key_lost [OF this, of key] assms(2) show ?thesis
    by (auto simp: colon_free_def)
qed

definition demo_colon :: table where
  "demo_colon = [(MultiLevelKey ''a:b'' ''c'', demo_entry ''v'')]"

theorem sst_colon_key_not_found_witness:
  "map_of demo_colon (MultiLevelKey ''a:b'' ''c'') = Some (demo_entry ''v'')
   \<and> map_option fst (sst_read (fs_put ''p'' (fst (sst_image demo_colon)) demo_fs)
        (MultiLevelKey ''a:b'' ''c'') (SSTable_new ''p''))
      = Some (Error NOT_FOUND ''Key not found in SSTable'')"
proof -
  have "sst_fits demo_colon"
    by (simp add: sst_fits_def sst_image_eq sst_index_of_def demo_colon_def demo_entry_def
        sst_entry_bytes_def key_to_string_def sst_index_bytes_def)
  then have "sst_stored (fs_put ''p'' (fst (sst_image demo_colon)) demo_fs) ''p'' demo_colon"
    by (simp add: sst_stored_def demo_fs_def)
  from sst_colon_key_not_found [OF this, of "MultiLevelKey ''a:b'' ''c''"] show ?thesis
    by (simp add: demo_colon_def)
qed

text \<open>A range scan of a memtable with \<open>start_key \<le> end_key\<close> returns the live ones among
  the first \<open>limit\<close> entries of the range. The end key always belongs to the range, and
  tombstones use up the limit.\<close>

theorem memtable_scan_result:
  assumes "memtable_wf mt" and "start_key q \<le> end_key q"
  shows "memtable_range_scan q mt = Some (Ok (filter (\<lambda>x. \<not> deleted (snd x))
    (take (unat (limit q)) (filter (\<lambda>x.
       (if inclusive_start q then start_key q \<le> fst x else start_key q < fst x)
       \<and> fst x \<le> end_key q) (mt_data mt)))))"
  using memtable_range_scan_result [OF assms] by (simp add: scan_keys_def)

theorem memtable_scan_result_witness:
  "memtable_range_scan demo_query demo_mt = Some (Ok [(demo_other, demo_entry ''new'')])"
proof -
  have "start_key demo_query \<le> end_key demo_query"
    by (simp add: demo_query_def RangeQuery_default_def less_eq_multi_level_key_def key_order_lex)
  from memtable_scan_result [OF demo_mt_wf this] show ?thesis
    by (simp add: demo_mt_data demo_query_def RangeQuery_default_def demo_other_def demo_entry_def
        less_eq_multi_level_key_def key_order_lex)
qed

text \<open>The operations that change a memtable, as a sequence.\<close>

datatype mem_op = MemPut multi_level_key data_entry | MemRemove time_point multi_level_key | MemClear

fun mem_step :: "memtable \<Rightarrow> mem_op \<Rightarrow> memtable" where
  "mem_step mt (MemPut k e) = snd (memtable_put k e mt)"
| "mem_step mt (MemRemove now k) = snd (memtable_remove now k mt)"
| "mem_step mt MemClear = memtable_clear mt"

text \<open>What the sequence means for one key: the entry that \<open>get\<close> has to find.\<close>

fun mem_spec :: "multi_level_key \<Rightarrow> data_entry option \<Rightarrow> mem_op \<Rightarrow> data_entry option" where
  "mem_spec k eo (MemPut k' e) = (if k' = k \<and> key_fits k e then live (Some e) else eo)"
| "mem_spec k eo (MemRemove now k') = (if k' = k then None else eo)"
| "mem_spec k eo MemClear = None"

lemma mem_step_spec:
  "found (memtable_get k (mem_step mt x)) = mem_spec k (found (memtable_get k mt)) x"
proof (cases x)
  case (MemPut k' e)
  obtain r mt' where p: "memtable_put k' e mt = (r, mt')" by fastforce
  have fits: "is_ok r \<longleftrightarrow> key_fits k' e" using memtable_put_ok_iff [of k' e mt] p by simp
  show ?thesis
  proof (cases "is_ok r")
    case True
    with memtable_put_contents [OF p] fits p MemPut show ?thesis by (cases "k' = k") simp_all
  next
    case False
    with memtable_put_fail [OF p] fits p MemPut show ?thesis by (cases "k' = k") simp_all
  qed
next
  case (MemRemove now k')
  obtain r mt' where p: "memtable_remove now k' mt = (r, mt')" by fastforce
  from memtable_remove_contents [OF p] p MemRemove show ?thesis by auto
next
  case MemClear
  then show ?thesis by (simp add: memtable_clear_def memtable_contents_def)
qed

lemma mem_step_wf: "memtable_wf mt \<Longrightarrow> memtable_wf (mem_step mt x)"
  by (cases x) (auto intro: memtable_wf_put [OF _ prod.collapse [symmetric]]
      memtable_wf_remove [OF _ prod.collapse [symmetric]])

text \<open>C17: after any sequence of operations on a new memtable, \<open>get\<close> finds what the sequence says
  (the last accepted put of the key with no removal or clear after it), the keys are in order,
  and the memory estimate is the sum of the sizes of the entries, modulo \<open>2^64\<close>.\<close>

theorem memtable_refines_map:
  "found (memtable_get k (foldl mem_step MemTable_new ops)) = foldl (mem_spec k) None ops
   \<and> om_sorted (mt_data (foldl mem_step MemTable_new ops))
   \<and> memory_usage (foldl mem_step MemTable_new ops)
      = sum_list (map entry_cost (mt_data (foldl mem_step MemTable_new ops)))"
proof -
  have "found (memtable_get k (foldl mem_step mt ops)) = foldl (mem_spec k) (found (memtable_get k mt)) ops"
    for mt
  proof (induction ops arbitrary: mt)
    case (Cons x ops)
    then show ?case by (simp only: foldl_Cons mem_step_spec)
  qed simp
  moreover have "memtable_wf (foldl mem_step MemTable_new ops)"
    by (rule foldl_invariant) (auto intro: mem_step_wf)
  ultimately show ?thesis by (simp add: memtable_wf_def)
qed

text \<open>C18: the table-driven checksum is the CRC-32C computed bit by bit with the reflected
  polynomial, and it can be continued over a split of the data.\<close>

theorem crc32c_correct:
  "Crc32c data = crc32c_bits data \<and> Extend (Crc32c data) rest = Crc32c (data @ rest)"
  using crc32c_eq_bits [of data] crc32c_extend [of data rest] by (rule conjI)

end
