(* ===== verification/Engine_Runs.thy ===== *)
theory Engine_Runs
  imports Storage_Properties
begin

text \<open>
  The storage engine over whole runs of client calls, against two abstract stores.

  \<open>call_simulation\<close> is the contract of a component that simulates an abstract machine call by
  call; inside it every run of calls is shown to return and to be a run of the machine. It is
  interpreted for the engine and the \<^emph>\<open>two-level store\<close>: recent writes over settled ones, where a
  tombstone hides nothing of the settled level, and a flush moves everything down. That is what
  the engine implements. The \<^emph>\<open>plain store\<close> (\<open>kv_step\<close>) is a map; the engine agrees with it on runs
  that remove no key that may have been flushed (\<open>kv_safe\<close>).

  Runs here have no compaction, which hides entries; \<open>Durable_Runs\<close> has runs with it.
\<close>

section \<open>Simulation, call by call\<close>

fun run_calls :: "('c \<Rightarrow> ('s, 'a) op) \<Rightarrow> 'c list \<Rightarrow> ('s, 'a list) op" where
  "run_calls step [] s = Some ([], s)"
| "run_calls step (c # cs) s =
     do { (a, s) \<leftarrow> step c s; (as, s) \<leftarrow> run_calls step cs s; Some (a # as, s) }"

text \<open>Every call of the run is admissible in the state it is made in.\<close>

fun all_admissible :: "('c \<Rightarrow> ('s, 'a) op) \<Rightarrow> ('c \<Rightarrow> 's \<Rightarrow> bool) \<Rightarrow> 'c list \<Rightarrow> 's \<Rightarrow> bool" where
  "all_admissible step ok [] s = True"
| "all_admissible step ok (c # cs) s =
     (ok c s \<and> (case step c s of None \<Rightarrow> True | Some (_, s') \<Rightarrow> all_admissible step ok cs s'))"

inductive machine_run ::
    "('m \<Rightarrow> 'c \<Rightarrow> 'a \<Rightarrow> 'm \<Rightarrow> bool) \<Rightarrow> 'm \<Rightarrow> 'c list \<Rightarrow> 'a list \<Rightarrow> 'm \<Rightarrow> bool"
  for machine :: "'m \<Rightarrow> 'c \<Rightarrow> 'a \<Rightarrow> 'm \<Rightarrow> bool" where
  run_nil: "machine_run machine m [] [] m"
| run_cons: "machine m c a m' \<Longrightarrow> machine_run machine m' cs as m'' \<Longrightarrow>
    machine_run machine m (c # cs) (a # as) m''"

inductive_cases machine_run_NilE: "machine_run machine m [] as m'"
inductive_cases machine_run_ConsE: "machine_run machine m (c # cs) as m'"

locale call_simulation =
  fixes step :: "'c \<Rightarrow> ('s, 'a) op" and ok :: "'c \<Rightarrow> 's \<Rightarrow> bool"
    and machine :: "'m \<Rightarrow> 'c \<Rightarrow> 'a \<Rightarrow> 'm \<Rightarrow> bool" and sim :: "'s \<Rightarrow> 'm \<Rightarrow> bool"
  assumes simulates: "sim s m \<Longrightarrow> ok c s \<Longrightarrow>
    \<exists>a s' m'. step c s = Some (a, s') \<and> machine m c a m' \<and> sim s' m'"
begin

lemma run_simulates:
  "sim s m \<Longrightarrow> all_admissible step ok cs s \<Longrightarrow>
   \<exists>as s' m'. run_calls step cs s = Some (as, s') \<and> machine_run machine m cs as m' \<and> sim s' m'"
proof (induction cs arbitrary: s m)
  case Nil
  then show ?case by (auto intro: run_nil)
next
  case (Cons c cs)
  then obtain a s1 m1 where c: "step c s = Some (a, s1)" "machine m c a m1" "sim s1 m1"
    using simulates [of s m c] by auto
  from Cons.prems(2) c(1) have "all_admissible step ok cs s1" by simp
  from Cons.IH [OF c(3) this] obtain as s' m' where
    "run_calls step cs s1 = Some (as, s')" "machine_run machine m1 cs as m'" "sim s' m'" by blast
  with c(1,2) show ?case by (auto intro: run_cons)
qed

end

section \<open>The calls of a client\<close>

datatype store_call =
    Put multi_level_key data_entry
  | Remove time_point multi_level_key
  | Get multi_level_key
  | Scan range_query
  | Flush "int \<Rightarrow> string" time_point time_point time_point

datatype store_answer = Wrote "unit result" | Found "data_entry result" | Listed "table result"

definition engine_call :: "store_call \<Rightarrow> (lsm_state, store_answer) op" where
  "engine_call c s =
     (case c of
        Put k e \<Rightarrow> map_option (apfst Wrote) (lsm_put k e s)
      | Remove now k \<Rightarrow> map_option (apfst Wrote) (lsm_remove now k s)
      | Get k \<Rightarrow> map_option (apfst Found) (lsm_get k s)
      | Scan q \<Rightarrow> map_option (apfst Listed) (lsm_range_scan q s)
      | Flush stamp now1 now2 now3 \<Rightarrow> map_option (apfst Wrote) (lsm_flush stamp now1 now2 now3 s))"

text \<open>A flush goes to new files and its memtables fit their format; a scan has room for the range.\<close>

definition engine_admissible :: "store_call \<Rightarrow> lsm_state \<Rightarrow> bool" where
  "engine_admissible c s \<longleftrightarrow>
     (case c of
        Scan q \<Rightarrow> start_key q \<le> end_key q \<and> (\<forall>ms. lsm_layers s ms \<longrightarrow> (\<forall>m \<in> set ms. range_room q m))
      | Flush stamp now1 now2 now3 \<Rightarrow> tables_fit (fst s) \<and> fresh_names stamp now1 now2 (fst s)
      | _ \<Rightarrow> True)"

section \<open>The two-level store\<close>

type_synonym contents = "multi_level_key \<Rightarrow> data_entry option"
type_synonym two_level = "contents \<times> contents"

definition visible :: "two_level \<Rightarrow> contents" where
  "visible = (\<lambda>(recent, settled) k.
     case live (recent k) of Some e \<Rightarrow> Some e | None \<Rightarrow> settled k)"

lemma visible_layers: "visible (m, first_live ms) = first_live (m # ms)"
  by (rule ext) (simp add: visible_def)

lemma visible_settled: "visible (\<lambda>k. None, settled) = settled"
  by (simp add: visible_def)

inductive two_level_step :: "two_level \<Rightarrow> store_call \<Rightarrow> store_answer \<Rightarrow> two_level \<Rightarrow> bool" where
  put_fits: "key_fits k e \<Longrightarrow> two_level_step (recent, settled) (Put k e) (Wrote (Ok ())) (recent(k \<mapsto> e), settled)"
| put_refused: "\<not> key_fits k e \<Longrightarrow> two_level_step m (Put k e) (Wrote (Error st msg)) m"
| remove_marks: "deleted d \<Longrightarrow>
    two_level_step (recent, settled) (Remove now k) (Wrote (Ok ())) (recent(k \<mapsto> d), settled)"
| get_visible: "two_level_step m (Get k) (Found (lsm_answer (visible m k))) m"
| scan_visible: "om_sorted xs \<Longrightarrow>
    map_of xs = (\<lambda>k. if scan_keys q k then visible m k else None) \<Longrightarrow>
    two_level_step m (Scan q) (Listed (Ok (take (unat (limit q)) xs))) m"
| flush_settles: "two_level_step m (Flush stamp now1 now2 now3) (Wrote r) (\<lambda>k. None, visible m)"
| flush_waits: "two_level_step m (Flush stamp now1 now2 now3) (Wrote r) m"

definition engine_sim :: "lsm_state \<Rightarrow> two_level \<Rightarrow> bool" where
  "engine_sim s m \<longleftrightarrow> lsm_running s \<and> (\<exists>r ms. lsm_layers s (r # ms) \<and> m = (r, first_live ms))"

lemma engine_simI: "lsm_running s \<Longrightarrow> lsm_layers s (r # ms) \<Longrightarrow> engine_sim s (r, first_live ms)"
  by (auto simp: engine_sim_def)

lemma engine_sim_reads: "engine_sim s m \<Longrightarrow> lsm_reads k s = Some (lsm_answer (visible m k))"
  by (auto simp: engine_sim_def visible_layers reads_layers simp del: first_live.simps)

text \<open>One lemma per call of the engine.\<close>

lemma sim_put:
  assumes "lsm_running s" and "lsm_layers s (r # ms)"
  shows "\<exists>a s' m'. engine_call (Put k e) s = Some (a, s')
    \<and> two_level_step (r, first_live ms) (Put k e) a m' \<and> engine_sim s' m'"
proof -
  from put_layers [OF assms, of k e] obtain w s' where
    p: "lsm_put k e s = Some (w, s')" "lsm_running s'" "is_ok w \<longleftrightarrow> key_fits k e"
      "lsm_layers s' ((if is_ok w then r(k \<mapsto> e) else r) # ms)"
    by blast
  show ?thesis
  proof (cases w)
    case (Ok u)
    with p show ?thesis
      by (intro exI [of _ "Wrote (Ok ())"] exI [of _ s'] exI [of _ "(r(k \<mapsto> e), first_live ms)"])
        (auto simp: engine_call_def intro: put_fits engine_simI)
  next
    case (Error st msg)
    with p show ?thesis
      by (intro exI [of _ "Wrote (Error st msg)"] exI [of _ s'] exI [of _ "(r, first_live ms)"])
        (auto simp: engine_call_def intro: put_refused engine_simI)
  qed
qed

lemma sim_remove:
  assumes "lsm_running s" and "lsm_layers s (r # ms)"
  shows "\<exists>a s' m'. engine_call (Remove now k) s = Some (a, s')
    \<and> two_level_step (r, first_live ms) (Remove now k) a m' \<and> engine_sim s' m'"
proof -
  from remove_layers [OF assms, of now k] obtain s' d where
    "lsm_remove now k s = Some (Ok (), s')" "lsm_running s'" "deleted d" "lsm_layers s' (r(k \<mapsto> d) # ms)"
    by blast
  then show ?thesis
    by (intro exI [of _ "Wrote (Ok ())"] exI [of _ s'] exI [of _ "(r(k \<mapsto> d), first_live ms)"])
      (auto simp: engine_call_def intro: remove_marks engine_simI)
qed

lemma sim_get:
  assumes "lsm_running s" and "lsm_layers s (r # ms)"
  shows "\<exists>a s' m'. engine_call (Get k) s = Some (a, s')
    \<and> two_level_step (r, first_live ms) (Get k) a m' \<and> engine_sim s' m'"
proof -
  let ?m = "(r, first_live ms)"
  from get_layers [OF assms, of k] obtain s' where
    g: "lsm_get k s = Some (lsm_answer (visible ?m k), s')" "lsm_running s'" "lsm_layers s' (r # ms)"
    unfolding visible_layers by blast
  then have "engine_call (Get k) s = Some (Found (lsm_answer (visible ?m k)), s')" "engine_sim s' ?m"
    by (simp_all add: engine_call_def engine_simI)
  with get_visible [of ?m k] show ?thesis by blast
qed

lemma sim_scan:
  assumes "lsm_running s" and "lsm_layers s (r # ms)" and "engine_admissible (Scan q) s"
  shows "\<exists>a s' m'. engine_call (Scan q) s = Some (a, s')
    \<and> two_level_step (r, first_live ms) (Scan q) a m' \<and> engine_sim s' m'"
proof -
  let ?m = "(r, first_live ms)"
  have "start_key q \<le> end_key q" "\<forall>m \<in> set (r # ms). range_room q m"
    using assms(2,3) by (simp_all add: engine_admissible_def)
  from range_scan_layers [OF assms(1,2) this] obtain xs s' where
    x: "lsm_range_scan q s = Some (Ok (take (unat (limit q)) xs), s')" "merged_of q (r # ms) xs"
      "lsm_running s'" "lsm_layers s' (r # ms)"
    by blast
  have "two_level_step ?m (Scan q) (Listed (Ok (take (unat (limit q)) xs))) ?m"
    using x(2) by (intro scan_visible) (auto simp: merged_of_def visible_layers simp del: first_live.simps)
  moreover have "engine_call (Scan q) s = Some (Listed (Ok (take (unat (limit q)) xs)), s')" "engine_sim s' ?m"
    using x by (simp_all add: engine_call_def engine_simI)
  ultimately show ?thesis by blast
qed

lemma sim_flush:
  assumes "lsm_running s" and "lsm_layers s (r # ms)"
    and "engine_admissible (Flush stamp now1 now2 now3) s"
  shows "\<exists>a s' m'. engine_call (Flush stamp now1 now2 now3) s = Some (a, s')
    \<and> two_level_step (r, first_live ms) (Flush stamp now1 now2 now3) a m' \<and> engine_sim s' m'"
proof -
  let ?m = "(r, first_live ms)"
  have "tables_fit (fst s)" "fresh_names stamp now1 now2 (fst s)"
    using assms(3) by (simp_all add: engine_admissible_def)
  from flush_layers [OF assms(1,2) this, of now3] obtain w s' ms' where
    f: "lsm_flush stamp now1 now2 now3 s = Some (w, s')" "lsm_running s'" "lsm_layers s' ms'"
      "ms' = r # ms \<or> ms' = (\<lambda>k. None) # r # ms"
    by blast
  have c: "engine_call (Flush stamp now1 now2 now3) s = Some (Wrote w, s')"
    using f(1) by (simp add: engine_call_def)
  from f(4) show ?thesis
  proof
    assume "ms' = r # ms"
    with f have "engine_sim s' ?m" by (simp add: engine_simI)
    with c flush_waits show ?thesis by blast
  next
    assume "ms' = (\<lambda>k. None) # r # ms"
    with f(2,3) have "engine_sim s' (\<lambda>k. None, visible ?m)"
      unfolding visible_layers by (auto intro: engine_simI simp del: first_live.simps)
    with c flush_settles show ?thesis by blast
  qed
qed

interpretation engine: call_simulation engine_call engine_admissible two_level_step engine_sim
proof (unfold_locales, goal_cases)
  case (1 s m c)
  then obtain r ms where "lsm_running s" "lsm_layers s (r # ms)" "m = (r, first_live ms)"
    by (auto simp: engine_sim_def)
  with 1(2) show ?case
    by (cases c) (simp_all only: sim_put sim_remove sim_get sim_scan sim_flush)
qed

text \<open>Every run of puts, removals, reads, scans and flushes on an open engine returns, with the
  answers of the two-level store: a read sees the last live write, writes survive flushes, failed
  ones included, and a removal takes back what was written since the last flush.\<close>

theorem engine_refines_two_level:
  assumes "lsm_running s" and "lsm_layers s (m # ms)"
    and "all_admissible engine_call engine_admissible cs s"
  shows "\<exists>as s' recent settled. run_calls engine_call cs s = Some (as, s')
    \<and> machine_run two_level_step (m, first_live ms) cs as (recent, settled)
    \<and> lsm_running s'
    \<and> (\<forall>k. lsm_reads k s' = Some (lsm_answer (visible (recent, settled) k)))"
proof -
  from engine.run_simulates [OF engine_simI [OF assms(1,2)] assms(3)] obtain as s' m' where
    r: "run_calls engine_call cs s = Some (as, s')"
      "machine_run two_level_step (m, first_live ms) cs as m'" "engine_sim s' m'"
    by blast
  from engine_sim_reads [OF r(3)] r show ?thesis by (cases m') (auto simp: engine_sim_def)
qed

section \<open>The plain store\<close>

definition kv_step :: "contents \<Rightarrow> store_call \<Rightarrow> contents" where
  "kv_step v c =
     (case c of
        Put k e \<Rightarrow> if key_fits k e then v(k := live (Some e)) else v
      | Remove now k \<Rightarrow> v(k := None)
      | _ \<Rightarrow> v)"

text \<open>\<open>S\<close> are the keys that may be settled, \<open>T\<close> those that may have been touched at all. The run
  deletes no settled key.\<close>

fun kv_safe :: "multi_level_key set \<Rightarrow> multi_level_key set \<Rightarrow> store_call list \<Rightarrow> bool" where
  "kv_safe S T [] = True"
| "kv_safe S T (c # cs) =
     (case c of
        Put k e \<Rightarrow> (deleted e \<longrightarrow> k \<notin> S) \<and> kv_safe S (insert k T) cs
      | Remove now k \<Rightarrow> k \<notin> S \<and> kv_safe S (insert k T) cs
      | Flush stamp now1 now2 now3 \<Rightarrow> kv_safe (S \<union> T) T cs
      | _ \<Rightarrow> kv_safe S T cs)"

lemma visible_dom: "dom (visible (r, b)) \<subseteq> dom r \<union> dom b"
  by (auto simp: visible_def live_def split: option.splits if_splits)

lemma kv_safe_mono: "kv_safe S T cs \<Longrightarrow> S' \<subseteq> S \<Longrightarrow> T' \<subseteq> T \<Longrightarrow> kv_safe S' T' cs"
proof (induction cs arbitrary: S T S' T')
  case (Cons c cs)
  show ?case
  proof (cases c)
    case (Put k e)
    with Cons.prems Cons.IH [of S "insert k T" S' "insert k T'"] show ?thesis by auto
  next
    case (Remove now k)
    with Cons.prems Cons.IH [of S "insert k T" S' "insert k T'"] show ?thesis by auto
  next
    case (Flush stamp now1 now2 now3)
    with Cons.prems Cons.IH [of "S \<union> T" T "S' \<union> T'" T'] show ?thesis by auto
  qed (use Cons in auto)
qed simp

lemma two_level_plain:
  assumes "machine_run two_level_step m cs as m'" and "kv_safe (dom (snd m)) (dom (fst m)) cs"
  shows "visible m' = foldl kv_step (visible m) cs"
  using assms
proof (induction rule: machine_run.induct)
  case (run_cons m c a m1 cs as m'')
  have "kv_safe (dom (snd m1)) (dom (fst m1)) cs \<and> visible m1 = kv_step (visible m) c"
    using run_cons.hyps(1) run_cons.prems
  proof (cases rule: two_level_step.cases)
    case (put_fits k e recent settled)
    with run_cons.prems show ?thesis
      by (auto simp: kv_step_def visible_def fun_eq_iff domIff split: option.splits)
  next
    case (put_refused k e st msg)
    with run_cons.prems show ?thesis
      by (auto simp: kv_step_def intro: kv_safe_mono [OF _ subset_refl subset_insertI])
  next
    case (remove_marks d recent settled now k)
    with run_cons.prems show ?thesis
      by (auto simp: kv_step_def visible_def fun_eq_iff domIff split: option.splits)
  next
    case (get_visible k)
    with run_cons.prems show ?thesis by (simp add: kv_step_def)
  next
    case (scan_visible xs q)
    with run_cons.prems show ?thesis by (simp add: kv_step_def)
  next
    case (flush_settles stamp now1 now2 now3 r)
    have "kv_safe (dom (snd m) \<union> dom (fst m)) (dom (fst m)) cs"
      using run_cons.prems flush_settles by simp
    then have "kv_safe (dom (visible m)) {} cs"
      by (rule kv_safe_mono) (use visible_dom [of "fst m" "snd m"] in auto)
    then show ?thesis using flush_settles by (simp add: kv_step_def visible_settled)
  next
    case (flush_waits stamp now1 now2 now3 r)
    with run_cons.prems show ?thesis
      by (auto simp: kv_step_def intro: kv_safe_mono [OF _ Un_upper1 subset_refl])
  qed
  with run_cons.IH show ?case by simp
qed simp

text \<open>C4: on a run that deletes no key that may have been flushed before, the engine is a plain
  store: every call returns, and afterwards every key reads as the last write of the run left it. The
  calls of the run have to be admissible (\<open>engine_admissible\<close>): every flush writes its tables under new
  file names (two flushes in one millisecond can choose the same name) and its tables fit the file
  format, and the limit of every scan has room for its range in each layer.\<close>

theorem engine_refines_plain:
  assumes "lsm_running s" and "lsm_layers s (m # ms)"
    and "all_admissible engine_call engine_admissible cs s"
    and "kv_safe (dom (first_live ms)) (dom m) cs"
  shows "\<exists>as s'. run_calls engine_call cs s = Some (as, s') \<and> lsm_running s'
    \<and> (\<forall>k. lsm_reads k s' = Some (lsm_answer (foldl kv_step (first_live (m # ms)) cs k)))"
proof -
  from engine.run_simulates [OF engine_simI [OF assms(1,2)] assms(3)] obtain as s' m' where
    r: "run_calls engine_call cs s = Some (as, s')"
      "machine_run two_level_step (m, first_live ms) cs as m'" "engine_sim s' m'"
    by blast
  have "visible m' = foldl kv_step (first_live (m # ms)) cs"
    using two_level_plain [OF r(2)] assms(4) unfolding visible_layers by simp
  with engine_sim_reads [OF r(3)] r show ?thesis by (auto simp: engine_sim_def)
qed

section \<open>A run\<close>

definition run_key :: multi_level_key where "run_key = MultiLevelKey ''user'' ''phone''"

definition demo_calls :: "store_call list" where
  "demo_calls = [Flush (\<lambda>t. ''t'') 0 0 0, Put demo_key (demo_entry ''v''), Put run_key (demo_entry ''p''),
     Remove 0 run_key, Get demo_key]"

lemma demo_admissible: "all_admissible engine_call engine_admissible demo_calls demo_state"
proof -
  have "fresh_names (\<lambda>t. ''t'') 0 0 (fst demo_state)"
    by (simp add: fresh_names_def generate_sstable_filename_def demo_state_def demo_lsm_def
        demo_wal_def demo_table_def)
  with demo_tables_fit show ?thesis
    by (simp add: demo_calls_def engine_admissible_def split: option.split)
qed

theorem engine_refines_two_level_witness:
  "\<exists>as s' recent settled. run_calls engine_call demo_calls demo_state = Some (as, s')
    \<and> machine_run two_level_step (demo_new, first_live [demo_old, demo_old]) demo_calls as (recent, settled)"
  using engine_refines_two_level [OF demo_running demo_layers demo_admissible] by blast

theorem engine_refines_plain_witness:
  "\<exists>as s'. run_calls engine_call demo_calls demo_state = Some (as, s')
    \<and> lsm_reads demo_key s' = Some (Ok (demo_entry ''v''))
    \<and> lsm_reads run_key s' = Some (Error NOT_FOUND ''Key not found'')"
proof -
  have d: "dom (first_live [demo_old, demo_old]) \<subseteq> {demo_key}" "dom demo_new \<subseteq> {demo_other}"
    by (auto simp: demo_old_def demo_new_def split: if_splits)
  have k: "run_key \<noteq> demo_key" "run_key \<noteq> demo_other"
    by (simp_all add: run_key_def demo_key_def demo_other_def)
  then have "kv_safe {demo_key} {demo_other} demo_calls"
    by (simp add: demo_calls_def demo_entry_def)
  then have "kv_safe (dom (first_live [demo_old, demo_old])) (dom demo_new) demo_calls"
    using d by (rule kv_safe_mono)
  from engine_refines_plain [OF demo_running demo_layers demo_admissible this] obtain as s' where
    r: "run_calls engine_call demo_calls demo_state = Some (as, s')"
      "\<forall>k. lsm_reads k s' = Some (lsm_answer
        (foldl kv_step (first_live [demo_new, demo_old, demo_old]) demo_calls k))"
    by blast
  have "foldl kv_step v demo_calls demo_key = Some (demo_entry ''v'')"
    "foldl kv_step v demo_calls run_key = None" for v
    using k by (simp_all add: demo_calls_def kv_step_def key_fits_def demo_key_def demo_entry_def
        run_key_def key_to_string_def MAX_KEY_SIZE_def MAX_VALUE_SIZE_def)
  with r show ?thesis by (simp del: first_live.simps)
qed

end
