(* ===== verification/Durability.thy ===== *)
theory Durability
  imports Engine_Runs
begin

text \<open>
  The storage engine over several lifetimes of the process: sessions of client calls and passes of
  the background thread, ended by \<open>close\<close> or by a crash, each followed by a new engine on the same
  directory. \<open>in_order\<close> is the invariant that ties the directory to the engine: its table files, sorted
  by name, are those that compaction took out of the engine followed by the tables of the engine, and
  the log is empty (nothing is ever logged after \<open>open\<close>). \<open>durable\<close> says what the memtable, the tables
  and the files of former tables hold.

  Here every table file can be written; \<open>close_hides_failed_flush\<close> in \<open>Durable_Runs\<close> says what \<open>close\<close>
  does when one cannot.
\<close>

section \<open>The directory of an engine\<close>

definition table_files :: "string \<Rightarrow> fsys \<Rightarrow> string set" where
  "table_files dir fs =
     {p. fs_content fs p \<noteq> None \<and> parent_path p = dir \<and> path_extension p = ''.sst''}"

definition log_path :: "string \<Rightarrow> string" where
  "log_path dir = dir @ ''/wal.log''"

text \<open>A table file as it can be loaded again: no primary key has a colon.\<close>

definition file_holds :: "fsys \<Rightarrow> string \<Rightarrow> contents \<Rightarrow> bool" where
  "file_holds fs p m \<longleftrightarrow> (\<exists>data. sst_stored fs p data \<and> keys_reparse data \<and> m = map_of data)"

text \<open>The contents of the tables are given from new to old, their names from old to new.\<close>

definition dir_holds :: "string \<Rightarrow> fsys \<Rightarrow> string list \<Rightarrow> contents list \<Rightarrow> bool" where
  "dir_holds dir fs names ms \<longleftrightarrow> distinct (map fst (fs_files fs)) \<and> create_directories dir fs
     \<and> sorted_wrt (<) names \<and> set names = table_files dir fs
     \<and> list_all2 (file_holds fs) (rev names) ms
     \<and> fs_content fs (log_path dir) \<in> {None, Some []} \<and> \<not> fs_denied fs (log_path dir)"

text \<open>Files that compaction took out of the engine (\<open>olds\<close>, from old to new) stay in the directory; their
  names come before those of the tables.\<close>

definition in_order :: "string list \<Rightarrow> lsm_state \<Rightarrow> bool" where
  "in_order olds s \<longleftrightarrow> distinct (map fst (fs_files (snd s))) \<and> create_directories (data_dir (fst s)) (snd s)
     \<and> sorted_wrt (<) (olds @ map sst_filename (sstables (fst s)))
     \<and> set (olds @ map sst_filename (sstables (fst s))) = table_files (data_dir (fst s)) (snd s)
     \<and> wal_file (lsm_wal (fst s)) = log_path (data_dir (fst s))
     \<and> fs_content (snd s) (log_path (data_dir (fst s))) = Some []
     \<and> \<not> fs_denied (snd s) (log_path (data_dir (fst s)))
     \<and> st_fail (wal_stream (lsm_wal (fst s)))
     \<and> immutable_memtable (fst s) = None"

definition plain_keys :: "contents \<Rightarrow> bool" where
  "plain_keys m \<longleftrightarrow> (\<forall>k \<in> dom m. colon_free k)"

lemma plain_keys_simps [simp]:
  "plain_keys (\<lambda>k. None)"
  "colon_free k \<Longrightarrow> plain_keys m \<Longrightarrow> plain_keys (m(k \<mapsto> e))"
  by (auto simp: plain_keys_def split: if_splits)

text \<open>What the files of those tables hold, from new to old.\<close>

definition on_disk :: "lsm_state \<Rightarrow> contents list \<Rightarrow> bool" where
  "on_disk s hs \<longleftrightarrow> (\<exists>olds. in_order olds s \<and> list_all2 (file_holds (snd s)) (rev olds) hs)"

lemma on_disk_none: "on_disk s [] \<longleftrightarrow> in_order [] s"
  by (simp add: on_disk_def)

lemma on_disk_fields:
  assumes "on_disk s hs"
  shows "st_fail (wal_stream (lsm_wal (fst s)))" and "immutable_memtable (fst s) = None"
  using assms by (auto simp: on_disk_def in_order_def)

definition durable_data :: "lsm_state \<Rightarrow> contents \<Rightarrow> contents list \<Rightarrow> contents list \<Rightarrow> bool" where
  "durable_data s r ms hs \<longleftrightarrow> wal_usable (fst s) \<and> lsm_layers s (r # ms) \<and> on_disk s hs \<and> plain_keys r
     \<and> list_all plain_keys (ms @ hs)"

definition durable :: "lsm_state \<Rightarrow> contents \<Rightarrow> contents list \<Rightarrow> contents list \<Rightarrow> bool" where
  "durable s r ms hs \<longleftrightarrow> lsm_is_open (fst s) \<and> \<not> lsm_held (fst s) \<and> \<not> stop_background (fst s)
     \<and> durable_data s r ms hs"

lemma durable_iff:
  "durable s r ms hs \<longleftrightarrow> lsm_running s \<and> lsm_layers s (r # ms) \<and> on_disk s hs \<and> plain_keys r
     \<and> list_all plain_keys (ms @ hs) \<and> \<not> stop_background (fst s)"
  by (cases s) (auto simp: durable_def durable_data_def lsm_running_iff)

lemma durable_data_flags [simp]:
  "durable_data (l\<lparr>lsm_held := b\<rparr>, fs) r ms hs = durable_data (l, fs) r ms hs"
  "durable_data (l\<lparr>stop_background := b\<rparr>, fs) r ms hs = durable_data (l, fs) r ms hs"
  "durable_data (l\<lparr>background_thread := b\<rparr>, fs) r ms hs = durable_data (l, fs) r ms hs"
  by (simp_all add: durable_data_def lsm_layers_def on_disk_def in_order_def wal_usable_def)

lemma sort_unique:
  "distinct xs \<Longrightarrow> sorted_wrt (<) ys \<Longrightarrow> set xs = set ys \<Longrightarrow> sort xs = (ys :: 'a::linorder list)"
  by (rule sorted_distinct_set_unique) (simp_all add: strict_sorted_iff)

lemma files_in_tables:
  "set (filter (\<lambda>p. path_extension p = ''.sst'') (files_in dir fs)) = table_files dir fs"
  by (auto simp: files_in_def table_files_def fs_content_def map_of_eq_None_iff)

lemma sorted_files:
  assumes "distinct (map fst (fs_files fs))" and "sorted_wrt (<) names"
    and "set names = table_files dir fs"
  shows "sort (filter (\<lambda>p. path_extension p = ''.sst'') (files_in dir fs)) = names"
proof (rule sort_unique)
  show "distinct (filter (\<lambda>p. path_extension p = ''.sst'') (files_in dir fs))"
    using assms(1) by (simp add: files_in_def)
qed (simp_all only: assms files_in_tables)

lemma takeWhile_append_Cons: "\<forall>x \<in> set xs. P x \<Longrightarrow> \<not> P y \<Longrightarrow> takeWhile P (xs @ y # ys) = xs"
  by (induction xs) auto

lemma parent_path_slash: "CHR ''/'' \<notin> set f \<Longrightarrow> parent_path (d @ CHR ''/'' # f) = d"
proof -
  assume "CHR ''/'' \<notin> set f"
  then have "dropWhile (\<lambda>c. c \<noteq> CHR ''/'') (rev f @ CHR ''/'' # rev d) = CHR ''/'' # rev d"
    by (subst dropWhile_append2) auto
  then show ?thesis by (simp add: parent_path_def)
qed

lemma path_filename_slash: "CHR ''/'' \<notin> set f \<Longrightarrow> path_filename (d @ CHR ''/'' # f) = f"
  unfolding path_filename_def by (simp, subst takeWhile_append_Cons) auto

lemma log_path_parent: "parent_path (log_path d) = d"
  by (simp add: log_path_def parent_path_slash)

lemma log_path_extension: "path_extension (log_path d) = ''.log''"
  by (simp add: log_path_def path_extension_def path_filename_slash Let_def)

lemma log_no_table: "log_path d \<notin> table_files dir fs"
  by (simp add: table_files_def log_path_extension)

section \<open>Loading the tables\<close>

lemma keys_reparse_map: "plain_keys (map_of data) \<Longrightarrow> distinct (map fst data) \<Longrightarrow> keys_reparse data"
  by (auto simp: plain_keys_def keys_reparse_def dom_map_of_conv_image_fst)

lemma file_holds_represented:
  assumes "sst_represents fs t m" and "plain_keys m"
  shows "file_holds fs (sst_filename t) m"
proof -
  from assms(1) obtain data where d: "sst_stored fs (sst_filename t) data" "m = map_of data"
    by (auto simp: sst_represents_def)
  then have "distinct (map fst data)" by (simp add: sst_stored_def sst_fits_def om_sorted_distinct)
  with d assms(2) show ?thesis by (auto simp: file_holds_def intro: keys_reparse_map)
qed

lemma list_all2_plain:
  "list_all2 (sst_represents fs) ts ms \<Longrightarrow> list_all plain_keys ms \<Longrightarrow>
   list_all2 (\<lambda>t m. file_holds fs (sst_filename t) m) ts ms"
  by (induction rule: list_all2_induct) (simp_all add: file_holds_represented)

lemma load_table:
  assumes "file_holds fs p m"
  shows "\<exists>t. sst_load_index fs (SSTable_new p) = Some (Ok (), t) \<and> sst_filename t = p
    \<and> sst_represents fs t m"
proof -
  from assms obtain data where d: "sst_stored fs (sst_filename (SSTable_new p)) data" "keys_reparse data"
    "m = map_of data"
    by (auto simp: file_holds_def SSTable_new_def)
  from sst_load_index_stored [OF d(1)] d show ?thesis
    by (auto simp: reparsed_index sst_represents_def SSTable_new_def)
qed

lemma load_tables_hold:
  "list_all2 (file_holds fs) ps ms \<Longrightarrow>
   \<exists>ts. load_tables fs ps = Some ts \<and> map sst_filename ts = ps \<and> list_all2 (sst_represents fs) ts ms"
proof (induction rule: list_all2_induct)
  case (Cons p ps m ms)
  from load_table [OF Cons(1)] Cons(3) show ?case by auto
qed simp

section \<open>A new engine\<close>

lemma new_engine_fields:
  assumes "LSMTreeEngine dir config = Some l"
  shows "data_dir l = dir" "lsm_memtable l = MemTable_new" "immutable_memtable l = None"
    "sstables l = []" "lsm_wal l = WAL_new (log_path dir)" "\<not> lsm_held l" "\<not> lsm_is_open l"
  using assms by (auto simp: LSMTreeEngine_def log_path_def Let_def bind_eq_Some_conv)

lemma fs_put_distinct [simp]:
  "distinct (map fst (fs_files fs)) \<Longrightarrow> distinct (map fst (fs_files (fs_put p b fs)))"
  by (simp add: fs_put_def distinct_update)

lemma wal_open_distinct:
  assumes "wal_open s = Some (r, s')" and "distinct (map fst (fs_files (snd s)))"
  shows "distinct (map fst (fs_files (snd s')))"
  using assms
  by (cases s) (auto simp: wal_open_def guarded_def wal_mutex_held_def wal_set_held_def Let_def
      stream_open_out_def split: if_splits prod.splits)

text \<open>What \<open>open\<close> does up to the tables, when there is no log or an empty one.\<close>

definition log_opened :: "string \<Rightarrow> fsys \<Rightarrow> wal \<Rightarrow> fsys \<Rightarrow> bool" where
  "log_opened dir fs w fs1 \<longleftrightarrow> (\<forall>q. q \<noteq> log_path dir \<longrightarrow> fs_content fs1 q = fs_content fs q)
     \<and> fs_denied fs1 = fs_denied fs \<and> fs_content fs1 (log_path dir) = Some []
     \<and> distinct (map fst (fs_files fs1)) \<and> table_files dir fs1 = table_files dir fs
     \<and> wal_is_open w \<and> \<not> wal_held w \<and> st_fail (wal_stream w) \<and> wal_file w = log_path dir"

lemma open_new:
  assumes new: "LSMTreeEngine dir config = Some l" and "create_directories dir fs"
    and "distinct (map fst (fs_files fs))"
    and "fs_content fs (log_path dir) \<in> {None, Some []}" and "\<not> fs_denied fs (log_path dir)"
  shows "\<exists>w fs1. log_opened dir fs w fs1
    \<and> (\<forall>ts. load_tables fs1 (sort (filter (\<lambda>p. path_extension p = ''.sst'') (files_in dir fs1))) = Some ts \<longrightarrow>
      lsm_open now (l, fs) = Some (Ok (), (l\<lparr>lsm_wal := w, sstables := ts, stop_background := False,
        background_thread := True, lsm_is_open := True\<rparr>, fs1)))"
proof -
  note l = new_engine_fields [OF new]
  let ?l = "l\<lparr>lsm_held := True\<rparr>" and ?w = "WAL_new (log_path dir)"
  have "\<exists>s1. wal_open (?w, fs) = Some (Ok (), s1) \<and> wal_ready s1 \<and> wal_file (fst s1) = log_path dir
    \<and> wal_bytes s1 = wal_bytes (?w, fs)
    \<and> (\<forall>q. q \<noteq> log_path dir \<longrightarrow> fs_content (snd s1) q = fs_content fs q) \<and> fs_denied (snd s1) = fs_denied fs"
    using wal_open_ready [of "(?w, fs)"] assms(2,5) by (simp add: WAL_new_def stream_new_def log_path_parent)
  then obtain w1 fs1 where w1: "wal_open (?w, fs) = Some (Ok (), (w1, fs1))" "wal_ready (w1, fs1)"
    "wal_file w1 = log_path dir" "wal_bytes (w1, fs1) = wal_bytes (?w, fs)"
    "\<And>q. q \<noteq> log_path dir \<Longrightarrow> fs_content fs1 q = fs_content fs q" "fs_denied fs1 = fs_denied fs"
    by auto
  have empty: "wal_bytes (w1, fs1) = []" using w1(4) assms(4) by (auto simp: file_bytes_def WAL_new_def)
  then have "wal_bytes (w1, fs1) = concat (map wal_record [])" by simp
  from wal_replay_ready [OF w1(2) this, of now 0] w1(3) obtain w2 where
    w2: "wal_replay_from now 0 (w1, fs1) = Some (Ok [], (w2, fs1))" "wal_is_open w2" "\<not> wal_held w2"
      "st_fail (wal_stream w2)" "wal_file w2 = log_path dir"
    by auto
  have log: "fs_content fs1 (log_path dir) = Some []"
    using w1(2,3) empty by (simp add: wal_ready_def)
  have files: "table_files dir fs1 = table_files dir fs"
  proof (rule set_eqI)
    show "p \<in> table_files dir fs1 \<longleftrightarrow> p \<in> table_files dir fs" for p
      by (cases "p = log_path dir") (simp_all add: table_files_def log_path_extension w1(5))
  qed
  have "distinct (map fst (fs_files fs1))" using wal_open_distinct [OF w1(1)] assms(3) by simp
  moreover have "lsm_open now (l, fs) = Some (Ok (), (l\<lparr>lsm_wal := w2, sstables := ts, stop_background := False,
        background_thread := True, lsm_is_open := True\<rparr>, fs1))"
    if "load_tables fs1 (sort (filter (\<lambda>p. path_extension p = ''.sst'') (files_in dir fs1))) = Some ts" for ts
  proof -
    have "load_sstables (?l\<lparr>lsm_wal := w2\<rparr>, fs1) = Some (Ok (), (?l\<lparr>lsm_wal := w2, sstables := ts\<rparr>, fs1))"
      using that assms(2) w1(6) l(1,4) by (simp add: load_sstables_def create_directories_def)
    then show ?thesis
      using assms(2) w1(1) w2(1) l
      by (cases l) (simp add: lsm_open_def lsm_op_simps on_wal_def recover_from_wal_def)
  qed
  ultimately show ?thesis
    using w1(5,6) log files w2(2-5) by (intro exI [of _ w2] exI [of _ fs1]) (simp add: log_opened_def)
qed

lemma file_holds_cong:
  "fs_content fs' p = fs_content fs p \<Longrightarrow> fs_denied fs' = fs_denied fs \<Longrightarrow> file_holds fs' p m = file_holds fs p m"
  by (simp add: file_holds_def sst_stored_def)

lemma open_holds:
  assumes new: "LSMTreeEngine dir config = Some l" and dir: "dir_holds dir fs names ms"
  shows "\<exists>s'. lsm_open now (l, fs) = Some (Ok (), s') \<and> lsm_running s'
    \<and> lsm_layers s' ((\<lambda>k. None) # ms) \<and> in_order [] s' \<and> \<not> stop_background (fst s')
    \<and> data_dir (fst s') = dir \<and> max_sstables (fst s') = max_sstables l"
proof -
  note l = new_engine_fields [OF new]
  from dir have d: "distinct (map fst (fs_files fs))" "create_directories dir fs" "sorted_wrt (<) names"
    "set names = table_files dir fs" "list_all2 (file_holds fs) (rev names) ms"
    "fs_content fs (log_path dir) \<in> {None, Some []}" "\<not> fs_denied fs (log_path dir)"
    by (simp_all add: dir_holds_def)
  from open_new [OF new d(2,1,6,7), of now] obtain w fs1 where opened: "log_opened dir fs w fs1"
    and open_ok: "\<forall>ts. load_tables fs1 (sort (filter (\<lambda>p. path_extension p = ''.sst'') (files_in dir fs1))) = Some ts \<longrightarrow>
      lsm_open now (l, fs) = Some (Ok (), (l\<lparr>lsm_wal := w, sstables := ts, stop_background := False,
        background_thread := True, lsm_is_open := True\<rparr>, fs1))"
    by blast
  from opened have o: "\<forall>q. q \<noteq> log_path dir \<longrightarrow> fs_content fs1 q = fs_content fs q"
    "fs_denied fs1 = fs_denied fs" "fs_content fs1 (log_path dir) = Some []"
    "distinct (map fst (fs_files fs1))" "table_files dir fs1 = table_files dir fs"
    "wal_is_open w" "\<not> wal_held w" "st_fail (wal_stream w)" "wal_file w = log_path dir"
    by (simp_all add: log_opened_def)
  have sorted: "sort (filter (\<lambda>p. path_extension p = ''.sst'') (files_in dir fs1)) = names"
    using d(3,4) o(4,5) by (intro sorted_files) simp_all
  have "file_holds fs1 p m = file_holds fs p m" if "p \<in> set names" for p m
  proof -
    have "p \<noteq> log_path dir" using that d(4) log_no_table by blast
    then show ?thesis using o(1,2) by (intro file_holds_cong) simp_all
  qed
  then have "list_all2 (file_holds fs1) (rev names) ms"
    using d(5) by (auto elim: list.rel_mono_strong)
  from load_tables_hold [OF this [THEN list_all2_rev [THEN iffD2], unfolded rev_rev_ident]] obtain ts where
    ts: "load_tables fs1 names = Some ts" "map sst_filename ts = names"
      "list_all2 (sst_represents fs1) ts (rev ms)"
    by blast
  from ts(3) have r: "list_all2 (sst_represents fs1) (rev ts) ms" by (metis list_all2_rev rev_rev_ident)
  let ?s = "(l\<lparr>lsm_wal := w, sstables := ts, stop_background := False, background_thread := True,
    lsm_is_open := True\<rparr>, fs1)"
  have "lsm_open now (l, fs) = Some (Ok (), ?s)" using open_ok ts(1) sorted by simp
  moreover have "lsm_running ?s"
    using l o(6-9) ts(2) d(4) log_no_table by (simp add: lsm_running_def flip: set_map)
  moreover have "lsm_layers ?s ((\<lambda>k. None) # ms)"
    using l r by (simp add: lsm_layers_def memtable_wf_new)
  moreover have "in_order [] ?s"
    using l o(2-5,8,9) d(2,3,4,7) ts(2) by (simp add: in_order_def create_directories_def)
  ultimately show ?thesis using l(1) by (intro exI [of _ ?s]) simp
qed

section \<open>Calls that leave the directory alone\<close>

definition same_dir :: "lsm_state \<Rightarrow> lsm_state \<Rightarrow> bool" where
  "same_dir s s' \<longleftrightarrow> snd s' = snd s \<and> data_dir (fst s') = data_dir (fst s)
     \<and> map sst_filename (sstables (fst s')) = map sst_filename (sstables (fst s))
     \<and> wal_file (lsm_wal (fst s')) = wal_file (lsm_wal (fst s))
     \<and> st_fail (wal_stream (lsm_wal (fst s')))
     \<and> stop_background (fst s') = stop_background (fst s)
     \<and> max_sstables (fst s') = max_sstables (fst s)
     \<and> immutable_memtable (fst s') = immutable_memtable (fst s)"

lemma in_order_same: "in_order olds s \<Longrightarrow> same_dir s s' \<Longrightarrow> in_order olds s'"
  by (simp add: in_order_def same_dir_def flip: set_map)

lemma on_disk_same: "on_disk s hs \<Longrightarrow> same_dir s s' \<Longrightarrow> on_disk s' hs"
  unfolding on_disk_def using in_order_same by (fastforce simp: same_dir_def)

lemma on_wal_failed:
  assumes "wal_usable l" and "st_fail (wal_stream (lsm_wal l))"
  shows "\<exists>w. on_wal (wal_append e) (l, fs) = Some (Ok (), (l\<lparr>lsm_wal := w\<rparr>, fs))
    \<and> wal_is_open w \<and> \<not> wal_held w \<and> st_fail (wal_stream w) \<and> wal_file w = wal_file (lsm_wal l)"
  using wal_append_failed [of "(lsm_wal l, fs)" e] assms
  by (auto simp: on_wal_def wal_usable_def)

lemma put_same_dir:
  assumes "lsm_running s" and "on_disk s hs" and "lsm_put k e s = Some (r, s')"
  shows "same_dir s s'"
proof -
  obtain l fs where s: "s = (l, fs)" by (cases s)
  from assms(1) on_disk_fields [OF assms(2)] s have run: "lsm_is_open l" "\<not> lsm_held l" "wal_usable l" "st_fail (wal_stream (lsm_wal l))"
    by (simp_all add: lsm_running_iff)
  then have "wal_usable (l\<lparr>lsm_held := True\<rparr>)" "st_fail (wal_stream (lsm_wal (l\<lparr>lsm_held := True\<rparr>)))"
    by simp_all
  from on_wal_failed [OF this] obtain w where
    "on_wal (wal_append (WALEntry WAL_PUT k e 0)) (l\<lparr>lsm_held := True\<rparr>, fs)
      = Some (Ok (), (l\<lparr>lsm_held := True, lsm_wal := w\<rparr>, fs))"
    "st_fail (wal_stream w)" "wal_file w = wal_file (lsm_wal l)"
    by fastforce
  with assms(3) s run show ?thesis
    by (auto simp: lsm_put_def lsm_op_simps same_dir_def Let_def split: prod.splits)
qed

lemma remove_same_dir:
  assumes "lsm_running s" and "on_disk s hs" and "lsm_remove now k s = Some (r, s')"
  shows "same_dir s s'"
proof -
  obtain l fs where s: "s = (l, fs)" by (cases s)
  from assms(1) on_disk_fields [OF assms(2)] s have run: "lsm_is_open l" "\<not> lsm_held l" "wal_usable l" "st_fail (wal_stream (lsm_wal l))"
    by (simp_all add: lsm_running_iff)
  then have "wal_usable (l\<lparr>lsm_held := True\<rparr>)" "st_fail (wal_stream (lsm_wal (l\<lparr>lsm_held := True\<rparr>)))"
    by simp_all
  from on_wal_failed [OF this] obtain w where
    "on_wal (wal_append (WALEntry WAL_DELETE k ((DataEntry_default now)\<lparr>deleted := True, timestamp := millis_of now\<rparr>) 0)) (l\<lparr>lsm_held := True\<rparr>, fs)
      = Some (Ok (), (l\<lparr>lsm_held := True, lsm_wal := w\<rparr>, fs))"
    "st_fail (wal_stream w)" "wal_file w = wal_file (lsm_wal l)"
    by fastforce
  with assms(3) s run show ?thesis
    by (auto simp: lsm_remove_def lsm_op_simps same_dir_def Let_def split: prod.splits)
qed

lemma get_same_dir:
  assumes "on_disk s hs" and "lsm_get k s = Some (r, s')"
  shows "same_dir s s'"
proof -
  obtain l fs where s: "s = (l, fs)" by (cases s)
  have names: "map sst_filename (rev ts) = map sst_filename (sstables l)"
    if "read_tables fs k (rev (sstables l)) = Some (x, ts)" for x ts
    using read_tables_filenames [OF that] by (simp flip: rev_map)
  show ?thesis
    using assms(2) on_disk_fields [OF assms(1)] s names
    by (auto simp: lsm_get_def lsm_op_simps same_dir_def get_from_sstables_def Let_def
        bind_eq_Some_conv split: if_splits option.splits result.splits prod.splits)
qed

lemma scan_tables_filenames:
  "scan_tables fs q ts m = Some (m', ts') \<Longrightarrow> map sst_filename ts' = map sst_filename ts"
  by (induction ts arbitrary: m m' ts')
    (auto simp: bind_eq_Some_conv dest!: sst_range_scan_filename)

lemma scan_same_dir:
  assumes "on_disk s hs" and "lsm_range_scan q s = Some (r, s')"
  shows "same_dir s s'"
proof -
  obtain l fs where s: "s = (l, fs)" by (cases s)
  have names: "map sst_filename (rev ts) = map sst_filename (sstables l)"
    if "scan_tables fs q (rev (sstables l)) m = Some (x, ts)" for x m ts
    using scan_tables_filenames [OF that] by (simp flip: rev_map)
  show ?thesis
    using assms(2) on_disk_fields [OF assms(1)] s
    by (auto simp: lsm_range_scan_def lsm_op_simps same_dir_def Let_def
        bind_eq_Some_conv split: if_splits dest!: names)
qed

section \<open>Flushing\<close>

text \<open>The next table file: it can be written and its name comes after those in the directory. The memtable fits
  its format.\<close>

definition writes_next :: "(int \<Rightarrow> string) \<Rightarrow> time_point \<Rightarrow> lsm_state \<Rightarrow> bool" where
  "writes_next stamp now s \<longleftrightarrow>
     (let n = generate_sstable_filename stamp now (fst s) in
      CHR ''/'' \<notin> set (stamp (cxx_div now 1000000000)) \<and> \<not> fs_denied (snd s) n
      \<and> (\<forall>p \<in> table_files (data_dir (fst s)) (snd s). p < n)
      \<and> (mt_data (lsm_memtable (fst s)) \<noteq> [] \<longrightarrow> sst_fits (mt_data (lsm_memtable (fst s)))))"

lemma pad3_no_slash: "CHR ''/'' \<notin> set (pad3 n)"
  using to_string_digits [of "CHR ''/''" n] by (auto simp: pad3_def is_digit_def)

lemma table_path:
  assumes "CHR ''/'' \<notin> set (stamp (cxx_div now 1000000000))"
  shows "parent_path (generate_sstable_filename stamp now l) = data_dir l"
    and "path_extension (generate_sstable_filename stamp now l) = ''.sst''"
proof -
  let ?f = "''sstable_'' @ stamp (cxx_div now 1000000000) @ ''_''
    @ pad3 (nat (cxx_div now 1000000 mod 1000)) @ ''.sst''"
  have n: "generate_sstable_filename stamp now l = data_dir l @ CHR ''/'' # ?f"
    by (simp add: generate_sstable_filename_def)
  have f: "CHR ''/'' \<notin> set ?f" using assms pad3_no_slash by simp
  show "parent_path (generate_sstable_filename stamp now l) = data_dir l"
    unfolding n by (rule parent_path_slash [OF f])
  show "path_extension (generate_sstable_filename stamp now l) = ''.sst''"
    unfolding n path_extension_def path_filename_slash [OF f] by (simp add: Let_def)
qed

lemma table_path_log:
  assumes "CHR ''/'' \<notin> set (stamp (cxx_div now 1000000000))"
  shows "generate_sstable_filename stamp now l \<noteq> log_path d"
proof
  assume "generate_sstable_filename stamp now l = log_path d"
  with table_path(2) [of stamp now l, OF assms] have "''.log'' = ''.sst''"
    by (simp only: log_path_extension)
  then show False by simp
qed

lemma sst_write_distinct:
  assumes "sst_write data (t, fs) = (r, t', fs')" and "distinct (map fst (fs_files fs))"
  shows "distinct (map fst (fs_files fs'))"
  using assms
  by (auto simp: sst_write_def stream_open_out_def stream_new_def stream_write_def Let_def
      split: if_splits prod.splits)

lemma table_files_new:
  assumes "\<forall>q. q \<noteq> n \<longrightarrow> fs_content fs' q = fs_content fs q" and "fs_content fs' n \<noteq> None"
    and "parent_path n = dir" and "path_extension n = ''.sst''"
  shows "table_files dir fs' = insert n (table_files dir fs)"
proof (rule set_eqI)
  show "p \<in> table_files dir fs' \<longleftrightarrow> p \<in> insert n (table_files dir fs)" for p
    using assms by (cases "p = n") (simp_all add: table_files_def)
qed

lemma generate_sstable_filename_new [simp]:
  "generate_sstable_filename stamp now (l\<lparr>lsm_held := b\<rparr>) = generate_sstable_filename stamp now l"
  "generate_sstable_filename stamp now (l\<lparr>immutable_memtable := i, lsm_memtable := mt\<rparr>)
     = generate_sstable_filename stamp now l"
  by (simp_all add: generate_sstable_filename_def)

lemma flush_memtable_writes:
  assumes "in_order olds (l, fs)" and "wal_usable l" and "writes_next stamp now2 (l, fs)"
  shows "\<exists>l' fs'. flush_memtable stamp now1 now2 now3 (l, fs) = Some (Ok (), (l', fs'))
    \<and> in_order olds (l', fs') \<and> fs_denied fs' = fs_denied fs
    \<and> (\<forall>p \<in> table_files (data_dir l) fs. fs_content fs' p = fs_content fs p) \<and> mt_data (lsm_memtable l') = [] \<and> data_dir l' = data_dir l
    \<and> lsm_is_open l' = lsm_is_open l \<and> lsm_held l' = lsm_held l
    \<and> stop_background l' = stop_background l \<and> max_sstables l' = max_sstables l
    \<and> (\<exists>ts. sstables l' = sstables l @ ts \<and> length ts \<le> 1)"
proof (cases "mt_data (lsm_memtable l) = []")
  case True
  with assms(1) show ?thesis
    by (intro exI [of _ l] exI [of _ fs]) (simp add: flush_memtable_def memtable_size_def)
next
  case False
  let ?mt = "lsm_memtable l" and ?n = "generate_sstable_filename stamp now2 l"
  let ?l = "l\<lparr>immutable_memtable := Some ?mt, lsm_memtable := MemTable_new\<rparr>"
  from assms(1) have io: "distinct (map fst (fs_files fs))" "create_directories (data_dir l) fs"
    "sorted_wrt (<) (olds @ map sst_filename (sstables l))"
    "set (olds @ map sst_filename (sstables l)) = table_files (data_dir l) fs"
    "wal_file (lsm_wal l) = log_path (data_dir l)" "fs_content fs (log_path (data_dir l)) = Some []"
    "\<not> fs_denied fs (log_path (data_dir l))" "st_fail (wal_stream (lsm_wal l))"
    "immutable_memtable l = None"
    by (simp_all add: in_order_def)
  from assms(3) False have n: "CHR ''/'' \<notin> set (stamp (cxx_div now2 1000000000))" "\<not> fs_denied fs ?n"
    "\<forall>p \<in> table_files (data_dir l) fs. p < ?n" "sst_fits (mt_data ?mt)"
    by (simp_all add: writes_next_def Let_def)
  note path = table_path [of stamp now2 l, OF n(1)]
  from sst_write_stores [OF n(4), of "SSTable_new ?n" fs] n(2) io(2) path(1) obtain t fs1 where
    w: "sst_write (mt_data ?mt) (SSTable_new ?n, fs) = (Ok (), t, fs1)" "sst_filename t = ?n"
      "sst_stored fs1 ?n (mt_data ?mt)" "\<forall>q. q \<noteq> ?n \<longrightarrow> fs_content fs1 q = fs_content fs q"
      "fs_denied fs1 = fs_denied fs"
    by (auto simp: SSTable_new_def)
  have files: "table_files (data_dir l) fs1 = insert ?n (table_files (data_dir l) fs)"
    using table_files_new [OF w(4) _ path] w(3) by (simp add: sst_stored_def)
  have log: "?n \<noteq> log_path (data_dir l)" using n(1) by (rule table_path_log)
  let ?l2 = "?l\<lparr>sstables := sstables l @ [t], immutable_memtable := None\<rparr>"
  have "wal_usable ?l2" using assms(2) log io(5) w(2) by (simp add: wal_usable_def)
  from on_wal_failed [OF this] io(8) obtain w2 where
    c: "on_wal (wal_append (WALEntry WAL_CHECKPOINT (MultiLevelKey [] []) (DataEntry_default now3) 0)) (?l2, fs1)
      = Some (Ok (), (?l2\<lparr>lsm_wal := w2\<rparr>, fs1))" "st_fail (wal_stream w2)" "wal_file w2 = log_path (data_dir l)"
    using io(5) by fastforce
  have old: "\<forall>p \<in> table_files (data_dir l) fs. fs_content fs1 p = fs_content fs p"
    using n(3) w(4) by fastforce
  have "sorted_wrt (<) ((olds @ map sst_filename (sstables l)) @ [?n])"
    using io(3) n(3) unfolding sorted_wrt_append io(4) by simp
  moreover have "set ((olds @ map sst_filename (sstables l)) @ [?n]) = table_files (data_dir l) fs1"
    unfolding files set_append [of "olds @ map sst_filename (sstables l)"] io(4) by simp
  ultimately have "in_order olds (?l2\<lparr>lsm_wal := w2\<rparr>, fs1)"
    using io(1,2,5-9) c(2,3) w(2,4,5) log sst_write_distinct [OF w(1)]
    by (simp add: in_order_def create_directories_def)
  moreover have "flush_memtable stamp now1 now2 now3 (l, fs) = Some (Ok (), (?l2\<lparr>lsm_wal := w2\<rparr>, fs1))"
    using False io(9) w(1) c(1)
    by (simp add: flush_memtable_def memtable_size_def flush_older_def write_table_def
        memtable_get_all_data_def Let_def)
  ultimately show ?thesis using old w(5)
    by (intro exI [of _ "?l2\<lparr>lsm_wal := w2\<rparr>"] exI [of _ fs1]) (simp add: MemTable_new_def)
qed

text \<open>A flush puts the memtable over the tables, unless it is empty.\<close>

definition settled :: "contents \<Rightarrow> contents list \<Rightarrow> contents list" where
  "settled r ms = (if r = (\<lambda>k. None) then ms else r # ms)"

lemma first_live_settled: "first_live (settled r ms) = first_live (r # ms)"
  by (rule ext) (simp add: settled_def)

lemma plain_keys_settled [simp]:
  "plain_keys r \<Longrightarrow> list_all plain_keys (settled r ms) = list_all plain_keys ms"
  by (simp add: settled_def)

lemma on_disk_flush:
  assumes "on_disk (l, fs) hs" and "wal_usable l" and "writes_next stamp now2 (l, fs)"
  shows "\<exists>l' fs'. flush_memtable stamp now1 now2 now3 (l, fs) = Some (Ok (), (l', fs'))
    \<and> on_disk (l', fs') hs \<and> mt_data (lsm_memtable l') = [] \<and> data_dir l' = data_dir l
    \<and> lsm_is_open l' = lsm_is_open l \<and> lsm_held l' = lsm_held l
    \<and> stop_background l' = stop_background l \<and> max_sstables l' = max_sstables l"
proof -
  from assms(1) obtain olds where o: "in_order olds (l, fs)" "list_all2 (file_holds fs) (rev olds) hs"
    by (auto simp: on_disk_def)
  from flush_memtable_writes [OF o(1) assms(2,3), of now1 now3] obtain l' fs' where
    f: "flush_memtable stamp now1 now2 now3 (l, fs) = Some (Ok (), (l', fs'))" "in_order olds (l', fs')"
      "fs_denied fs' = fs_denied fs" "\<forall>p \<in> table_files (data_dir l) fs. fs_content fs' p = fs_content fs p"
      "mt_data (lsm_memtable l') = []" "data_dir l' = data_dir l" "lsm_is_open l' = lsm_is_open l"
      "lsm_held l' = lsm_held l" "stop_background l' = stop_background l" "max_sstables l' = max_sstables l"
    by blast
  have "set (rev olds) \<subseteq> table_files (data_dir l) fs" using o(1) by (auto simp: in_order_def)
  then have "file_holds fs' p m = file_holds fs p m" if "p \<in> set (rev olds)" for p m
    using that f(3,4) by (intro file_holds_cong) auto
  then have "list_all2 (file_holds fs') (rev olds) hs"
    using o(2) by (auto elim: list.rel_mono_strong)
  with f show ?thesis by (auto simp: on_disk_def)
qed

lemma layers_head: "lsm_layers s (x # xs) \<Longrightarrow> x = memtable_contents (lsm_memtable (fst s))"
  by (auto simp: lsm_layers_def)

lemma flush_memtable_nothing:
  "memtable_size (lsm_memtable l) = 0 \<Longrightarrow>
   flush_memtable stamp now1 now2 now3 (l, fs) = Some (Ok (), (l, fs))"
  by (simp add: flush_memtable_def)

lemma flush_memtable_durable:
  assumes "durable_data (l, fs) r ms hs" and "writes_next stamp now2 (l, fs)"
  shows "\<exists>l' fs'. flush_memtable stamp now1 now2 now3 (l, fs) = Some (Ok (), (l', fs'))
    \<and> durable_data (l', fs') (\<lambda>k. None) (settled r ms) hs
    \<and> data_dir l' = data_dir l \<and> lsm_is_open l' = lsm_is_open l \<and> lsm_held l' = lsm_held l
    \<and> stop_background l' = stop_background l \<and> max_sstables l' = max_sstables l"
proof (cases "mt_data (lsm_memtable l) = []")
  case True
  moreover from this have "r = (\<lambda>k. None)"
    using assms(1) layers_head [of "(l, fs)" r ms] by (simp add: durable_data_def memtable_contents_def)
  ultimately show ?thesis
    using assms(1) flush_memtable_nothing [of l stamp now1 now2 now3 fs]
    by (intro exI [of _ l] exI [of _ fs]) (simp add: settled_def memtable_size_def)
next
  case False
  from assms(1) have d: "wal_usable l" "lsm_layers (l, fs) (r # ms)" "on_disk (l, fs) hs" "plain_keys r"
    "list_all plain_keys (ms @ hs)"
    by (simp_all add: durable_data_def)
  let ?n = "generate_sstable_filename stamp now2 l"
  from on_disk_flush [OF d(3,1) assms(2)] obtain l' fs' where
    f: "flush_memtable stamp now1 now2 now3 (l, fs) = Some (Ok (), (l', fs'))" "on_disk (l', fs') hs"
      "mt_data (lsm_memtable l') = []" "data_dir l' = data_dir l" "lsm_is_open l' = lsm_is_open l"
      "lsm_held l' = lsm_held l" "stop_background l' = stop_background l" "max_sstables l' = max_sstables l"
    by blast
  from d(3) obtain olds where o: "in_order olds (l, fs)" by (auto simp: on_disk_def)
  then have l: "wal_file (lsm_wal l) = log_path (data_dir l)" "immutable_memtable l = None"
    "sst_filename ` set (sstables l) \<subseteq> table_files (data_dir l) fs"
    by (auto simp: in_order_def)
  have "tables_fit l" using assms(2) l(2) by (simp add: tables_fit_def writes_next_def Let_def)
  moreover have "?n \<notin> sst_filename ` set (sstables l)" "?n \<noteq> wal_file (lsm_wal l)"
    using assms(2) l(1,3) table_path_log [of stamp now2 l "data_dir l"]
    by (auto simp: writes_next_def Let_def)
  then have "fresh_names stamp now1 now2 l" using l(2) by (simp add: fresh_names_def)
  ultimately obtain ms1 where
    ms1: "lsm_layers (l', fs') ms1" "ms1 = r # ms \<or> ms1 = (\<lambda>k. None) # r # ms" "wal_usable l'"
    using flush_memtable_layers [OF d(1,2), of stamp now1 now2 now3] f(1) by auto
  have "r \<noteq> (\<lambda>k. None)"
    using False layers_head [OF d(2)] by (cases "mt_data (lsm_memtable l)") (auto simp: memtable_contents_def fun_eq_iff)
  moreover have "memtable_contents (lsm_memtable l') = (\<lambda>k. None)" using f(3) by (simp add: memtable_contents_def)
  ultimately have "ms1 = (\<lambda>k. None) # settled r ms"
    using ms1(1,2) layers_head by (fastforce simp: settled_def)
  then have "durable_data (l', fs') (\<lambda>k. None) (settled r ms) hs"
    using ms1(1,3) d(4,5) f(2) by (simp add: durable_data_def)
  with f show ?thesis by blast
qed

lemma flush_durable:
  assumes "durable s r ms hs" and "writes_next stamp now2 s"
  shows "\<exists>s'. lsm_flush stamp now1 now2 now3 s = Some (Ok (), s')
    \<and> durable s' (\<lambda>k. None) (settled r ms) hs \<and> max_sstables (fst s') = max_sstables (fst s)"
proof -
  obtain l fs where s: "s = (l, fs)" by (cases s)
  let ?l = "l\<lparr>lsm_held := True\<rparr>"
  from assms s have a: "durable_data (?l, fs) r ms hs" "writes_next stamp now2 (?l, fs)" "lsm_is_open l"
    "\<not> lsm_held l" "\<not> stop_background l"
    by (simp_all add: durable_def writes_next_def)
  from flush_memtable_durable [OF a(1,2), of now1 now3] obtain l' fs' where
    f: "flush_memtable stamp now1 now2 now3 (?l, fs) = Some (Ok (), (l', fs'))"
      "durable_data (l', fs') (\<lambda>k. None) (settled r ms) hs" "lsm_is_open l'"
      "lsm_held l'" "\<not> stop_background l'" "max_sstables l' = max_sstables l"
    using a(3,5) by auto
  have u: "wal_usable l'" using f(2) by (simp add: durable_data_def)
  have same: "lsm_wal l'\<lparr>wal_held := False\<rparr> = lsm_wal l'" using u by (simp add: wal_usable_def)
  have "on_wal wal_sync (l', fs') = Some (Ok (), (l', fs'))"
    using u same
    by (simp add: on_wal_def wal_sync_def guarded_def wal_mutex_held_def wal_set_held_def wal_usable_def)
  then have "lsm_flush stamp now1 now2 now3 s = Some (Ok (), (l'\<lparr>lsm_held := False\<rparr>, fs'))"
    using s a(3,4) f(1) by (simp add: lsm_flush_def lsm_op_simps)
  moreover have "durable (l'\<lparr>lsm_held := False\<rparr>, fs') (\<lambda>k. None) (settled r ms) hs"
    using f(2,3,5) by (simp add: durable_def)
  ultimately show ?thesis using f(6) s by auto
qed

section \<open>Compaction\<close>

text \<open>Compaction leaves the two oldest tables to the directory.\<close>

definition drop_oldest :: "contents list \<times> contents list \<Rightarrow> contents list \<times> contents list" where
  "drop_oldest = (\<lambda>(ms, hs).
     if length ms < 2 then (ms, hs)
     else (take (length ms - 2) ms, drop (length ms - 2) ms @ hs))"

lemma drop_oldest_plain:
  assumes "drop_oldest (ms, hs) = (ms', hs')"
  shows "list_all plain_keys (ms' @ hs') = list_all plain_keys (ms @ hs)"
proof -
  have "list_all plain_keys ms \<longleftrightarrow> list_all plain_keys (take (length ms - 2) ms) \<and> list_all plain_keys (drop (length ms - 2) ms)"
    by (metis append_take_drop_id list_all_append)
  with assms show ?thesis by (auto simp: drop_oldest_def split: if_splits)
qed

lemma durable_data_tables:
  assumes "durable_data (l, fs) r ms hs"
  shows "list_all2 (sst_represents fs) (rev (sstables l)) ms" and "length ms = length (sstables l)"
proof -
  from assms show "list_all2 (sst_represents fs) (rev (sstables l)) ms"
    by (auto simp: durable_data_def lsm_layers_def dest: on_disk_fields(2))
  then show "length ms = length (sstables l)" by (metis length_rev list_all2_lengthD)
qed

lemma compact_durable_data:
  assumes "durable_data (l, fs) r ms hs" and "drop_oldest (ms, hs) = (ms', hs')"
  shows "\<exists>l'. compact_sstables stamp now (l, fs) =
      Some (if length ms < 2 then Ok () else Error INVALID_ARGUMENT ''Cannot write empty data'', (l', fs))
    \<and> durable_data (l', fs) r ms' hs' \<and> lsm_is_open l' = lsm_is_open l \<and> lsm_held l' = lsm_held l
    \<and> stop_background l' = stop_background l \<and> max_sstables l' = max_sstables l"
proof (cases "length ms < 2")
  case True
  then have "length (sstables l) < 2" using durable_data_tables(2) [OF assms(1)] by simp
  then have "compact_sstables stamp now (l, fs) = Some (Ok (), (l, fs))"
    by (auto simp: compact_sstables_def split: list.split)
  with True assms show ?thesis by (auto simp: drop_oldest_def)
next
  case False
  note t = durable_data_tables [OF assms(1)]
  from False t(2) obtain t1 t2 rest where ts: "sstables l = t1 # t2 # rest"
    by (cases "sstables l"; cases "tl (sstables l)") auto
  from t(1) ts obtain ms1 m2 m1 where m: "ms = ms1 @ [m2, m1]"
    "list_all2 (sst_represents fs) (rev rest) ms1" "sst_represents fs t2 m2" "sst_represents fs t1 m1"
    by (auto simp: list_all2_append1 list_all2_Cons1)
  then have e: "ms' = ms1" "hs' = m2 # m1 # hs" using assms(2) by (simp_all add: drop_oldest_def)
  from assms(1) have d: "wal_usable l" "lsm_layers (l, fs) (r # ms)" "on_disk (l, fs) hs" "plain_keys r"
    "list_all plain_keys (ms @ hs)"
    by (simp_all add: durable_data_def)
  let ?l = "l\<lparr>sstables := rest\<rparr>"
  from d(3) obtain olds where o: "in_order olds (l, fs)" "list_all2 (file_holds fs) (rev olds) hs"
    by (auto simp: on_disk_def)
  have "in_order (olds @ [sst_filename t1, sst_filename t2]) (?l, fs)"
    using o(1) ts by (simp add: in_order_def)
  moreover have "file_holds fs (sst_filename t1) m1" "file_holds fs (sst_filename t2) m2"
    using m d(5) by (simp_all add: file_holds_represented)
  ultimately have "on_disk (?l, fs) hs'"
    unfolding on_disk_def e(2) using o(2) by (intro exI [of _ "olds @ [sst_filename t1, sst_filename t2]"]) simp
  moreover have "lsm_layers (?l, fs) (r # ms')"
    using d(2) m(1,2) e(1) on_disk_fields(2) [OF d(3)] by (auto simp: lsm_layers_def)
  moreover have "wal_usable ?l" using d(1) ts by (simp add: wal_usable_def)
  ultimately have "durable_data (?l, fs) r ms' hs'"
    using d(4,5) drop_oldest_plain [OF assms(2)] by (simp add: durable_data_def)
  with compact_sstables_two [OF ts, of stamp now fs] False show ?thesis by (intro exI [of _ ?l]) simp
qed

lemma compact_durable:
  assumes "durable s r ms hs" and "drop_oldest (ms, hs) = (ms', hs')"
  shows "\<exists>s'. lsm_compact stamp now s =
      Some (if length ms < 2 then Ok () else Error INVALID_ARGUMENT ''Cannot write empty data'', s')
    \<and> durable s' r ms' hs' \<and> max_sstables (fst s') = max_sstables (fst s)"
proof -
  obtain l fs where s: "s = (l, fs)" by (cases s)
  let ?l = "l\<lparr>lsm_held := True\<rparr>"
  from assms(1) s have a: "durable_data (?l, fs) r ms hs" "lsm_is_open l" "\<not> lsm_held l" "\<not> stop_background l"
    by (simp_all add: durable_def)
  from compact_durable_data [OF a(1) assms(2), of stamp now] obtain l' where
    c: "compact_sstables stamp now (?l, fs) =
        Some (if length ms < 2 then Ok () else Error INVALID_ARGUMENT ''Cannot write empty data'', (l', fs))"
      "durable_data (l', fs) r ms' hs'" "lsm_is_open l'" "\<not> stop_background l'" "max_sstables l' = max_sstables l"
    using a(2,4) by auto
  have "lsm_compact stamp now s =
      Some (if length ms < 2 then Ok () else Error INVALID_ARGUMENT ''Cannot write empty data'',
        (l'\<lparr>lsm_held := False\<rparr>, fs))"
    using s a(2,3) c(1) by (simp add: lsm_compact_def lsm_op_simps)
  moreover have "durable (l'\<lparr>lsm_held := False\<rparr>, fs) r ms' hs'" using c(2-4) by (simp add: durable_def)
  ultimately show ?thesis using c(5) s by auto
qed

text \<open>A pass of the background thread.\<close>

lemma background_durable:
  assumes "durable s r ms hs"
    and "memtable_should_flush (lsm_memtable (fst s)) \<longrightarrow> writes_next stamp now2 s"
  shows "\<exists>s' r' ms1 ms' hs'. background_pass stamp now1 now2 now3 now4 s = Some ((), s')
    \<and> durable s' r' ms' hs' \<and> max_sstables (fst s') = max_sstables (fst s)
    \<and> (r' = r \<and> ms1 = ms \<or> r' = (\<lambda>k. None) \<and> ms1 = settled r ms)
    \<and> (ms', hs') = (if length ms1 > unat (max_sstables (fst s)) then drop_oldest (ms1, hs) else (ms1, hs))"
proof -
  obtain l fs where s: "s = (l, fs)" by (cases s)
  let ?l = "l\<lparr>lsm_held := True\<rparr>"
  from assms(1) s have a: "durable_data (?l, fs) r ms hs" "lsm_is_open l" "\<not> lsm_held l" "\<not> stop_background l"
    by (simp_all add: durable_def)
  have "\<exists>l1 fs1 r' ms1. (if memtable_should_flush (lsm_memtable ?l)
        then flush_memtable stamp now1 now2 now3 (?l, fs) else Some (Ok (), (?l, fs))) = Some (Ok (), (l1, fs1))
      \<and> durable_data (l1, fs1) r' ms1 hs \<and> (r' = r \<and> ms1 = ms \<or> r' = (\<lambda>k. None) \<and> ms1 = settled r ms)
      \<and> lsm_is_open l1 \<and> lsm_held l1 \<and> \<not> stop_background l1 \<and> max_sstables l1 = max_sstables l"
  proof (cases "memtable_should_flush (lsm_memtable l)")
    case True
    then have "writes_next stamp now2 (?l, fs)" using assms(2) s by (simp add: writes_next_def)
    from flush_memtable_durable [OF a(1) this, of now1 now3] True a(2,4) show ?thesis by auto
  next
    case False
    with a show ?thesis by auto
  qed
  then obtain l1 fs1 r' ms1 where f:
    "(if memtable_should_flush (lsm_memtable ?l)
        then flush_memtable stamp now1 now2 now3 (?l, fs) else Some (Ok (), (?l, fs))) = Some (Ok (), (l1, fs1))"
    "durable_data (l1, fs1) r' ms1 hs" "r' = r \<and> ms1 = ms \<or> r' = (\<lambda>k. None) \<and> ms1 = settled r ms"
    "lsm_is_open l1" "lsm_held l1" "\<not> stop_background l1" "max_sstables l1 = max_sstables l"
    by blast
  obtain ms' hs' where e:
    "(ms', hs') = (if length ms1 > unat (max_sstables l) then drop_oldest (ms1, hs) else (ms1, hs))"
    by (metis surj_pair)
  have "\<exists>e l2. (if need_compaction l1 then compact_sstables stamp now4 (l1, fs1) else Some (Ok (), (l1, fs1)))
      = Some (e, (l2, fs1)) \<and> durable_data (l2, fs1) r' ms' hs' \<and> lsm_is_open l2 \<and> \<not> stop_background l2
      \<and> max_sstables l2 = max_sstables l"
  proof (cases "need_compaction l1")
    case True
    then have "drop_oldest (ms1, hs) = (ms', hs')"
      using e durable_data_tables(2) [OF f(2)] f(7) by (simp add: need_compaction_def)
    from compact_durable_data [OF f(2) this, of stamp now4] True f(4,6,7) show ?thesis by auto
  next
    case False
    with e durable_data_tables(2) [OF f(2)] f show ?thesis by (auto simp: need_compaction_def)
  qed
  then obtain x l2 where c:
    "(if need_compaction l1 then compact_sstables stamp now4 (l1, fs1) else Some (Ok (), (l1, fs1)))
      = Some (x, (l2, fs1))" "durable_data (l2, fs1) r' ms' hs'" "lsm_is_open l2" "\<not> stop_background l2"
    "max_sstables l2 = max_sstables l"
    by blast
  have "background_pass stamp now1 now2 now3 now4 s = Some ((), (l2\<lparr>lsm_held := False\<rparr>, fs1))"
    using s a(3,4) f(1) c(1) by (simp add: background_pass_def lsm_op_simps)
  moreover have "durable (l2\<lparr>lsm_held := False\<rparr>, fs1) r' ms' hs'" using c(2-4) by (simp add: durable_def)
  ultimately show ?thesis using f(3) e c(5) s
    by (intro exI [of _ "(l2\<lparr>lsm_held := False\<rparr>, fs1)"] exI [of _ r'] exI [of _ ms1] exI [of _ ms'] exI [of _ hs'])
      simp
qed

section \<open>The end of a lifetime\<close>

lemma durable_dir:
  assumes "durable_data (l, fs) r ms hs"
  shows "\<exists>names. dir_holds (data_dir l) fs names (ms @ hs)"
proof -
  from assms obtain olds where o: "in_order olds (l, fs)" "list_all2 (file_holds fs) (rev olds) hs"
    by (auto simp: durable_data_def on_disk_def)
  from assms have "list_all plain_keys ms" by (simp add: durable_data_def)
  with durable_data_tables(1) [OF assms] have
    "list_all2 (\<lambda>t m. file_holds fs (sst_filename t) m) (rev (sstables l)) ms"
    by (rule list_all2_plain)
  then have "list_all2 (file_holds fs) (rev (map sst_filename (sstables l))) ms"
    by (simp add: list.rel_map rev_map)
  with o(2) have "list_all2 (file_holds fs) (rev (olds @ map sst_filename (sstables l))) (ms @ hs)"
    by (simp add: list_all2_appendI)
  with o(1) have "dir_holds (data_dir l) fs (olds @ map sst_filename (sstables l)) (ms @ hs)"
    by (simp add: dir_holds_def in_order_def)
  then show ?thesis by blast
qed

text \<open>What follows the end of a lifetime: the constructor and \<open>open\<close>.\<close>

definition new_engine ::
    "(string \<Rightarrow> string option) \<Rightarrow> time_point \<Rightarrow> string \<times> fsys \<Rightarrow> (unit result \<times> lsm_state) option" where
  "new_engine config now = (\<lambda>(dir, fs). do { l \<leftarrow> LSMTreeEngine dir config; lsm_open now (l, fs) })"

definition lsm_restart ::
    "(int \<Rightarrow> string) \<Rightarrow> time_point \<Rightarrow> time_point \<Rightarrow> time_point \<Rightarrow> (string \<Rightarrow> string option) \<Rightarrow> time_point
     \<Rightarrow> (lsm_state, unit result) op" where
  "lsm_restart stamp now1 now2 now3 config now s =
     do { (_, s) \<leftarrow> lsm_close stamp now1 now2 now3 (\<lambda>s. s) s;
          (_, (l, fs)) \<leftarrow> LSMTreeEngine_delete stamp now1 now2 now3 (\<lambda>s. s) s;
          new_engine config now (data_dir l, fs) }"

lemma delete_closed:
  assumes "\<not> lsm_is_open l" and "\<not> wal_is_open (lsm_wal l)"
  shows "LSMTreeEngine_delete stamp now1 now2 now3 window (l, fs) = Some ((), (l, fs))"
  using assms by (simp add: LSMTreeEngine_delete_def on_wal_def WAL_delete_def)

definition lsm_crash :: "(string \<Rightarrow> string option) \<Rightarrow> time_point \<Rightarrow> (lsm_state, unit result) op" where
  "lsm_crash config now = (\<lambda>(l, fs). new_engine config now (data_dir l, fs))"

text \<open>How many tables the configuration allows before a pass of the background thread compacts.\<close>

definition table_cap :: "(string \<Rightarrow> string option) \<Rightarrow> nat option" where
  "table_cap config = map_option (\<lambda>l. unat (max_sstables l)) (LSMTreeEngine [] config)"

lemma table_cap_engine:
  "table_cap config = map_option (\<lambda>l. unat (max_sstables l)) (LSMTreeEngine dir config)"
  by (simp add: table_cap_def LSMTreeEngine_def Let_def map_option_bind comp_def)

lemma new_engine_holds:
  assumes "dir_holds dir fs names ms" and "list_all plain_keys ms" and "table_cap config = Some n"
  shows "\<exists>s'. new_engine config now (dir, fs) = Some (Ok (), s') \<and> durable s' (\<lambda>k. None) ms []
    \<and> unat (max_sstables (fst s')) = n"
proof -
  from assms(3) obtain l where l: "LSMTreeEngine dir config = Some l" "unat (max_sstables l) = n"
    by (auto simp: table_cap_engine [of config dir])
  from open_holds [OF l(1) assms(1), of now] assms(2) l show ?thesis
    by (auto simp: new_engine_def durable_iff on_disk_none)
qed

lemma on_wal_close:
  assumes "wal_is_open (lsm_wal l)" and "\<not> wal_held (lsm_wal l)"
  shows "on_wal wal_close (l, fs) = Some (Ok (), (l\<lparr>lsm_wal := (lsm_wal l)\<lparr>wal_stream :=
    (if st_open (wal_stream (lsm_wal l)) then stream_close (wal_stream (lsm_wal l)) else wal_stream (lsm_wal l)),
    wal_is_open := False, wal_held := False\<rparr>\<rparr>, fs))"
  using assms by (simp add: on_wal_def wal_close_def guarded_def wal_mutex_held_def wal_set_held_def Let_def)

lemma on_wal_closed:
  "wal_is_open (lsm_wal l) \<Longrightarrow> \<not> wal_held (lsm_wal l) \<Longrightarrow>
   \<exists>w. on_wal wal_close (l, fs) = Some (Ok (), (l\<lparr>lsm_wal := w\<rparr>, fs)) \<and> \<not> wal_is_open w"
  by (rule exI, rule conjI, erule (1) on_wal_close, simp)

lemma close_durable:
  assumes "durable (l, fs) r ms hs" and "writes_next stamp now2 (l, fs)"
  shows "\<exists>l' fs' names. lsm_close stamp now1 now2 now3 (\<lambda>s. s) (l, fs) = Some (Ok (), (l', fs'))
    \<and> \<not> lsm_is_open l' \<and> \<not> wal_is_open (lsm_wal l')
    \<and> data_dir l' = data_dir l \<and> dir_holds (data_dir l) fs' names (settled r ms @ hs)
    \<and> list_all plain_keys (settled r ms @ hs)"
proof -
  let ?l = "l\<lparr>stop_background := True, lsm_held := True, background_thread := False\<rparr>"
  from assms have a: "durable_data (?l, fs) r ms hs" "lsm_is_open l" "\<not> lsm_held l"
    "writes_next stamp now2 (?l, fs)"
    by (simp_all add: durable_def writes_next_def generate_sstable_filename_def)
  from flush_memtable_durable [OF a(1,4), of now1 now3] obtain l' fs' where
    f: "flush_memtable stamp now1 now2 now3 (?l, fs) = Some (Ok (), (l', fs'))"
      "durable_data (l', fs') (\<lambda>k. None) (settled r ms) hs" "data_dir l' = data_dir l"
    by auto
  have flush: "(if memtable_size (lsm_memtable ?l) > 0 then flush_memtable stamp now1 now2 now3 (?l, fs)
      else Some (Ok (), (?l, fs))) = Some (Ok (), (l', fs'))"
    using f(1) flush_memtable_nothing [of ?l stamp now1 now2 now3 fs]
    by (cases "memtable_size (lsm_memtable ?l) = 0") simp_all
  have "wal_is_open (lsm_wal l')" "\<not> wal_held (lsm_wal l')"
    using f(2) by (simp_all add: durable_data_def wal_usable_def)
  then obtain w where w: "on_wal wal_close (l', fs') = Some (Ok (), (l'\<lparr>lsm_wal := w\<rparr>, fs'))"
    "\<not> wal_is_open w"
    using on_wal_closed by blast
  have "lsm_close stamp now1 now2 now3 (\<lambda>s. s) (l, fs)
      = Some (Ok (), (l'\<lparr>lsm_wal := w, lsm_is_open := False, lsm_held := False\<rparr>, fs'))"
    using a(2,3) flush w
    by (cases "memtable_size (lsm_memtable l) = 0") (simp_all add: lsm_close_def lsm_op_simps Let_def)
  moreover obtain names where "dir_holds (data_dir l) fs' names (settled r ms @ hs)"
    using durable_dir [OF f(2)] f(3) by auto
  moreover have "list_all plain_keys (settled r ms @ hs)" using f(2) by (simp add: durable_data_def)
  ultimately show ?thesis using f(3) w(2) by fastforce
qed

lemma restart_durable:
  assumes "durable s r ms hs" and "writes_next stamp now2 s" and "table_cap config = Some n"
  shows "\<exists>s'. lsm_restart stamp now1 now2 now3 config now s = Some (Ok (), s')
    \<and> durable s' (\<lambda>k. None) (settled r ms @ hs) [] \<and> unat (max_sstables (fst s')) = n"
proof -
  obtain l fs where s: "s = (l, fs)" by (cases s)
  from close_durable [OF assms(1,2) [unfolded s], of now1 now3] obtain l' fs' names where
    c: "lsm_close stamp now1 now2 now3 (\<lambda>s. s) (l, fs) = Some (Ok (), (l', fs'))" "data_dir l' = data_dir l"
      "\<not> lsm_is_open l'" "\<not> wal_is_open (lsm_wal l')" "dir_holds (data_dir l) fs' names (settled r ms @ hs)"
      "list_all plain_keys (settled r ms @ hs)"
    by blast
  from new_engine_holds [OF c(5,6) assms(3), of now] s c(1,2) delete_closed [OF c(3,4)] show ?thesis
    by (auto simp: lsm_restart_def)
qed

lemma crash_durable:
  assumes "durable s r ms hs" and "table_cap config = Some n"
  shows "\<exists>s'. lsm_crash config now s = Some (Ok (), s') \<and> durable s' (\<lambda>k. None) (ms @ hs) []
    \<and> unat (max_sstables (fst s')) = n"
proof -
  obtain l fs where s: "s = (l, fs)" by (cases s)
  from assms(1) s have d: "durable_data (l, fs) r ms hs" "list_all plain_keys (ms @ hs)"
    by (simp_all add: durable_def durable_data_def)
  from durable_dir [OF d(1)] obtain names where "dir_holds (data_dir l) fs names (ms @ hs)" by blast
  from new_engine_holds [OF this d(2) assms(2), of now] s show ?thesis
    by (auto simp: lsm_crash_def)
qed

end
