(* ===== verification/Durable_Runs.thy ===== *)
theory Durable_Runs
  imports Durability
begin

text \<open>
  Runs of the storage engine over several lifetimes, against an abstract store (\<open>durable_step\<close>): what a
  client can rely on across flushes, compaction, \<open>close\<close>, crashes and new engines on the same directory.
\<close>

section \<open>Calls, passes and restarts\<close>

datatype lifetime_event =
    Call store_call
  | Compact "int \<Rightarrow> string" time_point
  | Background "int \<Rightarrow> string" time_point time_point time_point time_point
  | Restart "int \<Rightarrow> string" time_point time_point time_point "string \<Rightarrow> string option" time_point
  | Crash "string \<Rightarrow> string option" time_point

datatype lifetime_answer = Answer store_answer | Passed | Opened "unit result"

definition lifetime_step :: "lifetime_event \<Rightarrow> (lsm_state, lifetime_answer) op" where
  "lifetime_step e s =
     (case e of
        Call c \<Rightarrow> map_option (apfst Answer) (engine_call c s)
      | Compact stamp now \<Rightarrow> map_option (apfst (\<lambda>r. Answer (Wrote r))) (lsm_compact stamp now s)
      | Background stamp now1 now2 now3 now4 \<Rightarrow>
          map_option (apfst (\<lambda>_. Passed)) (background_pass stamp now1 now2 now3 now4 s)
      | Restart stamp now1 now2 now3 config now \<Rightarrow>
          map_option (apfst Opened) (lsm_restart stamp now1 now2 now3 config now s)
      | Crash config now \<Rightarrow> map_option (apfst Opened) (lsm_crash config now s))"

text \<open>Keys have no colon in their primary part, table files get names in ascending order and can be
  written, a scan has room, and a configuration is readable.\<close>

definition lifetime_ok :: "lifetime_event \<Rightarrow> lsm_state \<Rightarrow> bool" where
  "lifetime_ok e s =
     (case e of
        Call (Put k d) \<Rightarrow> colon_free k
      | Call (Remove now k) \<Rightarrow> colon_free k
      | Call (Flush stamp now1 now2 now3) \<Rightarrow> writes_next stamp now2 s
      | Call c \<Rightarrow> engine_admissible c s
      | Compact stamp now \<Rightarrow> True
      | Background stamp now1 now2 now3 now4 \<Rightarrow>
          memtable_should_flush (lsm_memtable (fst s)) \<longrightarrow> writes_next stamp now2 s
      | Restart stamp now1 now2 now3 config now \<Rightarrow> writes_next stamp now2 s \<and> table_cap config \<noteq> None
      | Crash config now \<Rightarrow> table_cap config \<noteq> None)"

lemma lifetime_ok_calls:
  "lifetime_ok (Call (Put k d)) s = colon_free k"
  "lifetime_ok (Call (Remove now k)) s = colon_free k"
  "lifetime_ok (Call (Get k)) s = True"
  "lifetime_ok (Call (Scan q)) s = engine_admissible (Scan q) s"
  "lifetime_ok (Call (Flush stamp now1 now2 now3)) s = writes_next stamp now2 s"
  by (simp_all add: lifetime_ok_def engine_admissible_def)

text \<open>
  The abstract store: what the memtable holds, what the tables hold from new to old, what compaction
  took out since the engine was opened, and how many tables a background pass allows. A client sees
  the first live entry of the memtable and the tables (\<open>store_view\<close>).
\<close>

record store =
  recent :: contents
  tables :: "contents list"
  dropped :: "contents list"
  cap :: nat

definition store_view :: "store \<Rightarrow> contents" where
  "store_view st = first_live (recent st # tables st)"

definition settle :: "store \<Rightarrow> store" where
  "settle st = st\<lparr>recent := (\<lambda>k. None), tables := settled (recent st) (tables st)\<rparr>"

definition compacted :: "store \<Rightarrow> store" where
  "compacted st = (case drop_oldest (tables st, dropped st) of (ms, hs) \<Rightarrow> st\<lparr>tables := ms, dropped := hs\<rparr>)"

text \<open>A new engine finds every table of the directory, and nothing of the memtable.\<close>

definition reopened :: "nat \<Rightarrow> store \<Rightarrow> store" where
  "reopened n st = \<lparr>recent = (\<lambda>k. None), tables = tables st @ dropped st, dropped = [], cap = n\<rparr>"

definition tidied :: "store \<Rightarrow> store" where
  "tidied st = (if length (tables st) > cap st then compacted st else st)"

inductive durable_step :: "store \<Rightarrow> lifetime_event \<Rightarrow> lifetime_answer \<Rightarrow> store \<Rightarrow> bool" where
  serves: "two_level_step (recent st, first_live (tables st)) c a (r, first_live (tables st)) \<Longrightarrow>
    \<forall>stamp now1 now2 now3. c \<noteq> Flush stamp now1 now2 now3 \<Longrightarrow>
    durable_step st (Call c) (Answer a) (st\<lparr>recent := r\<rparr>)"
| flushes: "durable_step st (Call (Flush stamp now1 now2 now3)) (Answer (Wrote (Ok ()))) (settle st)"
| compacts: "durable_step st (Compact stamp now)
    (Answer (Wrote (if length (tables st) < 2 then Ok () else Error INVALID_ARGUMENT ''Cannot write empty data'')))
    (compacted st)"
| tidies: "durable_step st (Background stamp now1 now2 now3 now4) Passed (tidied st)"
| settles: "durable_step st (Background stamp now1 now2 now3 now4) Passed (tidied (settle st))"
| restarts: "table_cap config = Some n \<Longrightarrow>
    durable_step st (Restart stamp now1 now2 now3 config now) (Opened (Ok ())) (reopened n (settle st))"
| crashes: "table_cap config = Some n \<Longrightarrow>
    durable_step st (Crash config now) (Opened (Ok ())) (reopened n st)"

definition durable_sim :: "lsm_state \<Rightarrow> store \<Rightarrow> bool" where
  "durable_sim s st \<longleftrightarrow> durable s (recent st) (tables st) (dropped st)
     \<and> unat (max_sstables (fst s)) = cap st"

lemma durable_layers: "durable s r ms hs \<Longrightarrow> lsm_running s \<and> lsm_layers s (r # ms)"
  by (simp add: durable_iff)

lemma durable_sim_reads: "durable_sim s st \<Longrightarrow> lsm_reads k s = Some (lsm_answer (store_view st k))"
  using reads_layers [of s "recent st # tables st" k]
    durable_layers [of s "recent st" "tables st" "dropped st"]
  by (simp add: durable_sim_def store_view_def del: first_live.simps)

text \<open>Calls that do not flush change the memtable at most.\<close>

lemma durable_serves:
  assumes sim: "durable_sim s st" and step: "engine_call c s = Some (a, s')" and same: "same_dir s s'"
    and "lsm_running s'" and "lsm_layers s' (r # tables st)" and "plain_keys r"
    and "two_level_step (recent st, first_live (tables st)) c a (r, first_live (tables st))"
    and "\<forall>stamp now1 now2 now3. c \<noteq> Flush stamp now1 now2 now3"
  shows "\<exists>a s' st'. lifetime_step (Call c) s = Some (a, s') \<and> durable_step st (Call c) a st' \<and> durable_sim s' st'"
proof -
  from sim have d: "on_disk s (dropped st)" "list_all plain_keys (tables st @ dropped st)"
    "\<not> stop_background (fst s)" "unat (max_sstables (fst s)) = cap st"
    by (simp_all add: durable_sim_def durable_iff)
  have "durable_sim s' (st\<lparr>recent := r\<rparr>)"
    using assms(4-6) d(2-4) on_disk_same [OF d(1) same] same
    by (simp add: durable_sim_def durable_iff same_dir_def)
  moreover have "lifetime_step (Call c) s = Some (Answer a, s')" using step by (simp add: lifetime_step_def)
  ultimately show ?thesis using serves [OF assms(7,8)] by blast
qed

lemma durable_put:
  assumes "durable_sim s st" and "colon_free k"
  shows "\<exists>a s' st'. lifetime_step (Call (Put k e)) s = Some (a, s')
    \<and> durable_step st (Call (Put k e)) a st' \<and> durable_sim s' st'"
proof -
  from assms(1) have d: "lsm_running s" "lsm_layers s (recent st # tables st)" "on_disk s (dropped st)"
    "plain_keys (recent st)"
    by (simp_all add: durable_sim_def durable_iff)
  from put_layers [OF d(1,2), of k e] obtain w s' where
    p: "lsm_put k e s = Some (w, s')" "lsm_running s'" "is_ok w \<longleftrightarrow> key_fits k e"
      "lsm_layers s' ((if is_ok w then (recent st)(k \<mapsto> e) else recent st) # tables st)"
    by blast
  show ?thesis
  proof (rule durable_serves [OF assms(1) _ put_same_dir [OF d(1,3) p(1)] p(2,4)])
    show "engine_call (Put k e) s = Some (Wrote w, s')" using p(1) by (simp add: engine_call_def)
    show "plain_keys (if is_ok w then (recent st)(k \<mapsto> e) else recent st)" using d(4) assms(2) by simp
    show "two_level_step (recent st, first_live (tables st)) (Put k e) (Wrote w)
        (if is_ok w then (recent st)(k \<mapsto> e) else recent st, first_live (tables st))"
      using p(3) by (cases w) (auto intro: put_fits put_refused)
  qed simp
qed

lemma durable_remove:
  assumes "durable_sim s st" and "colon_free k"
  shows "\<exists>a s' st'. lifetime_step (Call (Remove now k)) s = Some (a, s')
    \<and> durable_step st (Call (Remove now k)) a st' \<and> durable_sim s' st'"
proof -
  from assms(1) have d: "lsm_running s" "lsm_layers s (recent st # tables st)" "on_disk s (dropped st)"
    "plain_keys (recent st)"
    by (simp_all add: durable_sim_def durable_iff)
  from remove_layers [OF d(1,2), of now k] obtain s' e where
    p: "lsm_remove now k s = Some (Ok (), s')" "lsm_running s'" "deleted e"
      "lsm_layers s' ((recent st)(k \<mapsto> e) # tables st)"
    by blast
  show ?thesis
  proof (rule durable_serves [OF assms(1) _ remove_same_dir [OF d(1,3) p(1)] p(2,4)])
    show "engine_call (Remove now k) s = Some (Wrote (Ok ()), s')" using p(1) by (simp add: engine_call_def)
    show "two_level_step (recent st, first_live (tables st)) (Remove now k) (Wrote (Ok ()))
        ((recent st)(k \<mapsto> e), first_live (tables st))"
      using p(3) by (rule remove_marks)
  qed (use d(4) assms(2) in simp_all)
qed

lemma durable_get:
  assumes "durable_sim s st"
  shows "\<exists>a s' st'. lifetime_step (Call (Get k)) s = Some (a, s')
    \<and> durable_step st (Call (Get k)) a st' \<and> durable_sim s' st'"
proof -
  from assms have d: "lsm_running s" "lsm_layers s (recent st # tables st)" "on_disk s (dropped st)"
    "plain_keys (recent st)"
    by (simp_all add: durable_sim_def durable_iff)
  let ?m = "(recent st, first_live (tables st))"
  from get_layers [OF d(1,2), of k] obtain s' where
    g: "lsm_get k s = Some (lsm_answer (visible ?m k), s')" "lsm_running s'"
      "lsm_layers s' (recent st # tables st)"
    unfolding visible_layers by blast
  show ?thesis
    by (rule durable_serves [OF assms _ get_same_dir [OF d(3) g(1)] g(2,3) d(4) get_visible])
      (simp_all add: g(1) engine_call_def)
qed

lemma durable_scan:
  assumes "durable_sim s st" and "engine_admissible (Scan q) s"
  shows "\<exists>a s' st'. lifetime_step (Call (Scan q)) s = Some (a, s')
    \<and> durable_step st (Call (Scan q)) a st' \<and> durable_sim s' st'"
proof -
  from assms(1) have d: "lsm_running s" "lsm_layers s (recent st # tables st)" "on_disk s (dropped st)"
    "plain_keys (recent st)"
    by (simp_all add: durable_sim_def durable_iff)
  let ?m = "(recent st, first_live (tables st))"
  have "start_key q \<le> end_key q" "\<forall>m \<in> set (recent st # tables st). range_room q m"
    using assms(2) d(2) by (simp_all add: engine_admissible_def)
  from range_scan_layers [OF d(1,2) this] obtain xs s' where
    x: "lsm_range_scan q s = Some (Ok (take (unat (limit q)) xs), s')"
      "merged_of q (recent st # tables st) xs" "lsm_running s'" "lsm_layers s' (recent st # tables st)"
    by blast
  have step: "two_level_step ?m (Scan q) (Listed (Ok (take (unat (limit q)) xs))) ?m"
    using x(2) by (intro scan_visible) (auto simp: merged_of_def visible_layers simp del: first_live.simps)
  show ?thesis
    by (rule durable_serves [OF assms(1) _ scan_same_dir [OF d(3) x(1)] x(3,4) d(4) step])
      (simp_all add: x(1) engine_call_def)
qed

text \<open>The other events.\<close>

lemma durable_flush:
  assumes "durable_sim s st" and "writes_next stamp now2 s"
  shows "\<exists>a s' st'. lifetime_step (Call (Flush stamp now1 now2 now3)) s = Some (a, s')
    \<and> durable_step st (Call (Flush stamp now1 now2 now3)) a st' \<and> durable_sim s' st'"
proof -
  from assms(1) have d: "durable s (recent st) (tables st) (dropped st)"
    "unat (max_sstables (fst s)) = cap st"
    by (simp_all add: durable_sim_def)
  from flush_durable [OF d(1) assms(2), of now1 now3] obtain s' where
    f: "lsm_flush stamp now1 now2 now3 s = Some (Ok (), s')"
      "durable s' (\<lambda>k. None) (settled (recent st) (tables st)) (dropped st)"
      "max_sstables (fst s') = max_sstables (fst s)"
    by blast
  have "lifetime_step (Call (Flush stamp now1 now2 now3)) s = Some (Answer (Wrote (Ok ())), s')"
    using f(1) by (simp add: lifetime_step_def engine_call_def)
  moreover have "durable_sim s' (settle st)" using f(2,3) d(2) by (simp add: durable_sim_def settle_def)
  ultimately show ?thesis using flushes by blast
qed

lemma durable_compact:
  assumes "durable_sim s st"
  shows "\<exists>a s' st'. lifetime_step (Compact stamp now) s = Some (a, s')
    \<and> durable_step st (Compact stamp now) a st' \<and> durable_sim s' st'"
proof -
  obtain ms' hs' where e: "drop_oldest (tables st, dropped st) = (ms', hs')" by (cases "drop_oldest (tables st, dropped st)")
  from assms have d: "durable s (recent st) (tables st) (dropped st)" "unat (max_sstables (fst s)) = cap st"
    by (simp_all add: durable_sim_def)
  from compact_durable [OF d(1) e, of stamp now] obtain s' where
    c: "lsm_compact stamp now s = Some (if length (tables st) < 2 then Ok ()
        else Error INVALID_ARGUMENT ''Cannot write empty data'', s')"
      "durable s' (recent st) ms' hs'" "max_sstables (fst s') = max_sstables (fst s)"
    by blast
  have "lifetime_step (Compact stamp now) s = Some (Answer (Wrote (if length (tables st) < 2 then Ok ()
        else Error INVALID_ARGUMENT ''Cannot write empty data'')), s')"
    using c(1) by (simp add: lifetime_step_def)
  moreover have "durable_sim s' (compacted st)" using c(2,3) d(2) e by (simp add: durable_sim_def compacted_def)
  ultimately show ?thesis using compacts by blast
qed

lemma durable_background:
  assumes "durable_sim s st" and "lifetime_ok (Background stamp now1 now2 now3 now4) s"
  shows "\<exists>a s' st'. lifetime_step (Background stamp now1 now2 now3 now4) s = Some (a, s')
    \<and> durable_step st (Background stamp now1 now2 now3 now4) a st' \<and> durable_sim s' st'"
proof -
  from assms(1) have d: "durable s (recent st) (tables st) (dropped st)" "unat (max_sstables (fst s)) = cap st"
    by (simp_all add: durable_sim_def)
  from assms(2) have "memtable_should_flush (lsm_memtable (fst s)) \<longrightarrow> writes_next stamp now2 s"
    by (simp add: lifetime_ok_def)
  from background_durable [OF d(1) this, of now1 now3 now4] obtain s' r' ms1 ms' hs' where
    b: "background_pass stamp now1 now2 now3 now4 s = Some ((), s')" "durable s' r' ms' hs'"
      "max_sstables (fst s') = max_sstables (fst s)"
      "r' = recent st \<and> ms1 = tables st \<or> r' = (\<lambda>k. None) \<and> ms1 = settled (recent st) (tables st)"
      "(ms', hs') = (if length ms1 > unat (max_sstables (fst s)) then drop_oldest (ms1, dropped st)
        else (ms1, dropped st))"
    by blast
  let ?st = "st\<lparr>recent := r', tables := ms1\<rparr>"
  have step: "lifetime_step (Background stamp now1 now2 now3 now4) s = Some (Passed, s')"
    using b(1) by (simp add: lifetime_step_def)
  have "recent (tidied ?st) = r'" "tables (tidied ?st) = ms'" "dropped (tidied ?st) = hs'" "cap (tidied ?st) = cap st"
    using b(5) d(2) by (auto simp: tidied_def compacted_def split: prod.splits if_splits)
  then have sim: "durable_sim s' (tidied ?st)" using b(2,3) d(2) by (simp add: durable_sim_def)
  from b(4) have "?st = st \<or> ?st = settle st" by (auto simp: settle_def)
  then show ?thesis using step sim tidies settles by metis
qed

lemma durable_restart:
  assumes "durable_sim s st" and "lifetime_ok (Restart stamp now1 now2 now3 config now) s"
  shows "\<exists>a s' st'. lifetime_step (Restart stamp now1 now2 now3 config now) s = Some (a, s')
    \<and> durable_step st (Restart stamp now1 now2 now3 config now) a st' \<and> durable_sim s' st'"
proof -
  from assms obtain n where n: "writes_next stamp now2 s" "table_cap config = Some n"
    by (auto simp: lifetime_ok_def)
  from assms(1) have "durable s (recent st) (tables st) (dropped st)" by (simp add: durable_sim_def)
  from restart_durable [OF this n, of now1 now3 now] obtain s' where
    f: "lsm_restart stamp now1 now2 now3 config now s = Some (Ok (), s')"
      "durable s' (\<lambda>k. None) (settled (recent st) (tables st) @ dropped st) []"
      "unat (max_sstables (fst s')) = n"
    by blast
  have "lifetime_step (Restart stamp now1 now2 now3 config now) s = Some (Opened (Ok ()), s')"
    using f(1) by (simp add: lifetime_step_def)
  moreover have "durable_sim s' (reopened n (settle st))"
    using f(2,3) by (simp add: durable_sim_def reopened_def settle_def)
  ultimately show ?thesis using restarts [OF n(2)] by blast
qed

lemma durable_crash:
  assumes "durable_sim s st" and "lifetime_ok (Crash config now) s"
  shows "\<exists>a s' st'. lifetime_step (Crash config now) s = Some (a, s')
    \<and> durable_step st (Crash config now) a st' \<and> durable_sim s' st'"
proof -
  from assms(2) obtain n where n: "table_cap config = Some n" by (auto simp: lifetime_ok_def)
  from assms(1) have "durable s (recent st) (tables st) (dropped st)" by (simp add: durable_sim_def)
  from crash_durable [OF this n, of now] obtain s' where
    f: "lsm_crash config now s = Some (Ok (), s')" "durable s' (\<lambda>k. None) (tables st @ dropped st) []"
      "unat (max_sstables (fst s')) = n"
    by blast
  have "lifetime_step (Crash config now) s = Some (Opened (Ok ()), s')"
    using f(1) by (simp add: lifetime_step_def)
  moreover have "durable_sim s' (reopened n st)" using f(2,3) by (simp add: durable_sim_def reopened_def)
  ultimately show ?thesis using crashes [OF n] by blast
qed

interpretation lifetimes: call_simulation lifetime_step lifetime_ok durable_step durable_sim
proof (unfold_locales, goal_cases)
  case (1 s st e)
  then show ?case
  proof (cases e)
    case (Call c)
    with 1 show ?thesis
      by (cases c) (simp_all only: lifetime_ok_calls durable_put durable_remove durable_get durable_scan
          durable_flush)
  qed (use 1 in \<open>simp_all only: durable_compact durable_background durable_restart durable_crash\<close>)
qed

section \<open>Properties\<close>

text \<open>No table is ever lost for good: compaction keeps its file, and the next engine loads it.\<close>

lemma drop_oldest_keeps: "drop_oldest (ms, hs) = (ms', hs') \<Longrightarrow> ms' @ hs' = ms @ hs"
  by (auto simp: drop_oldest_def split: if_splits)

lemma store_tables_kept:
  "tables (settle st) @ dropped (settle st) = (if recent st = (\<lambda>k. None) then [] else [recent st]) @ tables st @ dropped st"
  "tables (compacted st) @ dropped (compacted st) = tables st @ dropped st"
  "tables (reopened n st) @ dropped (reopened n st) = tables st @ dropped st"
  "tables (tidied st) @ dropped (tidied st) = tables st @ dropped st"
  using drop_oldest_keeps
  by (simp_all add: settle_def settled_def compacted_def reopened_def tidied_def split: prod.split)

lemma durable_step_keeps:
  "durable_step st e a st' \<Longrightarrow> \<exists>new. tables st' @ dropped st' = new @ tables st @ dropped st"
  by (induction rule: durable_step.induct) (simp_all add: store_tables_kept)

lemma durable_run_keeps:
  "machine_run durable_step st es as st' \<Longrightarrow> \<exists>new. tables st' @ dropped st' = new @ tables st @ dropped st"
proof (induction rule: machine_run.induct)
  case (run_cons st e a st1 es as st2)
  from durable_step_keeps [OF run_cons(1)] obtain new1 where "tables st1 @ dropped st1 = new1 @ tables st @ dropped st"
    by blast
  moreover from run_cons(3) obtain new2 where "tables st2 @ dropped st2 = new2 @ tables st1 @ dropped st1" by blast
  ultimately have "tables st2 @ dropped st2 = (new2 @ new1) @ tables st @ dropped st" by simp
  then show ?case by blast
qed simp

text \<open>C1: every run of client calls, compactions, background passes, restarts and crashes on a directory
  whose tables can be loaded returns, with the answers of the abstract store: every engine opens, a flush
  or a restart keeps what is visible, compaction hides the two oldest tables until the next engine, a
  crash loses exactly the memtable, and no table is ever lost for good. The events of the run have to
  be admissible: keys without a colon, and table files that can be written under ascending names.\<close>

theorem engine_durable:
  assumes "dir_holds dir fs names ms" and "list_all plain_keys ms" and "LSMTreeEngine dir config = Some l"
    and "lsm_open now (l, fs) = Some (r, s)" and "all_admissible lifetime_step lifetime_ok es s"
  shows "r = Ok () \<and> (\<exists>as s' st. run_calls lifetime_step es s = Some (as, s')
    \<and> machine_run durable_step
        \<lparr>recent = (\<lambda>k. None), tables = ms, dropped = [], cap = unat (max_sstables l)\<rparr> es as st
    \<and> lsm_running s' \<and> (\<forall>k. lsm_reads k s' = Some (lsm_answer (store_view st k)))
    \<and> (\<exists>new. tables st @ dropped st = new @ ms))"
proof -
  let ?st = "\<lparr>recent = (\<lambda>k. None), tables = ms, dropped = [], cap = unat (max_sstables l)\<rparr>"
  have "table_cap config = Some (unat (max_sstables l))" using assms(3) by (simp add: table_cap_engine [of config dir])
  from new_engine_holds [OF assms(1,2) this, of now] assms(3,4) have
    o: "r = Ok ()" "durable_sim s ?st"
    by (simp_all add: new_engine_def durable_sim_def)
  from lifetimes.run_simulates [OF o(2) assms(5)] obtain as s' st where
    m: "run_calls lifetime_step es s = Some (as, s')" "machine_run durable_step ?st es as st" "durable_sim s' st"
    by blast
  have "lsm_running s'" using m(3) by (simp add: durable_sim_def durable_iff)
  with o(1) m durable_sim_reads [OF m(3)] durable_run_keeps [OF m(2)] show ?thesis by auto
qed


lemma close_failed_flush:
  assumes "durable (l, fs) r ms hs" and "mt_data (lsm_memtable l) \<noteq> []"
    and "fs_denied fs (generate_sstable_filename stamp now2 l)"
  shows "\<exists>l'. lsm_close stamp now1 now2 now3 (\<lambda>s. s) (l, fs) = Some (Ok (), (l', fs))
    \<and> \<not> lsm_is_open l' \<and> \<not> wal_is_open (lsm_wal l') \<and> data_dir l' = data_dir l"
proof -
  let ?l = "l\<lparr>stop_background := True, lsm_held := True, background_thread := False\<rparr>"
  let ?n = "generate_sstable_filename stamp now2 l"
  let ?l1 = "?l\<lparr>immutable_memtable := Some (lsm_memtable l), lsm_memtable := MemTable_new\<rparr>"
  from assms(1) have a: "lsm_is_open l" "\<not> lsm_held l" "wal_usable l" "immutable_memtable l = None"
    by (auto simp: durable_def durable_data_def dest: on_disk_fields(2))
  have n: "generate_sstable_filename stamp now2 ?l1 = ?n" by (simp add: generate_sstable_filename_def)
  have "\<exists>e. sst_write (mt_data (lsm_memtable l)) (SSTable_new ?n, fs) = (Error STORAGE_ERROR e, SSTable_new ?n, fs)"
    using assms(2,3) by (simp add: sst_write_def SSTable_new_def stream_open_out_def stream_new_def Let_def)
  then obtain e where
    f: "flush_memtable stamp now1 now2 now3 (?l, fs) = Some (Error STORAGE_ERROR e, (?l1, fs))"
    using assms(2) a(4) n
    by (auto simp: flush_memtable_def memtable_size_def flush_older_def write_table_def
        memtable_get_all_data_def Let_def)
  have "wal_is_open (lsm_wal ?l1)" "\<not> wal_held (lsm_wal ?l1)" using a(3) by (simp_all add: wal_usable_def)
  then obtain w where w: "on_wal wal_close (?l1, fs) = Some (Ok (), (?l1\<lparr>lsm_wal := w\<rparr>, fs))"
    "\<not> wal_is_open w"
    using on_wal_closed by blast
  from w(1) have "lsm_close stamp now1 now2 now3 (\<lambda>s. s) (l, fs)
      = Some (Ok (), (?l1\<lparr>lsm_wal := w, lsm_is_open := False, lsm_held := False\<rparr>, fs))"
    using a(1,2) f assms(2) by (simp add: lsm_close_def lsm_op_simps memtable_size_def)
  with w(2) show ?thesis by auto
qed

text \<open>C8: when the final flush of \<open>close\<close> cannot write its file, \<open>close\<close> reports \<open>OK\<close> all the same, and the
  next engine opens without what the memtable held.\<close>

theorem close_hides_failed_flush:
  assumes "lsm_running s" and "lsm_layers s (m # ms)" and "in_order [] s" and "\<not> stop_background (fst s)"
    and "list_all plain_keys (m # ms)" and "mt_data (lsm_memtable (fst s)) \<noteq> []"
    and "fs_denied (snd s) (generate_sstable_filename stamp now2 (fst s))"
    and "LSMTreeEngine (data_dir (fst s)) config \<noteq> None"
  shows "\<exists>s1 s2. lsm_close stamp now1 now2 now3 (\<lambda>s. s) s = Some (Ok (), s1) \<and> snd s1 = snd s
    \<and> lsm_restart stamp now1 now2 now3 config now s = Some (Ok (), s2)
    \<and> (\<forall>k. lsm_reads k s2 = Some (lsm_answer (first_live ms k)))"
proof -
  obtain l fs where s: "s = (l, fs)" by (cases s)
  have d: "durable (l, fs) m ms []" using assms(1-5) s by (simp add: durable_iff on_disk_none)
  obtain n where cap: "table_cap config = Some n"
    using assms(8) by (auto simp: table_cap_engine [of config "data_dir (fst s)"])
  from close_failed_flush [OF d, of stamp now2 now1 now3] assms(6,7) s obtain l' where
    c: "lsm_close stamp now1 now2 now3 (\<lambda>s. s) (l, fs) = Some (Ok (), (l', fs))" "data_dir l' = data_dir l"
      "\<not> lsm_is_open l'" "\<not> wal_is_open (lsm_wal l')"
    by auto
  from crash_durable [OF d cap, of now] s obtain s2 where
    n: "new_engine config now (data_dir l, fs) = Some (Ok (), s2)" "durable s2 (\<lambda>k. None) ms []"
    by (auto simp: lsm_crash_def)
  have "lsm_reads k s2 = Some (lsm_answer (first_live ms k))" for k
    using reads_layers [of s2 "(\<lambda>k. None) # ms" k] n(2) by (simp add: durable_iff)
  with c(1,2) delete_closed [OF c(3,4)] n(1) s show ?thesis by (auto simp: lsm_restart_def)
qed

section \<open>Damaged table files\<close>

definition damaged_table :: "fsys \<Rightarrow> string \<Rightarrow> bool" where
  "damaged_table fs p \<longleftrightarrow> (\<exists>msg t. sst_load_index fs (SSTable_new p) = Some (Error STORAGE_ERROR msg, t))"

lemma bad_magic_damaged:
  assumes "fs_content fs p = Some c" and "4 \<le> length c" and "le_nat (take 4 c) \<noteq> sst_magic"
  shows "damaged_table fs p"
proof (cases "fs_denied fs p")
  case True
  then show ?thesis by (simp add: damaged_table_def sst_load_index_def can_read_def SSTable_new_def)
next
  case False
  with assms show ?thesis
    by (auto simp: damaged_table_def sst_load_index_def can_read_def SSTable_new_def read_opt_def
        stream_read_def stream_opened_def st_good_def split: prod.splits)
qed

lemma load_tables_damaged:
  "list_all2 (\<lambda>p mo. case mo of None \<Rightarrow> damaged_table fs p | Some m \<Rightarrow> file_holds fs p m) ps mos \<Longrightarrow>
   \<exists>ts. load_tables fs ps = Some ts \<and> sst_filename ` set ts \<subseteq> set ps
     \<and> list_all2 (sst_represents fs) ts (List.map_filter (\<lambda>mo. mo) mos)"
proof (induction rule: list_all2_induct)
  case (Cons p ps mo mos)
  then obtain ts where ts: "load_tables fs ps = Some ts" "sst_filename ` set ts \<subseteq> set ps"
    "list_all2 (sst_represents fs) ts (List.map_filter (\<lambda>mo. mo) mos)"
    by blast
  show ?case
  proof (cases mo)
    case None
    with Cons(1) obtain msg t where "sst_load_index fs (SSTable_new p) = Some (Error STORAGE_ERROR msg, t)"
      by (auto simp: damaged_table_def)
    with ts None show ?thesis by (auto simp: map_filter_simps)
  next
    case (Some m)
    with Cons(1) have "file_holds fs p m" by simp
    from load_table [OF this] obtain t where t: "sst_load_index fs (SSTable_new p) = Some (Ok (), t)"
      "sst_filename t = p" "sst_represents fs t m"
      by blast
    have "sst_filename ` set (t # ts) \<subseteq> set (p # ps)" using t(2) ts(2) by (simp add: subset_insertI2)
    with t(1,3) ts(1,3) Some show ?thesis by (simp add: map_filter_simps)
  qed
qed (simp add: map_filter_simps)

lemma damaged_table_cong:
  "fs_content fs' p = fs_content fs p \<Longrightarrow> fs_denied fs' = fs_denied fs \<Longrightarrow> damaged_table fs' p = damaged_table fs p"
  by (simp add: damaged_table_def sst_load_index_def can_read_def SSTable_new_def)

text \<open>C9: a table file that cannot be loaded is passed over in silence: \<open>open\<close> reports \<open>OK\<close> and the engine
  answers from the other tables, with older values or with \<open>NOT_FOUND\<close>.\<close>

theorem open_skips_damaged_tables:
  assumes "LSMTreeEngine dir config = Some l" and "create_directories dir fs"
    and "distinct (map fst (fs_files fs))"
    and "fs_content fs (log_path dir) \<in> {None, Some []}" and "\<not> fs_denied fs (log_path dir)"
    and "sorted_wrt (<) names" and "set names = table_files dir fs"
    and "list_all2 (\<lambda>p mo. case mo of None \<Rightarrow> damaged_table fs p | Some m \<Rightarrow> file_holds fs p m) names mos"
  shows "\<exists>s. lsm_open now (l, fs) = Some (Ok (), s) \<and> lsm_running s
    \<and> (\<forall>k. lsm_reads k s = Some (lsm_answer (first_live (rev (List.map_filter (\<lambda>mo. mo) mos)) k)))"
proof -
  note l = new_engine_fields [OF assms(1)]
  from open_new [OF assms(1-5), of now] obtain w fs1 where opened: "log_opened dir fs w fs1"
    and open_ok: "\<forall>ts. load_tables fs1 (sort (filter (\<lambda>p. path_extension p = ''.sst'') (files_in dir fs1))) = Some ts \<longrightarrow>
      lsm_open now (l, fs) = Some (Ok (), (l\<lparr>lsm_wal := w, sstables := ts, stop_background := False,
        background_thread := True, lsm_is_open := True\<rparr>, fs1))"
    by blast
  from opened have o: "\<forall>q. q \<noteq> log_path dir \<longrightarrow> fs_content fs1 q = fs_content fs q"
    "fs_denied fs1 = fs_denied fs" "distinct (map fst (fs_files fs1))" "table_files dir fs1 = table_files dir fs"
    "wal_is_open w" "\<not> wal_held w" "wal_file w = log_path dir"
    by (simp_all add: log_opened_def)
  have sorted: "sort (filter (\<lambda>p. path_extension p = ''.sst'') (files_in dir fs1)) = names"
    using assms(6,7) o(3,4) by (intro sorted_files) simp_all
  have "(case mo of None \<Rightarrow> damaged_table fs1 p | Some m \<Rightarrow> file_holds fs1 p m)
      = (case mo of None \<Rightarrow> damaged_table fs p | Some m \<Rightarrow> file_holds fs p m)" if "p \<in> set names" for p mo
  proof -
    have "p \<noteq> log_path dir" using that assms(7) log_no_table by blast
    then show ?thesis using o(1,2) file_holds_cong [of fs1 p fs] damaged_table_cong [of fs1 p fs]
      by (simp split: option.split)
  qed
  with assms(8) have "list_all2 (\<lambda>p mo. case mo of None \<Rightarrow> damaged_table fs1 p | Some m \<Rightarrow> file_holds fs1 p m) names mos"
    by (auto elim: list.rel_mono_strong)
  from load_tables_damaged [OF this] obtain ts where
    ts: "load_tables fs1 names = Some ts" "sst_filename ` set ts \<subseteq> set names"
      "list_all2 (sst_represents fs1) ts (List.map_filter (\<lambda>mo. mo) mos)"
    by blast
  let ?ms = "rev (List.map_filter (\<lambda>mo. mo) mos)"
  let ?s = "(l\<lparr>lsm_wal := w, sstables := ts, stop_background := False, background_thread := True,
    lsm_is_open := True\<rparr>, fs1)"
  have "lsm_open now (l, fs) = Some (Ok (), ?s)" using open_ok ts(1) sorted by simp
  moreover have "log_path dir \<notin> sst_filename ` set ts" using ts(2) assms(7) log_no_table by blast
  then have run: "lsm_running ?s" using l o(5-7) by (simp add: lsm_running_def)
  moreover have "lsm_layers ?s ((\<lambda>k. None) # ?ms)" using l ts(3) by (simp add: lsm_layers_def)
  then have "lsm_reads k ?s = Some (lsm_answer (first_live ?ms k))" for k
    using reads_layers [OF run, of "(\<lambda>k. None) # ?ms" k] by simp
  ultimately show ?thesis by blast
qed

section \<open>Compaction and the next engine\<close>

definition reopens :: "lifetime_event \<Rightarrow> bool" where
  "reopens e = (case e of Restart _ _ _ _ _ _ \<Rightarrow> True | Crash _ _ \<Rightarrow> True | _ \<Rightarrow> False)"

definition puts_key :: "multi_level_key \<Rightarrow> lifetime_event \<Rightarrow> bool" where
  "puts_key k e = (case e of Call (Put k' d) \<Rightarrow> k' = k | _ \<Rightarrow> False)"

text \<open>A key that only files without a table in the engine hold, with the entry \<open>v\<close>.\<close>

definition hidden :: "multi_level_key \<Rightarrow> data_entry option \<Rightarrow> store \<Rightarrow> bool" where
  "hidden k v st \<longleftrightarrow> store_view st k = None \<and> first_live (tables st @ dropped st) k = v"

lemma hidden_settle: "hidden k v st \<Longrightarrow> hidden k v (settle st)"
  by (auto simp: hidden_def store_view_def settle_def settled_def first_live_append split: option.splits if_splits)

lemma drop_oldest_prefix: "drop_oldest (ms, hs) = (ms', hs') \<Longrightarrow> \<exists>n. ms' = take n ms"
  by (auto simp: drop_oldest_def split: if_splits intro: exI [of _ "length ms"])

lemma first_live_take: "first_live ms k = None \<Longrightarrow> first_live (take n ms) k = None"
  by (induction ms arbitrary: n) (auto simp: take_Cons' split: option.splits)

lemma hidden_compacted: "hidden k v st \<Longrightarrow> hidden k v (compacted st)"
proof -
  assume h: "hidden k v st"
  obtain ms' hs' where e: "drop_oldest (tables st, dropped st) = (ms', hs')"
    by (cases "drop_oldest (tables st, dropped st)")
  from drop_oldest_prefix [OF this] obtain n where n: "ms' = take n (tables st)" by blast
  have "live (recent st k) = None" "first_live (tables st) k = None"
    using h by (auto simp: hidden_def store_view_def split: option.splits)
  with first_live_take [OF this(2)] n have "store_view (compacted st) k = None"
    by (simp add: store_view_def compacted_def e)
  with h drop_oldest_keeps [OF e] show ?thesis by (simp add: hidden_def compacted_def e)
qed

lemma hidden_step:
  assumes "durable_step st e a st'" and "\<not> reopens e" and "\<not> puts_key k e" and "hidden k v st"
  shows "hidden k v st'"
  using assms(1)
proof cases
  case (serves c b r)
  from serves(4) have "r = recent st \<or> (\<exists>k' d. r = (recent st)(k' \<mapsto> d) \<and> (k' \<noteq> k \<or> deleted d))"
    using assms(3) serves(1,5) by cases (auto simp: puts_key_def)
  then consider "r = recent st" | k' d where "r = (recent st)(k' \<mapsto> d)" "k' \<noteq> k \<or> deleted d" by blast
  then have "live (r k) = live (recent st k) \<or> live (r k) = None"
  proof cases
    case (2 k' d)
    then show ?thesis by (cases "k' = k") (simp_all add: live_def)
  qed simp
  with assms(4) serves(3) show ?thesis by (auto simp: hidden_def store_view_def split: option.splits)
qed (use assms hidden_settle hidden_compacted in \<open>auto simp: tidied_def reopens_def\<close>)

lemma hidden_run:
  "machine_run durable_step st es as st' \<Longrightarrow> list_all (\<lambda>e. \<not> reopens e \<and> \<not> puts_key k e) es \<Longrightarrow>
   hidden k v st \<Longrightarrow> hidden k v st'"
  by (induction rule: machine_run.induct) (auto dest: hidden_step)

lemma hidden_reopens:
  assumes "durable_step st e a st'" and "reopens e" and "hidden k v st"
  shows "a = Opened (Ok ()) \<and> store_view st' k = v"
  using assms(1)
proof cases
  case (restarts config n stamp now1 now2 now3 now)
  with hidden_settle [OF assms(3)] show ?thesis by (simp add: hidden_def reopened_def store_view_def)
next
  case (crashes config n now)
  with assms(3) show ?thesis by (simp add: hidden_def reopened_def store_view_def)
qed (use assms(2) in \<open>simp_all add: reopens_def\<close>)

text \<open>C7: take an open engine that has not compacted since it was opened, has two tables or more, and whose
  keys have no colon in their primary part. Compaction reports an error and takes the two oldest tables
  out of the engine; their files stay. A key that only these two hold is not found after any run of
  calls (other than a \<open>put\<close> of that key), compactions and background passes of the engine whose events
  are admissible, and the next engine, after a restart or a crash, finds it again.\<close>

theorem compaction_until_reopened:
  assumes "lsm_running s" and "lsm_layers s (m # ms)" and "in_order [] s" and "\<not> stop_background (fst s)"
    and "list_all plain_keys (m # ms)" and "2 \<le> length (sstables (fst s))"
    and "first_live (take (length ms - 1) (m # ms)) k = None"
    and "lsm_compact stamp now s = Some (r, s1)"
    and "list_all (\<lambda>e. \<not> reopens e \<and> \<not> puts_key k e) es"
    and "all_admissible lifetime_step lifetime_ok es s1"
  shows "r = Error INVALID_ARGUMENT ''Cannot write empty data''
    \<and> (\<exists>as s2. run_calls lifetime_step es s1 = Some (as, s2)
      \<and> lsm_reads k s2 = Some (Error NOT_FOUND ''Key not found'')
      \<and> (\<forall>e. reopens e \<longrightarrow> lifetime_ok e s2 \<longrightarrow>
          (\<exists>s3. lifetime_step e s2 = Some (Opened (Ok ()), s3)
            \<and> lsm_reads k s3 = Some (lsm_answer (first_live ms k)))))"
proof -
  let ?st = "\<lparr>recent = m, tables = ms, dropped = [], cap = unat (max_sstables (fst s))\<rparr>"
  have len: "2 \<le> length ms"
  proof -
    from assms(2,3) have "length ms = length (sstables (fst s))"
      by (auto simp: lsm_layers_def in_order_def dest: list_all2_lengthD split: option.splits)
    with assms(6) show ?thesis by simp
  qed
  have sim: "durable_sim s ?st" using assms(1-5) by (simp add: durable_sim_def durable_iff on_disk_none)
  have "lifetime_step (Compact stamp now) s = Some (Answer (Wrote r), s1)"
    using assms(8) by (simp add: lifetime_step_def)
  with durable_compact [OF sim, of stamp now] obtain st1 where
    c: "durable_step ?st (Compact stamp now) (Answer (Wrote r)) st1" "durable_sim s1 st1"
    by auto
  have d: "drop_oldest (ms, []) = (take (length ms - 2) ms, drop (length ms - 2) ms)"
    using len by (simp add: drop_oldest_def)
  from c(1) len have r: "r = Error INVALID_ARGUMENT ''Cannot write empty data''" and st1: "st1 = compacted ?st"
    by (cases rule: durable_step.cases; simp)+
  have "length ms - 1 = Suc (length ms - 2)" using len by linarith
  then have "take (length ms - 1) (m # ms) = m # take (length ms - 2) ms" by simp
  with assms(7) have "hidden k (first_live ms k) st1"
    unfolding st1 by (simp add: hidden_def store_view_def compacted_def d)
  moreover from lifetimes.run_simulates [OF c(2) assms(10)] obtain as s2 st2 where
    run: "run_calls lifetime_step es s1 = Some (as, s2)" "machine_run durable_step st1 es as st2"
      "durable_sim s2 st2"
    by blast
  ultimately have h: "hidden k (first_live ms k) st2" using hidden_run [OF run(2) assms(9)] by blast
  then have "lsm_reads k s2 = Some (Error NOT_FOUND ''Key not found'')"
    using durable_sim_reads [OF run(3), of k] by (simp add: hidden_def)
  moreover have "\<exists>s3. lifetime_step e s2 = Some (Opened (Ok ()), s3)
      \<and> lsm_reads k s3 = Some (lsm_answer (first_live ms k))"
    if "reopens e" and "lifetime_ok e s2" for e
  proof -
    from lifetimes.simulates [OF run(3) that(2)] obtain a s3 st3 where
      "lifetime_step e s2 = Some (a, s3)" "durable_step st2 e a st3" "durable_sim s3 st3" by blast
    with hidden_reopens [OF _ that(1) h] durable_sim_reads show ?thesis by metis
  qed
  ultimately show ?thesis using r run(1) by blast
qed

section \<open>A run\<close>

text \<open>A new engine in a directory without files; the log is created and read to its end.\<close>

definition home_fs :: fsys where
  "home_fs = \<lparr>fs_files = [], fs_denied = (\<lambda>p. p = ''h/sstable_9_000.sst''), fs_what = ''what''\<rparr>"

definition home_engine :: lsm where
  "home_engine = \<lparr>data_dir = ''h'', lsm_memtable = MemTable_new, immutable_memtable = None,
     sstables = [], lsm_wal = WAL_new ''h/wal.log'', lsm_held = False,
     stop_background = False, background_thread = False, lsm_is_open = False,
     total_reads = 0, cache_hits = 0, memtable_size_limit = MEMTABLE_SIZE_LIMIT,
     max_sstables = 10, enable_compression = False\<rparr>"

definition home_wal :: wal where
  "home_wal = \<lparr>wal_file = ''h/wal.log'',
     wal_stream = \<lparr>st_open = True, st_pos = 0, st_eof = True, st_fail = True\<rparr>, wal_is_open = True,
     wal_sequence_number = 0, wal_held = False\<rparr>"

definition home_state :: "memtable \<Rightarrow> u64 \<Rightarrow> lsm_state" where
  "home_state mt n = (home_engine\<lparr>lsm_wal := home_wal\<lparr>wal_sequence_number := n\<rparr>, lsm_memtable := mt,
     background_thread := True, lsm_is_open := True\<rparr>, fs_put ''h/wal.log'' [] home_fs)"

lemma home_new: "LSMTreeEngine ''h'' (\<lambda>_. None) = Some home_engine"
  by (simp add: LSMTreeEngine_def home_engine_def Let_def)

lemma home_paths: "parent_path ''h/wal.log'' = ''h''" "path_extension ''h/wal.log'' = ''.log''"
  by (simp_all add: parent_path_def path_extension_def path_filename_def Let_def)

lemma home_open: "lsm_open 0 (home_engine, home_fs) = Some (Ok (), home_state MemTable_new 0)"
proof -
  let ?w = "(WAL_new ''h/wal.log'')\<lparr>wal_stream := stream_opened, wal_is_open := True\<rparr>"
  let ?fs = "fs_put ''h/wal.log'' [] home_fs"
  have "wal_open (WAL_new ''h/wal.log'', home_fs) = Some (Ok (), (?w, ?fs))"
    by (simp add: wal_open_def guarded_def wal_mutex_held_def wal_set_held_def WAL_new_def home_paths
        create_directories_def home_fs_def stream_open_inout_def stream_open_out_def can_read_def
        fs_content_def fs_put_def stream_new_def stream_close_def stream_opened_def stream_seekp_end_def
        file_bytes_def st_good_def Let_def)
  moreover have "wal_replay_from 0 0 (?w, ?fs) = Some (Ok [], (home_wal, ?fs))"
    by (simp add: wal_replay_from_def guarded_def wal_mutex_held_def wal_set_held_def WAL_new_def
        home_wal_def stream_opened_def stream_seekg_def st_good_def replay_loop.simps stream_read_def Let_def)
  moreover have "files_in ''h'' ?fs = [''h/wal.log'']"
    by (simp add: files_in_def fs_put_def home_fs_def home_paths)
  ultimately show ?thesis
    by (simp add: lsm_open_def lsm_op_simps on_wal_def recover_from_wal_def load_sstables_def
        home_engine_def home_state_def create_directories_def home_fs_def home_paths home_wal_def fs_put_def)
qed

definition home_mt :: memtable where
  "home_mt = snd (memtable_put demo_key (demo_entry ''v'') MemTable_new)"

lemma home_mt_data: "mt_data home_mt = [(demo_key, demo_entry ''v'')]"
  by (simp add: home_mt_def memtable_put_def demo_entry_def demo_key_def key_to_string_def
      MAX_KEY_SIZE_def MAX_VALUE_SIZE_def MemTable_new_def Let_def)

lemma home_put: "lsm_put demo_key (demo_entry ''v'') (home_state MemTable_new 0) = Some (Ok (), home_state home_mt 1)"
proof -
  have "memtable_put demo_key (demo_entry ''v'') MemTable_new = (Ok (), home_mt)"
    by (simp add: home_mt_def memtable_put_def demo_entry_def demo_key_def key_to_string_def
        MAX_KEY_SIZE_def MAX_VALUE_SIZE_def MemTable_new_def Let_def)
  then show ?thesis
    by (simp add: lsm_put_def lsm_op_simps home_state_def home_engine_def on_wal_def wal_append_def
        guarded_def wal_mutex_held_def wal_set_held_def home_wal_def write_record_def Let_def)
qed

lemma home_names:
  "generate_sstable_filename (\<lambda>_. c) 0 (fst (home_state mt n)) = ''h/sstable_'' @ c @ ''_000.sst''"
proof -
  have "of_char CHR ''0'' = (48 :: nat)" by simp
  then have "char_of (48 :: nat) = CHR ''0''" by (metis char_of_char)
  then show ?thesis
    by (simp add: generate_sstable_filename_def home_state_def home_engine_def cxx_div_def pad3_def
        to_string_def digits_of.simps numeral_2_eq_2)
qed

lemma home_fits: "sst_fits (mt_data home_mt)"
  by (simp add: home_mt_data sst_fits_def demo_entry_def demo_key_def sst_image_eq
      sst_entry_bytes_def sst_string_def key_to_string_def entries_bytes_def sst_index_of_def sst_index_bytes_def)

lemma home_in_order: "in_order [] (home_state mt n)"
  by (simp add: in_order_def home_state_def home_engine_def home_wal_def home_fs_def log_path_def
      create_directories_def table_files_def fs_put_def fs_content_def home_paths)

lemma home_no_tables: "table_files (data_dir (fst (home_state mt n))) (snd (home_state mt n)) = {}"
  using home_in_order [of mt n] by (simp add: in_order_def) (simp add: home_state_def home_engine_def)

lemma home_writes: "writes_next (\<lambda>_. ''1'') 0 (home_state home_mt n)"
  using home_fits
  by (simp add: writes_next_def home_names home_no_tables Let_def)
    (simp add: home_state_def home_engine_def home_fs_def)

lemma home_layers: "lsm_layers (home_state home_mt n) [map_of [(demo_key, demo_entry ''v'')]]"
proof -
  have "memtable_wf home_mt"
    unfolding home_mt_def by (rule memtable_wf_put [OF memtable_wf_new prod.collapse [symmetric]])
  then show ?thesis
    by (simp add: lsm_layers_def home_state_def home_engine_def memtable_contents_def home_mt_data)
qed

lemma home_running: "lsm_running (home_state mt n)" and home_not_stopping: "\<not> stop_background (fst (home_state mt n))"
  by (simp_all add: lsm_running_def home_state_def home_engine_def home_wal_def)

lemma home_plain: "list_all plain_keys [map_of [(demo_key, demo_entry ''v'')]]"
  by (simp add: colon_free_def demo_key_def)

lemma home_config: "LSMTreeEngine dir (\<lambda>_. None) \<noteq> None"
  by (simp add: LSMTreeEngine_def Let_def)

lemma home_cap: "table_cap (\<lambda>_. None) \<noteq> None"
  by (simp add: table_cap_def home_config)

definition home_events :: "lifetime_event list" where
  "home_events = [Call (Put demo_key (demo_entry ''v'')), Restart (\<lambda>_. ''1'') 0 0 0 (\<lambda>_. None) 0,
     Call (Get demo_key), Compact (\<lambda>_. ''2'') 0, Crash (\<lambda>_. None) 0, Call (Get demo_key)]"

theorem engine_durable_witness:
  "\<exists>as s' st. run_calls lifetime_step home_events (home_state MemTable_new 0) = Some (as, s')
    \<and> machine_run durable_step \<lparr>recent = (\<lambda>k. None), tables = [], dropped = [], cap = 10\<rparr> home_events as st
    \<and> (\<forall>k. lsm_reads k s' = Some (lsm_answer (store_view st k)))"
proof -
  have dir: "dir_holds ''h'' home_fs [] []"
    by (simp add: dir_holds_def home_fs_def create_directories_def table_files_def fs_content_def log_path_def)
  have ok: "all_admissible lifetime_step lifetime_ok home_events (home_state MemTable_new 0)"
    using home_put home_writes [of 1]
    by (simp add: home_events_def lifetime_ok_def engine_admissible_def lifetime_step_def engine_call_def
        home_cap [simplified] colon_free_def demo_key_def split: option.split)
  have "unat (max_sstables home_engine) = 10" by (simp add: home_engine_def)
  with engine_durable [OF dir _ home_new home_open ok] show ?thesis by auto
qed


theorem close_hides_failed_flush_witness:
  "\<exists>s1 s2. lsm_close (\<lambda>_. ''9'') 0 0 0 (\<lambda>s. s) (home_state home_mt 1) = Some (Ok (), s1)
    \<and> lsm_restart (\<lambda>_. ''9'') 0 0 0 (\<lambda>_. None) 0 (home_state home_mt 1) = Some (Ok (), s2)
    \<and> lsm_reads demo_key s2 = Some (Error NOT_FOUND ''Key not found'')"
proof -
  have "mt_data (lsm_memtable (fst (home_state home_mt 1))) \<noteq> []"
    by (simp add: home_state_def home_mt_data)
  moreover have "fs_denied (snd (home_state home_mt 1))
      (generate_sstable_filename (\<lambda>_. ''9'') 0 (fst (home_state home_mt 1)))"
    unfolding home_names by (simp add: home_state_def home_fs_def)
  ultimately obtain s1 s2 where
    "lsm_close (\<lambda>_. ''9'') 0 0 0 (\<lambda>s. s) (home_state home_mt 1) = Some (Ok (), s1)"
    "lsm_restart (\<lambda>_. ''9'') 0 0 0 (\<lambda>_. None) 0 (home_state home_mt 1) = Some (Ok (), s2)"
    "lsm_reads demo_key s2 = Some (lsm_answer (first_live [] demo_key))"
    using close_hides_failed_flush [OF home_running home_layers home_in_order home_not_stopping home_plain
        _ _ home_config, of 1 "\<lambda>_. ''9''" 0 0 0 0]
    by blast
  then show ?thesis by simp
qed


text \<open>One file, and it is no table.\<close>

definition junk_fs :: fsys where
  "junk_fs = \<lparr>fs_files = [(''h/a.sst'', ''xxxx'')], fs_denied = (\<lambda>p. False), fs_what = ''what''\<rparr>"

lemma junk_paths: "parent_path ''h/a.sst'' = ''h''" "path_extension ''h/a.sst'' = ''.sst''"
  by (simp_all add: parent_path_def path_extension_def path_filename_def Let_def)

lemma junk_tables: "table_files ''h'' junk_fs = {''h/a.sst''}"
proof (rule set_eqI)
  show "p \<in> table_files ''h'' junk_fs \<longleftrightarrow> p \<in> {''h/a.sst''}" for p
    by (cases "p = ''h/a.sst''") (simp_all only: table_files_def junk_fs_def fs_content_def fsys.simps
        map_of.simps mem_Collect_eq singleton_iff junk_paths fun_upd_apply fst_conv snd_conv simp_thms option.simps if_True if_False)
qed

lemma junk_damaged: "damaged_table junk_fs ''h/a.sst''"
  by (rule bad_magic_damaged [where c = "''xxxx''"])
    (simp_all add: junk_fs_def fs_content_def sst_magic_def)

theorem open_skips_damaged_tables_witness:
  "\<exists>s. lsm_open 0 (home_engine, junk_fs) = Some (Ok (), s)
    \<and> lsm_reads demo_key s = Some (Error NOT_FOUND ''Key not found'')"
proof -
  have "create_directories ''h'' junk_fs" "distinct (map fst (fs_files junk_fs))"
    "fs_content junk_fs (log_path ''h'') \<in> {None, Some []}" "\<not> fs_denied junk_fs (log_path ''h'')"
    by (simp_all add: create_directories_def junk_fs_def fs_content_def log_path_def)
  moreover have "sorted_wrt (<) [''h/a.sst'']" "set [''h/a.sst''] = table_files ''h'' junk_fs"
    by (simp_all only: junk_tables list.set sorted_wrt.simps ball_empty simp_thms)
  moreover have "list_all2 (\<lambda>p mo. case mo of None \<Rightarrow> damaged_table junk_fs p | Some m \<Rightarrow> file_holds junk_fs p m)
      [''h/a.sst''] [None]"
    using junk_damaged by simp
  ultimately obtain s where "lsm_open 0 (home_engine, junk_fs) = Some (Ok (), s)"
    "lsm_reads demo_key s = Some (lsm_answer (first_live (rev (List.map_filter (\<lambda>mo. mo) [None])) demo_key))"
    using open_skips_damaged_tables [OF home_new, of junk_fs "[''h/a.sst'']" "[None]" 0] by blast
  then show ?thesis by (simp add: map_filter_simps)
qed

text \<open>The engine with two tables of \<open>Storage_Properties\<close>, its log read to the end.\<close>

definition spent_state :: lsm_state where
  "spent_state = (demo_lsm\<lparr>lsm_wal := demo_wal\<lparr>wal_stream := stream_opened\<lparr>st_fail := True\<rparr>\<rparr>\<rparr>, demo_fs)"

lemma spent_layers: "lsm_layers spent_state [demo_new, demo_old, demo_old]"
  using demo_layers by (simp add: lsm_layers_def spent_state_def demo_state_def)

lemma spent_paths:
  "parent_path ''d/a.sst'' = ''d''" "path_extension ''d/a.sst'' = ''.sst''"
  "parent_path ''d/b.sst'' = ''d''" "path_extension ''d/b.sst'' = ''.sst''"
  "path_extension ''d/wal.log'' = ''.log''"
  by (simp_all add: parent_path_def path_extension_def path_filename_def Let_def)

lemma spent_tables: "table_files ''d'' demo_fs = {''d/a.sst'', ''d/b.sst''}"
proof (rule set_eqI)
  show "p \<in> table_files ''d'' demo_fs \<longleftrightarrow> p \<in> {''d/a.sst'', ''d/b.sst''}" for p
  proof (cases "p \<in> {''d/wal.log'', ''d/a.sst'', ''d/b.sst''}")
    case True
    then show ?thesis by (auto simp: table_files_def demo_fs_def fs_content_def spent_paths)
  next
    case False
    then have "fs_content demo_fs p = None" by (simp add: fs_content_def demo_fs_def)
    with False show ?thesis by (simp add: table_files_def)
  qed
qed

lemma spent_in_order: "in_order [] spent_state"
  unfolding in_order_def
  by (simp add: spent_state_def demo_lsm_def demo_table_def spent_tables)
    (simp add: demo_fs_def demo_wal_def log_path_def create_directories_def fs_content_def)

theorem compaction_until_reopened_witness:
  "\<exists>s1 as s2 s3. lsm_compact (\<lambda>_. ''t'') 0 spent_state = Some (Error INVALID_ARGUMENT ''Cannot write empty data'', s1)
    \<and> run_calls lifetime_step [Call (Get demo_key), Compact (\<lambda>_. ''t'') 0] s1 = Some (as, s2)
    \<and> lsm_reads demo_key s2 = Some (Error NOT_FOUND ''Key not found'')
    \<and> lifetime_step (Crash (\<lambda>_. None) 0) s2 = Some (Opened (Ok ()), s3)
    \<and> lsm_reads demo_key s3 = Some (Ok (demo_entry ''old''))"
proof -
  have spent: "lsm_running spent_state" "\<not> stop_background (fst spent_state)" "2 \<le> length (sstables (fst spent_state))"
    by (simp_all add: lsm_running_def spent_state_def demo_lsm_def demo_wal_def demo_table_def)
  have plain: "list_all plain_keys [demo_new, demo_old, demo_old]"
    by (simp add: demo_new_def demo_old_def colon_free_def demo_key_def demo_other_def)
  have none: "first_live (take (length [demo_old, demo_old] - 1) [demo_new, demo_old, demo_old]) demo_key = None"
    using demo_keys by (simp add: demo_new_def live_def)
  let ?es = "[Call (Get demo_key), Compact (\<lambda>_. ''t'') 0]"
  have es: "list_all (\<lambda>e. \<not> reopens e \<and> \<not> puts_key demo_key e) ?es"
    by (simp add: reopens_def puts_key_def)
  obtain r s1 where c: "lsm_compact (\<lambda>_. ''t'') 0 spent_state = Some (r, s1)"
    using compact_layers [OF spent(1) spent_layers spent(3), of "\<lambda>_. ''t''" 0] by blast
  have "all_admissible lifetime_step lifetime_ok ?es s1"
    by (simp add: lifetime_ok_calls) (simp add: lifetime_ok_def split: option.split prod.split)
  from compaction_until_reopened [OF spent(1) spent_layers spent_in_order spent(2) plain spent(3) none c es this]
  obtain as s2 where r: "r = Error INVALID_ARGUMENT ''Cannot write empty data''"
    and run: "run_calls lifetime_step ?es s1 = Some (as, s2)"
      "lsm_reads demo_key s2 = Some (Error NOT_FOUND ''Key not found'')"
    and next_engine: "\<forall>e. reopens e \<longrightarrow> lifetime_ok e s2 \<longrightarrow> (\<exists>s3. lifetime_step e s2 = Some (Opened (Ok ()), s3)
            \<and> lsm_reads demo_key s3 = Some (lsm_answer (first_live [demo_old, demo_old] demo_key)))"
    by blast
  have "reopens (Crash (\<lambda>_. None) 0)" "lifetime_ok (Crash (\<lambda>_. None) 0) s2"
    using home_cap by (simp_all add: reopens_def lifetime_ok_def)
  with next_engine obtain s3 where s3: "lifetime_step (Crash (\<lambda>_. None) 0) s2 = Some (Opened (Ok ()), s3)"
    "lsm_reads demo_key s3 = Some (lsm_answer (first_live [demo_old, demo_old] demo_key))"
    by blast
  have "lsm_answer (first_live [demo_old, demo_old] demo_key) = Ok (demo_entry ''old'')"
    by (simp add: demo_old_def demo_entry_def live_def)
  with s3(2) have "lsm_reads demo_key s3 = Some (Ok (demo_entry ''old''))" by (simp only:)
  with c [unfolded r] run s3(1) show ?thesis by blast
qed

end
