(* ===== verification/Wait_Graph.thy ===== *)
theory Wait_Graph
  imports Prelude
begin

text \<open>
  The wait-for graph of the lock manager and the search for a cycle in it
  (\<open>find_cycle_in_wait_graph\<close> in \<open>src/transaction/transaction_manager.cpp\<close>).

  A graph lists for every transaction the transactions it waits for; the order of the lists is
  the order in which the code iterates over its hash sets, which is not specified, and no
  lemma depends on it. The recursive lambda of the code is written with its stack made
  explicit: an entry is a node and the neighbours that are still to be visited; \<open>path\<close> and
  \<open>rec_stack\<close> of the code are the nodes of the stack.

  The main result is that the search finds something exactly when a cycle can be reached.
\<close>

type_synonym wait_graph = "(u64 \<times> u64 list) list"

definition waits_for :: "wait_graph \<Rightarrow> u64 \<Rightarrow> u64 list" where
  "waits_for g t = (case map_of g t of None \<Rightarrow> [] | Some ts \<Rightarrow> ts)"

text \<open>\<open>wait_graph_[t].insert(u)\<close>, \<open>wait_graph_[t].erase(u)\<close> and \<open>wait_graph_.erase(t)\<close>.\<close>

definition add_wait :: "u64 \<Rightarrow> u64 \<Rightarrow> wait_graph \<Rightarrow> wait_graph" where
  "add_wait t u g = AList.update t (List.insert u (waits_for g t)) g"

definition remove_wait :: "u64 \<Rightarrow> u64 \<Rightarrow> wait_graph \<Rightarrow> wait_graph" where
  "remove_wait t u g = AList.update t (removeAll u (waits_for g t)) g"

definition clear_waits :: "u64 \<Rightarrow> wait_graph \<Rightarrow> wait_graph" where
  "clear_waits t g = AList.delete t g"

definition graph_nodes :: "wait_graph \<Rightarrow> u64 set" where
  "graph_nodes g = (\<Union>(t, ts) \<in> set g. set ts)"

lemma finite_graph_nodes [simp]: "finite (graph_nodes g)"
  by (auto simp: graph_nodes_def)

lemma waits_for_nodes: "set (waits_for g t) \<subseteq> graph_nodes g"
proof (cases "map_of g t")
  case (Some ts)
  then have "(t, ts) \<in> set g" by (rule map_of_SomeD)
  then show ?thesis using Some by (force simp: waits_for_def graph_nodes_def)
qed (simp add: waits_for_def)

definition pending :: "wait_graph \<Rightarrow> (u64 \<times> u64 list) list \<Rightarrow> u64 set" where
  "pending g stack = graph_nodes g \<union> (\<Union>(t, ts) \<in> set stack. set ts)"

lemma finite_pending [simp]: "finite (pending g stack)"
  by (auto simp: pending_def)

function dfs :: "wait_graph \<Rightarrow> u64 list \<Rightarrow> (u64 \<times> u64 list) list \<Rightarrow> u64 list" where
  "dfs g visited [] = []"
| "dfs g visited ((node, []) # stack) = dfs g visited stack"
| "dfs g visited ((node, neighbor # nbs) # stack) =
     (if neighbor \<in> set (map fst ((node, neighbor # nbs) # stack))
      then rev (map fst ((node, neighbor # nbs) # stack))
      else if neighbor \<in> set visited then dfs g visited ((node, nbs) # stack)
      else dfs g (neighbor # visited)
             ((neighbor, waits_for g neighbor) # (node, nbs) # stack))"
  by pat_completeness auto

termination
proof (relation "measures [\<lambda>(g, visited, stack). card (pending g stack - set visited),
    \<lambda>(g, visited, stack). sum_list (map (\<lambda>(t, ts). Suc (length ts)) stack)]", goal_cases)
  case (2 g visited node stack)
  have "pending g stack - set visited \<subseteq> pending g ((node, []) # stack) - set visited"
    by (auto simp: pending_def)
  then have "card (pending g stack - set visited)
      \<le> card (pending g ((node, []) # stack) - set visited)"
    by (intro card_mono) auto
  then show ?case by auto
next
  case (3 g visited node neighbor nbs stack)
  have "pending g ((node, nbs) # stack) - set visited
      \<subseteq> pending g ((node, neighbor # nbs) # stack) - set visited"
    by (auto simp: pending_def)
  then have "card (pending g ((node, nbs) # stack) - set visited)
      \<le> card (pending g ((node, neighbor # nbs) # stack) - set visited)"
    by (intro card_mono) auto
  then show ?case by auto
next
  case (4 g visited node neighbor nbs stack)
  let ?old = "pending g ((node, neighbor # nbs) # stack) - set visited"
  let ?new = "pending g ((neighbor, waits_for g neighbor) # (node, nbs) # stack)
    - set (neighbor # visited)"
  have "?new \<subseteq> ?old" using waits_for_nodes [of g neighbor] by (auto simp: pending_def)
  moreover have "neighbor \<in> ?old" using 4 by (auto simp: pending_def)
  ultimately have "card ?new < card ?old"
    by (intro psubset_card_mono) auto
  then show ?case by simp
qed simp

definition find_cycle_in_wait_graph :: "wait_graph \<Rightarrow> u64 \<Rightarrow> u64 list" where
  "find_cycle_in_wait_graph g start = dfs g [start] [(start, waits_for g start)]"

section \<open>The edges\<close>

definition wait_edges :: "wait_graph \<Rightarrow> (u64 \<times> u64) set" where
  "wait_edges g = {(t, u). u \<in> set (waits_for g t)}"

lemma wait_edges_add [simp]: "wait_edges (add_wait t u g) = insert (t, u) (wait_edges g)"
  by (auto simp: wait_edges_def add_wait_def waits_for_def update_conv' split: option.splits if_splits)

lemma wait_edges_remove [simp]: "wait_edges (remove_wait t u g) = wait_edges g - {(t, u)}"
  by (auto simp: wait_edges_def remove_wait_def waits_for_def update_conv' split: option.splits if_splits)

lemma wait_edges_clear [simp]: "wait_edges (clear_waits t g) = wait_edges g - {t} \<times> UNIV"
  by (auto simp: wait_edges_def clear_waits_def waits_for_def delete_conv' split: option.splits if_splits)

section \<open>What is found is a way to a cycle\<close>

text \<open>The nodes of the stack, from the bottom, are a path of the graph.\<close>

fun stack_path :: "wait_graph \<Rightarrow> (u64 \<times> u64 list) list \<Rightarrow> bool" where
  "stack_path g ((b, bs) # (a, as) # stack) \<longleftrightarrow>
     (a, b) \<in> wait_edges g \<and> set bs \<subseteq> set (waits_for g b) \<and> stack_path g ((a, as) # stack)"
| "stack_path g [(a, as)] \<longleftrightarrow> set as \<subseteq> set (waits_for g a)"
| "stack_path g [] \<longleftrightarrow> True"

lemma stack_path_top: "stack_path g ((a, as) # stack) \<Longrightarrow> set as \<subseteq> set (waits_for g a)"
  by (cases stack) auto

lemma stack_path_tl: "stack_path g (x # stack) \<Longrightarrow> stack_path g stack"
  by (cases x; cases stack) auto

lemma stack_path_shrink:
  assumes "stack_path g ((a, as) # stack)" and "set as' \<subseteq> set as"
  shows "stack_path g ((a, as') # stack)"
proof -
  have "set as' \<subseteq> set (waits_for g a)"
    using stack_path_top [OF assms(1)] assms(2) by blast
  with assms(1) show ?thesis by (cases stack) auto
qed

lemma stack_path_below:
  "stack_path g ((b, bs) # stack) \<Longrightarrow> a \<in> fst ` set stack \<Longrightarrow> (a, b) \<in> (wait_edges g)\<^sup>+"
proof (induction stack arbitrary: b bs)
  case (Cons x stack)
  obtain c cs where x: "x = (c, cs)" by (cases x)
  with Cons.prems have e: "(c, b) \<in> wait_edges g" and s: "stack_path g ((c, cs) # stack)" by auto
  show ?case
  proof (cases "a = c")
    case True
    with e show ?thesis by auto
  next
    case False
    with Cons.prems(2) x have "a \<in> fst ` set stack" by auto
    from Cons.IH [OF s this] e show ?thesis by (rule trancl_into_trancl)
  qed
qed simp

lemma dfs_sound:
  assumes "stack_path g stack" and "dfs g visited stack \<noteq> []"
  shows "\<exists>n. (n, n) \<in> (wait_edges g)\<^sup>+ \<and> (fst (last stack), n) \<in> (wait_edges g)\<^sup>*"
  using assms
proof (induction g visited stack rule: dfs.induct)
  case (2 g visited node stack)
  then have "stack \<noteq> []" by auto
  with 2 show ?case by (auto dest: stack_path_tl)
next
  case (3 g visited node neighbor nbs stack)
  have edge: "(node, neighbor) \<in> wait_edges g"
    using stack_path_top [OF "3.prems"(1)] by (auto simp: wait_edges_def)
  have shrink: "stack_path g ((node, nbs) # stack)"
    using "3.prems"(1) by (rule stack_path_shrink) auto
  have last: "last ((node, nbs) # stack) = last ((node, neighbor # nbs) # stack) \<or> stack = []"
    by (cases stack) auto
  show ?case
  proof (cases "neighbor \<in> set (map fst ((node, neighbor # nbs) # stack))")
    case True
    have "(neighbor, neighbor) \<in> (wait_edges g)\<^sup>+"
    proof (cases "neighbor = node")
      case False
      with True have "neighbor \<in> fst ` set stack" by auto
      from stack_path_below [OF "3.prems"(1) this] edge show ?thesis by (rule trancl_into_trancl)
    qed (use edge in auto)
    moreover have "(fst (last ((node, neighbor # nbs) # stack)), node) \<in> (wait_edges g)\<^sup>*"
    proof (cases "stack = []")
      case False
      then have "fst (last stack) \<in> fst ` set stack" by simp
      from stack_path_below [OF "3.prems"(1) this] False show ?thesis by auto
    qed simp
    ultimately show ?thesis using edge by (meson rtrancl.rtrancl_into_rtrancl)
  next
    case False
    show ?thesis
    proof (cases "neighbor \<in> set visited")
      case True
      with False "3.prems"(2) "3.IH"(1) [OF False True shrink] last show ?thesis by auto
    next
      case new: False
      have "stack_path g ((neighbor, waits_for g neighbor) # (node, nbs) # stack)"
        using edge shrink by simp
      with False new "3.prems"(2) "3.IH"(2) [OF False new] last show ?thesis by auto
    qed
  qed
qed simp

section \<open>Every cycle that can be reached is found\<close>

text \<open>
  The nodes that are visited and no longer on the stack are finished: what they wait for is
  finished too, and no cycle goes through them.
\<close>

definition finished :: "u64 list \<Rightarrow> (u64 \<times> u64 list) list \<Rightarrow> u64 set" where
  "finished visited stack = set visited - fst ` set stack"

fun stack_done :: "wait_graph \<Rightarrow> u64 set \<Rightarrow> u64 set \<Rightarrow> (u64 \<times> u64 list) list \<Rightarrow> bool" where
  "stack_done g black kids [] \<longleftrightarrow> True"
| "stack_done g black kids ((a, as) # stack) \<longleftrightarrow>
     set (waits_for g a) \<subseteq> set as \<union> black \<union> kids \<and> stack_done g black {a} stack"

definition dfs_inv :: "wait_graph \<Rightarrow> u64 list \<Rightarrow> (u64 \<times> u64 list) list \<Rightarrow> bool" where
  "dfs_inv g visited stack \<longleftrightarrow>
     (let black = finished visited stack in
      wait_edges g `` black \<subseteq> black
      \<and> (\<forall>n \<in> black. (n, n) \<notin> (wait_edges g)\<^sup>+)
      \<and> fst ` set stack \<subseteq> set visited \<and> distinct (map fst stack)
      \<and> stack_done g black {} stack)"

lemma stack_done_mono:
  "stack_done g black kids stack \<Longrightarrow> black \<subseteq> black' \<Longrightarrow> kids \<subseteq> kids' \<union> black' \<Longrightarrow>
   stack_done g black' kids' stack"
proof (induction stack arbitrary: kids kids')
  case (Cons x stack)
  obtain a as where x: "x = (a, as)" by (cases x)
  from Cons.prems(1) x have a: "set (waits_for g a) \<subseteq> set as \<union> black \<union> kids"
    and s: "stack_done g black {a} stack" by simp_all
  from Cons.IH [OF s Cons.prems(2), of "{a}"] have "stack_done g black' {a} stack" by simp
  with a Cons.prems x show ?case by auto
qed simp

lemma closed_rtrancl:
  assumes "(a, b) \<in> r\<^sup>*" and "r `` s \<subseteq> s" and "a \<in> s"
  shows "b \<in> s"
  using assms by (induction rule: rtrancl_induct) auto

lemma dfs_inv_pop:
  assumes "dfs_inv g visited ((node, []) # stack)"
  shows "dfs_inv g visited stack"
proof -
  let ?b = "finished visited ((node, []) # stack)" and ?b' = "finished visited stack"
  from assms have inv: "wait_edges g `` ?b \<subseteq> ?b" "\<forall>n \<in> ?b. (n, n) \<notin> (wait_edges g)\<^sup>+"
    "fst ` set ((node, []) # stack) \<subseteq> set visited" "distinct (map fst ((node, []) # stack))"
    "stack_done g ?b {} ((node, []) # stack)"
    by (simp_all add: dfs_inv_def Let_def)
  have b': "?b' = insert node ?b" using inv(3,4) by (auto simp: finished_def)
  have succ: "wait_edges g `` {node} \<subseteq> ?b" using inv(5) by (auto simp: wait_edges_def)
  then have closed: "wait_edges g `` ?b' \<subseteq> ?b'" using inv(1) b' by auto
  have node: "node \<notin> ?b" by (simp add: finished_def)
  have "(node, node) \<notin> (wait_edges g)\<^sup>+"
  proof
    assume "(node, node) \<in> (wait_edges g)\<^sup>+"
    then obtain m where "(node, m) \<in> wait_edges g" "(m, node) \<in> (wait_edges g)\<^sup>*"
      by (meson tranclD)
    with succ have "m \<in> ?b" by auto
    from closed_rtrancl [OF \<open>(m, node) \<in> _\<close> inv(1) this] node show False by contradiction
  qed
  with inv(2) b' have acyc: "\<forall>n \<in> ?b'. (n, n) \<notin> (wait_edges g)\<^sup>+" by simp
  have "stack_done g ?b {node} stack" using inv(5) by simp
  then have "stack_done g ?b' {} stack" by (rule stack_done_mono) (auto simp: b')
  with closed acyc inv(3,4) show ?thesis by (simp add: dfs_inv_def Let_def)
qed

lemma dfs_inv_skip:
  assumes "dfs_inv g visited ((node, nb # nbs) # stack)" and "nb \<in> set visited"
    and "nb \<notin> set (map fst ((node, nb # nbs) # stack))"
  shows "dfs_inv g visited ((node, nbs) # stack)"
  using assms by (auto simp: dfs_inv_def Let_def finished_def)

lemma dfs_inv_push:
  assumes "dfs_inv g visited ((node, nb # nbs) # stack)" and "nb \<notin> set visited"
  shows "dfs_inv g (nb # visited) ((nb, waits_for g nb) # (node, nbs) # stack)"
proof -
  have "finished (nb # visited) ((nb, waits_for g nb) # (node, nbs) # stack)
      = finished visited ((node, nb # nbs) # stack)"
    using assms(2) by (auto simp: finished_def)
  with assms show ?thesis by (auto simp: dfs_inv_def Let_def)
qed

lemma dfs_complete:
  assumes "dfs_inv g visited stack" and "dfs g visited stack = []"
  shows "\<exists>black. set visited \<subseteq> black \<and> wait_edges g `` black \<subseteq> black
    \<and> (\<forall>n \<in> black. (n, n) \<notin> (wait_edges g)\<^sup>+)"
  using assms
proof (induction g visited stack rule: dfs.induct)
  case (1 g visited)
  then show ?case by (intro exI [of _ "set visited"]) (simp add: dfs_inv_def Let_def finished_def)
next
  case (2 g visited node stack)
  from "2.IH" [OF dfs_inv_pop [OF "2.prems"(1)]] "2.prems"(2) show ?case by simp
next
  case (3 g visited node neighbor nbs stack)
  have no: "neighbor \<notin> set (map fst ((node, neighbor # nbs) # stack))"
  proof
    assume "neighbor \<in> set (map fst ((node, neighbor # nbs) # stack))"
    with "3.prems"(2) show False by simp
  qed
  show ?case
  proof (cases "neighbor \<in> set visited")
    case True
    from "3.IH"(1) [OF no True dfs_inv_skip [OF "3.prems"(1) True no]] "3.prems"(2) no True
    show ?thesis by simp
  next
    case False
    have "dfs g (neighbor # visited) ((neighbor, waits_for g neighbor) # (node, nbs) # stack) = []"
      using "3.prems"(2) no False by simp
    from "3.IH"(2) [OF no False dfs_inv_push [OF "3.prems"(1) False] this] show ?thesis by auto
  qed
qed

theorem find_cycle_iff:
  "find_cycle_in_wait_graph g start \<noteq> [] \<longleftrightarrow>
   (\<exists>n. (start, n) \<in> (wait_edges g)\<^sup>* \<and> (n, n) \<in> (wait_edges g)\<^sup>+)"
proof
  assume "find_cycle_in_wait_graph g start \<noteq> []"
  with dfs_sound [of g "[(start, waits_for g start)]" "[start]"]
  show "\<exists>n. (start, n) \<in> (wait_edges g)\<^sup>* \<and> (n, n) \<in> (wait_edges g)\<^sup>+"
    by (auto simp: find_cycle_in_wait_graph_def)
next
  assume "\<exists>n. (start, n) \<in> (wait_edges g)\<^sup>* \<and> (n, n) \<in> (wait_edges g)\<^sup>+"
  then obtain n where n: "(start, n) \<in> (wait_edges g)\<^sup>*" "(n, n) \<in> (wait_edges g)\<^sup>+" by blast
  show "find_cycle_in_wait_graph g start \<noteq> []"
  proof
    assume "find_cycle_in_wait_graph g start = []"
    moreover have "dfs_inv g [start] [(start, waits_for g start)]"
      by (simp add: dfs_inv_def finished_def)
    ultimately obtain black where "start \<in> black" "wait_edges g `` black \<subseteq> black"
      "\<forall>n \<in> black. (n, n) \<notin> (wait_edges g)\<^sup>+"
      using dfs_complete [of g "[start]" "[(start, waits_for g start)]"]
      by (auto simp: find_cycle_in_wait_graph_def)
    with closed_rtrancl [OF n(1)] n(2) show False by blast
  qed
qed

text \<open>A new edge closes a cycle only through its own start, so one search from there is enough.\<close>

lemma add_wait_acyclic:
  assumes "acyclic (wait_edges g)" and "find_cycle_in_wait_graph (add_wait t u g) t = []"
  shows "acyclic (insert (t, u) (wait_edges g))"
proof -
  have "\<not> (\<exists>n. (t, n) \<in> (insert (t, u) (wait_edges g))\<^sup>* \<and> (n, n) \<in> (insert (t, u) (wait_edges g))\<^sup>+)"
    using assms(2) find_cycle_iff [of "add_wait t u g" t] by simp
  then have "(t, t) \<notin> (insert (t, u) (wait_edges g))\<^sup>+" by auto
  then have "(u, t) \<notin> (wait_edges g)\<^sup>*"
    by (meson insertI1 insert_mono r_into_rtrancl rtrancl_into_trancl2 rtrancl_mono subsetD subset_insertI)
  with assms(1) show ?thesis by (simp add: acyclic_insert)
qed

end
