(* ===== verification/Lock_Manager.thy ===== *)
theory Lock_Manager
  imports Common_Types Wait_Graph
begin

text \<open>
  \<open>DefaultLockManager\<close> (\<open>src/transaction/transaction_manager.cpp\<close>): locks with an index by
  key and one by transaction, the wait-for graph, and one \<open>shared_mutex\<close>.

  \<open>lm_wf\<close> is the invariant: both indexes list exactly the locks that exist, and two locks that
  different transactions hold on the same key are compatible. Between the two halves of a
  blocked \<open>acquire_lock\<close> other threads run, so the invariant is shown for a step relation
  (\<open>lm_step\<close>) whose steps are the sections the code runs under the mutex.
\<close>

datatype lock_type = SHARED | EXCLUSIVE | INTENTION_SHARED | INTENTION_EXCLUSIVE

type_synonym lock_id = string
type_synonym tx_id = u64

record lock_info =
  li_lock_id :: lock_id
  li_type :: lock_type
  li_tx :: tx_id
  li_key :: multi_level_key
  li_acquired_at :: time_point
  li_timeout :: millis

definition lock_is_expired :: "time_point \<Rightarrow> lock_info \<Rightarrow> bool" where
  "lock_is_expired now li = (now - li_acquired_at li > millis_ns (li_timeout li))"

record lock_manager =
  lm_locks :: "(lock_id \<times> lock_info) list"
  lm_key_locks :: "multi_level_key \<Rightarrow> lock_id list option"
  lm_tx_locks :: "tx_id \<Rightarrow> lock_id list option"
  lm_wait_graph :: wait_graph
  lm_next_id :: u64
  lm_held :: bool

definition LockManager_new :: lock_manager where
  "LockManager_new = \<lparr>lm_locks = [], lm_key_locks = (\<lambda>k. None), lm_tx_locks = (\<lambda>t. None),
     lm_wait_graph = [], lm_next_id = 1, lm_held = False\<rparr>"

definition lm_set_held :: "bool \<Rightarrow> lock_manager \<Rightarrow> lock_manager" where
  "lm_set_held b lm = lm\<lparr>lm_held := b\<rparr>"

interpretation lm_mx: mutex_class lm_held lm_set_held
  by unfold_locales (auto simp: lm_set_held_def)

abbreviation lm_locked :: "(lock_manager, 'a) op \<Rightarrow> (lock_manager, 'a) op" where
  "lm_locked \<equiv> guarded lm_held lm_set_held"

definition is_lock_compatible :: "lock_type \<Rightarrow> lock_type \<Rightarrow> bool" where
  "is_lock_compatible existing requested =
     (case existing of
        SHARED \<Rightarrow> requested = SHARED \<or> requested = INTENTION_SHARED
      | EXCLUSIVE \<Rightarrow> False
      | INTENTION_SHARED \<Rightarrow> requested \<noteq> EXCLUSIVE
      | INTENTION_EXCLUSIVE \<Rightarrow> requested = INTENTION_SHARED \<or> requested = INTENTION_EXCLUSIVE)"

definition generate_lock_id :: "lock_manager \<Rightarrow> lock_id" where
  "generate_lock_id lm = ''lock_'' @ to_string (unat (lm_next_id lm))"

text \<open>The first lock of another transaction in the list that does not go with the request.\<close>

fun find_conflict :: "lock_manager \<Rightarrow> tx_id \<Rightarrow> lock_type \<Rightarrow> lock_id list \<Rightarrow> (lock_id \<times> lock_info) option" where
  "find_conflict lm tx type [] = None"
| "find_conflict lm tx type (i # ids) =
     (case map_of (lm_locks lm) i of
        None \<Rightarrow> find_conflict lm tx type ids
      | Some li \<Rightarrow>
          if li_tx li = tx then find_conflict lm tx type ids
          else if \<not> is_lock_compatible (li_type li) type then Some (i, li)
          else find_conflict lm tx type ids)"

definition key_lock_ids :: "lock_manager \<Rightarrow> multi_level_key \<Rightarrow> lock_id list" where
  "key_lock_ids lm k = (case lm_key_locks lm k of None \<Rightarrow> [] | Some ids \<Rightarrow> ids)"

definition tx_lock_ids :: "lock_manager \<Rightarrow> tx_id \<Rightarrow> lock_id list" where
  "tx_lock_ids lm t = (case lm_tx_locks lm t of None \<Rightarrow> [] | Some ids \<Rightarrow> ids)"

definition grant_lock ::
    "time_point \<Rightarrow> tx_id \<Rightarrow> multi_level_key \<Rightarrow> lock_type \<Rightarrow> millis \<Rightarrow> lock_manager \<Rightarrow>
     lock_id \<times> lock_manager" where
  "grant_lock now tx key type timeout lm =
     (let i = generate_lock_id lm;
          info = \<lparr>li_lock_id = i, li_type = type, li_tx = tx, li_key = key,
                  li_acquired_at = now, li_timeout = timeout\<rparr>
      in (i, lm\<lparr>lm_locks := AList.update i info (lm_locks lm),
                lm_key_locks := (lm_key_locks lm)(key \<mapsto> key_lock_ids lm key @ [i]),
                lm_tx_locks := (lm_tx_locks lm)(tx \<mapsto> List.insert i (tx_lock_ids lm tx)),
                lm_wait_graph := clear_waits tx (lm_wait_graph lm),
                lm_next_id := lm_next_id lm + 1\<rparr>))"

text \<open>
  The first half of \<open>acquire_lock\<close>, up to where it grants the lock, reports a deadlock, or
  gives up the mutex to wait for the lock it found in its way.
\<close>

datatype acquire_outcome = Granted lock_id | Deadlock | Blocked lock_id

definition acquire_begin ::
    "time_point \<Rightarrow> tx_id \<Rightarrow> multi_level_key \<Rightarrow> lock_type \<Rightarrow> millis \<Rightarrow> lock_manager \<Rightarrow>
     acquire_outcome \<times> lock_manager" where
  "acquire_begin now tx key type timeout lm =
     (case find_conflict lm tx type (key_lock_ids lm key) of
        None \<Rightarrow> let (i, lm) = grant_lock now tx key type timeout lm in (Granted i, lm)
      | Some (i, existing) \<Rightarrow>
          let g = add_wait tx (li_tx existing) (lm_wait_graph lm)
          in if find_cycle_in_wait_graph g tx \<noteq> []
             then (Deadlock, lm\<lparr>lm_wait_graph := remove_wait tx (li_tx existing) g\<rparr>)
             else (Blocked i, lm\<lparr>lm_wait_graph := g\<rparr>))"

text \<open>
  The second half, once the mutex is taken again. After the deadline it takes back the edge of the
  wait-for graph and reports the timeout; it reads the lock it waited for through a reference,
  which dangles when the lock has been released in the meantime (\<open>None\<close>: undefined behaviour). Before
  the deadline the method calls itself; the inner call locks the \<open>shared_mutex\<close> that the outer one
  holds, and throws. The edge stays in the graph.
\<close>

definition timeout_error :: "tx_id \<Rightarrow> 'a result" where
  "timeout_error tx = Error TIMEOUT (''Lock acquisition timeout for transaction '' @ to_string (unat tx))"

definition acquire_resume ::
    "time_point \<Rightarrow> time_point \<Rightarrow> tx_id \<Rightarrow> lock_id \<Rightarrow> (lock_manager, unit attempt) op" where
  "acquire_resume now deadline tx i lm =
     (if now > deadline
      then do { existing \<leftarrow> map_of (lm_locks lm) i;
                Some (Returns (), lm\<lparr>lm_wait_graph := remove_wait tx (li_tx existing) (lm_wait_graph lm)\<rparr>) }
      else Some (Raises, lm))"

text \<open>\<open>window\<close> is what other threads do while the mutex is free; \<open>now2\<close> is the time after it.\<close>

definition acquire_lock ::
    "time_point \<Rightarrow> time_point \<Rightarrow> (lock_manager \<Rightarrow> lock_manager) \<Rightarrow>
     tx_id \<Rightarrow> multi_level_key \<Rightarrow> lock_type \<Rightarrow> millis \<Rightarrow> (lock_manager, lock_id result attempt) op" where
  "acquire_lock now now2 window tx key type timeout = lm_locked (\<lambda>lm.
     case acquire_begin now tx key type timeout lm of
       (Granted i, lm) \<Rightarrow> Some (Returns (Ok i), lm)
     | (Deadlock, lm) \<Rightarrow>
         Some (Returns (Error DEADLOCK_DETECTED
           (''Deadlock detected involving transaction '' @ to_string (unat tx))), lm)
     | (Blocked i, lm) \<Rightarrow>
         do { (r, lm) \<leftarrow> acquire_resume now2 (now + millis_ns timeout) tx i
                  (lm_set_held True (window (lm_set_held False lm)));
              Some (map_attempt (\<lambda>_. timeout_error tx) r, lm) })"

definition drop_id ::
    "'k \<Rightarrow> lock_id \<Rightarrow> ('k \<Rightarrow> lock_id list option) \<Rightarrow> 'k \<Rightarrow> lock_id list option" where
  "drop_id k i m =
     (case m k of
        None \<Rightarrow> m
      | Some ids \<Rightarrow> let ids = removeAll i ids in m(k := if ids = [] then None else Some ids))"

definition release_section :: "lock_id \<Rightarrow> lock_manager \<Rightarrow> unit result \<times> lock_manager" where
  "release_section i lm =
     (case map_of (lm_locks lm) i of
        None \<Rightarrow> (Error NOT_FOUND (''Lock not found: '' @ i), lm)
      | Some li \<Rightarrow>
          (Ok (), lm\<lparr>lm_key_locks := drop_id (li_key li) i (lm_key_locks lm),
             lm_tx_locks := drop_id (li_tx li) i (lm_tx_locks lm),
             lm_locks := AList.delete i (lm_locks lm)\<rparr>))"

definition release_lock :: "lock_id \<Rightarrow> (lock_manager, unit result) op" where
  "release_lock i = lm_locked (\<lambda>lm. Some (release_section i lm))"

text \<open>The loops that call \<open>release_lock\<close> run under the mutex that it locks.\<close>

fun release_each :: "lock_id list \<Rightarrow> (lock_manager, unit attempt) op" where
  "release_each [] lm = Some (Returns (), lm)"
| "release_each (i # ids) lm =
     and_then (relock lm_held (returning (release_lock i))) (\<lambda>_. release_each ids) lm"

definition release_all_locks :: "tx_id \<Rightarrow> (lock_manager, unit result attempt) op" where
  "release_all_locks tx = lm_locked (\<lambda>lm.
     case lm_tx_locks lm tx of
       None \<Rightarrow> Some (Returns (Ok ()), lm)
     | Some lock_ids \<Rightarrow>
         and_then (release_each lock_ids)
           (\<lambda>_ lm. Some (Returns (Ok ()), lm\<lparr>lm_wait_graph := clear_waits tx (lm_wait_graph lm)\<rparr>)) lm)"

definition is_locked :: "multi_level_key \<Rightarrow> (lock_manager, bool) op" where
  "is_locked key = lm_locked (\<lambda>lm. Some (key_lock_ids lm key \<noteq> [], lm))"

fun all_compatible :: "lock_manager \<Rightarrow> lock_type \<Rightarrow> lock_id list \<Rightarrow> bool" where
  "all_compatible lm type [] = True"
| "all_compatible lm type (i # ids) =
     (case map_of (lm_locks lm) i of
        None \<Rightarrow> all_compatible lm type ids
      | Some li \<Rightarrow> is_lock_compatible (li_type li) type \<and> all_compatible lm type ids)"

definition can_acquire_lock :: "multi_level_key \<Rightarrow> lock_type \<Rightarrow> (lock_manager, bool) op" where
  "can_acquire_lock key type = lm_locked (\<lambda>lm.
     Some (all_compatible lm type (key_lock_ids lm key), lm))"

definition get_locks_by_transaction :: "tx_id \<Rightarrow> (lock_manager, lock_info list) op" where
  "get_locks_by_transaction tx = lm_locked (\<lambda>lm.
     Some (List.map_filter (map_of (lm_locks lm)) (tx_lock_ids lm tx), lm))"

fun detect_loop :: "wait_graph \<Rightarrow> tx_id list \<Rightarrow> tx_id list \<Rightarrow> tx_id list list" where
  "detect_loop g visited [] = []"
| "detect_loop g visited (tx # txs) =
     (if tx \<in> set visited then detect_loop g visited txs
      else let cycle = find_cycle_in_wait_graph g tx
           in if cycle \<noteq> [] then cycle # detect_loop g (cycle @ visited) txs
              else detect_loop g visited txs)"

definition detect_deadlocks :: "(lock_manager, tx_id list list) op" where
  "detect_deadlocks = lm_locked (\<lambda>lm.
     Some (detect_loop (lm_wait_graph lm) [] (map fst (lm_wait_graph lm)), lm))"

text \<open>The victim is the largest transaction number of what the search returned.\<close>

definition deadlock_victim :: "tx_id list \<Rightarrow> tx_id" where
  "deadlock_victim cycle = foldl max (hd cycle) (tl cycle)"

definition resolve_deadlock :: "tx_id list \<Rightarrow> (lock_manager, unit result attempt) op" where
  "resolve_deadlock cycle lm =
     (if cycle = [] then Some (Returns (Error INVALID_ARGUMENT ''Empty deadlock cycle''), lm)
      else release_all_locks (deadlock_victim cycle) lm)"

definition cleanup_expired_locks :: "time_point \<Rightarrow> (lock_manager, unit attempt) op" where
  "cleanup_expired_locks now = lm_locked (\<lambda>lm.
     release_each (map fst (filter (\<lambda>(i, li). lock_is_expired now li) (lm_locks lm))) lm)"

section \<open>The invariant\<close>

abbreviation lock_of :: "lock_manager \<Rightarrow> lock_id \<Rightarrow> lock_info option" where
  "lock_of lm \<equiv> map_of (lm_locks lm)"

definition ids_below :: "lock_manager \<Rightarrow> bool" where
  "ids_below lm \<longleftrightarrow> (\<forall>i li. lock_of lm i = Some li \<longrightarrow>
     li_lock_id li = i \<and> (\<exists>n < unat (lm_next_id lm). i = ''lock_'' @ to_string n))"

definition indexed :: "lock_manager \<Rightarrow> bool" where
  "indexed lm \<longleftrightarrow>
     (\<forall>k. set (key_lock_ids lm k) = {i. \<exists>li. lock_of lm i = Some li \<and> li_key li = k})
     \<and> (\<forall>t. set (tx_lock_ids lm t) = {i. \<exists>li. lock_of lm i = Some li \<and> li_tx li = t})
     \<and> (\<forall>t. lm_tx_locks lm t \<noteq> Some [])"

definition pairwise_compatible :: "lock_manager \<Rightarrow> bool" where
  "pairwise_compatible lm \<longleftrightarrow> (\<forall>i j li lj. lock_of lm i = Some li \<longrightarrow> lock_of lm j = Some lj \<longrightarrow>
     li_key li = li_key lj \<longrightarrow> li_tx li \<noteq> li_tx lj \<longrightarrow> is_lock_compatible (li_type li) (li_type lj))"

definition lm_wf :: "lock_manager \<Rightarrow> bool" where
  "lm_wf lm \<longleftrightarrow> ids_below lm \<and> indexed lm \<and> pairwise_compatible lm
     \<and> acyclic (wait_edges (lm_wait_graph lm))"

lemma is_lock_compatible_sym: "is_lock_compatible a b = is_lock_compatible b a"
  by (cases a; cases b) (simp_all add: is_lock_compatible_def)

lemma lm_wf_new: "lm_wf LockManager_new"
  by (simp add: lm_wf_def ids_below_def indexed_def pairwise_compatible_def LockManager_new_def
      key_lock_ids_def tx_lock_ids_def wait_edges_def waits_for_def acyclic_def)

lemma lm_wf_held [simp]: "lm_wf (lm_set_held b lm) = lm_wf lm" "lm_wf (lm\<lparr>lm_held := b\<rparr>) = lm_wf lm"
  by (simp_all add: lm_wf_def lm_set_held_def ids_below_def indexed_def pairwise_compatible_def
      key_lock_ids_def tx_lock_ids_def)

lemma lm_wf_graph:
  "lm_wf lm \<Longrightarrow> acyclic (wait_edges g) \<Longrightarrow> lm_wf (lm\<lparr>lm_wait_graph := g\<rparr>)"
  by (simp add: lm_wf_def ids_below_def indexed_def pairwise_compatible_def
      key_lock_ids_def tx_lock_ids_def)

lemma find_conflict_None:
  "find_conflict lm tx type ids = None \<Longrightarrow> i \<in> set ids \<Longrightarrow> lock_of lm i = Some li \<Longrightarrow>
   li_tx li \<noteq> tx \<Longrightarrow> is_lock_compatible (li_type li) type"
  by (induction ids) (auto split: option.splits if_splits)

lemma find_conflict_Some:
  "find_conflict lm tx type ids = Some (i, li) \<Longrightarrow>
   i \<in> set ids \<and> lock_of lm i = Some li \<and> li_tx li \<noteq> tx \<and> \<not> is_lock_compatible (li_type li) type"
  by (induction ids) (auto split: option.splits if_splits)

lemma new_id_fresh:
  assumes "ids_below lm"
  shows "lock_of lm (generate_lock_id lm) = None"
proof (rule ccontr)
  assume "lock_of lm (generate_lock_id lm) \<noteq> None"
  then obtain li where "lock_of lm (generate_lock_id lm) = Some li" by blast
  with assms obtain n where "n < unat (lm_next_id lm)" "generate_lock_id lm = ''lock_'' @ to_string n"
    unfolding ids_below_def by blast
  then show False by (simp add: generate_lock_id_def)
qed

lemma grant_lock_of:
  assumes "grant_lock now tx key type timeout lm = (i, lm')"
  shows "i = generate_lock_id lm"
    and "lock_of lm' = (lock_of lm)(i \<mapsto> \<lparr>li_lock_id = i, li_type = type, li_tx = tx, li_key = key,
        li_acquired_at = now, li_timeout = timeout\<rparr>)"
    and "key_lock_ids lm' k = (if k = key then key_lock_ids lm key @ [i] else key_lock_ids lm k)"
    and "tx_lock_ids lm' t = (if t = tx then List.insert i (tx_lock_ids lm tx) else tx_lock_ids lm t)"
    and "lm_wait_graph lm' = clear_waits tx (lm_wait_graph lm)"
    and "lm_next_id lm' = lm_next_id lm + 1" and "lm_held lm' = lm_held lm"
    and "lm_tx_locks lm' = (lm_tx_locks lm)(tx \<mapsto> List.insert i (tx_lock_ids lm tx))"
  using assms
  by (auto simp: grant_lock_def Let_def update_conv' key_lock_ids_def tx_lock_ids_def)

lemma grant_lock_wf:
  assumes "lm_wf lm" and "lm_next_id lm \<noteq> - 1"
    and "find_conflict lm tx type (key_lock_ids lm key) = None"
    and "grant_lock now tx key type timeout lm = (i, lm')"
  shows "lm_wf lm'"
proof -
  note g = grant_lock_of [OF assms(4)]
  from assms(1) have ids: "ids_below lm" and ix: "indexed lm" and pc: "pairwise_compatible lm"
    and ac: "acyclic (wait_edges (lm_wait_graph lm))"
    by (simp_all add: lm_wf_def)
  have fresh: "lock_of lm i = None" using new_id_fresh [OF ids] g(1) by simp
  have "ids_below lm'"
    unfolding ids_below_def g(2,6) next_id_step [OF assms(2)]
    using ids g(1) by (auto simp: ids_below_def generate_lock_id_def less_Suc_eq)
  moreover have "indexed lm'"
    unfolding indexed_def g(2,3,4,8)
    using ix fresh by (auto simp: indexed_def List.insert_def split: if_splits)
  moreover have "pairwise_compatible lm'"
  proof -
    have old: "is_lock_compatible (li_type li) type"
      if "lock_of lm j = Some li" "li_key li = key" "li_tx li \<noteq> tx" for j li
    proof -
      have "j \<in> set (key_lock_ids lm key)" using ix that by (auto simp: indexed_def)
      from find_conflict_None [OF assms(3) this that(1,3)] show ?thesis .
    qed
    show ?thesis
      unfolding pairwise_compatible_def g(2)
      using pc old is_lock_compatible_sym by (auto simp: pairwise_compatible_def split: if_splits)
  qed
  moreover have "acyclic (wait_edges (lm_wait_graph lm'))"
    unfolding g(5) using ac by (auto intro: acyclic_subset)
  ultimately show ?thesis by (simp add: lm_wf_def)
qed

lemma acquire_begin_wf:
  assumes "lm_wf lm" and "lm_next_id lm \<noteq> - 1"
    and "acquire_begin now tx key type timeout lm = (out, lm')"
  shows "lm_wf lm'"
proof (cases "find_conflict lm tx type (key_lock_ids lm key)")
  case None
  then obtain i where "grant_lock now tx key type timeout lm = (i, lm')"
    using assms(3) by (auto simp: acquire_begin_def split: prod.splits)
  with grant_lock_wf [OF assms(1,2) None] show ?thesis .
next
  case (Some c)
  obtain i li where c: "c = (i, li)" by (cases c)
  let ?g = "add_wait tx (li_tx li) (lm_wait_graph lm)"
  have ac: "acyclic (wait_edges (lm_wait_graph lm))" using assms(1) by (simp add: lm_wf_def)
  show ?thesis
  proof (cases "find_cycle_in_wait_graph ?g tx = []")
    case True
    then have "lm' = lm\<lparr>lm_wait_graph := ?g\<rparr>"
      using assms(3) Some c by (simp add: acquire_begin_def)
    moreover have "acyclic (wait_edges ?g)" using add_wait_acyclic [OF ac True] by simp
    ultimately show ?thesis using lm_wf_graph [OF assms(1)] by simp
  next
    case False
    then have "lm' = lm\<lparr>lm_wait_graph := remove_wait tx (li_tx li) ?g\<rparr>"
      using assms(3) Some c by (simp add: acquire_begin_def)
    moreover have "acyclic (wait_edges (remove_wait tx (li_tx li) ?g))"
      using ac by (auto intro: acyclic_subset)
    ultimately show ?thesis using lm_wf_graph [OF assms(1)] by simp
  qed
qed

lemma acquire_resume_wf:
  assumes "lm_wf lm" and "acquire_resume now deadline tx i lm = Some (r, lm')"
  shows "lm_wf lm'"
proof (cases "now > deadline")
  case False
  with assms show ?thesis by (simp add: acquire_resume_def)
next
  case True
  with assms(2) obtain li where li: "lock_of lm i = Some li"
    by (cases "lock_of lm i") (auto simp: acquire_resume_def split: if_splits)
  with assms(2) True have lm': "lm' = lm\<lparr>lm_wait_graph := remove_wait tx (li_tx li) (lm_wait_graph lm)\<rparr>"
    by (simp add: acquire_resume_def)
  have "acyclic (wait_edges (remove_wait tx (li_tx li) (lm_wait_graph lm)))"
    using assms(1) by (auto simp: lm_wf_def intro: acyclic_subset)
  with lm_wf_graph [OF assms(1)] show ?thesis by (simp add: lm')
qed

lemma drop_id_ids:
  "(case drop_id k i m k' of None \<Rightarrow> [] | Some ids \<Rightarrow> ids)
   = (if k' = k then removeAll i (case m k of None \<Rightarrow> [] | Some ids \<Rightarrow> ids)
      else (case m k' of None \<Rightarrow> [] | Some ids \<Rightarrow> ids))"
  by (auto simp: drop_id_def Let_def split: option.splits)

lemma drop_id_nonempty: "m k' \<noteq> Some [] \<Longrightarrow> drop_id k i m k' \<noteq> Some []"
  by (auto simp: drop_id_def Let_def split: option.splits)

lemma release_section_wf:
  assumes "lm_wf lm" and "release_section i lm = (r, lm')"
  shows "lm_wf lm'"
proof (cases "lock_of lm i")
  case None
  with assms show ?thesis by (simp add: release_section_def)
next
  case (Some li)
  from assms(1) have ids: "ids_below lm" and ix: "indexed lm" and pc: "pairwise_compatible lm"
    and ac: "acyclic (wait_edges (lm_wait_graph lm))"
    by (simp_all add: lm_wf_def)
  have lm': "lm' = lm\<lparr>lm_key_locks := drop_id (li_key li) i (lm_key_locks lm),
             lm_tx_locks := drop_id (li_tx li) i (lm_tx_locks lm),
             lm_locks := AList.delete i (lm_locks lm)\<rparr>"
    using assms(2) Some by (simp add: release_section_def)
  have locks: "lock_of lm' j = (if j = i then None else lock_of lm j)" for j
    by (simp add: lm' delete_conv')
  have keys: "key_lock_ids lm' k = (if k = li_key li then removeAll i (key_lock_ids lm k)
      else key_lock_ids lm k)" for k
    unfolding key_lock_ids_def lm' by (simp add: drop_id_ids)
  have txs: "tx_lock_ids lm' t = (if t = li_tx li then removeAll i (tx_lock_ids lm t)
      else tx_lock_ids lm t)" for t
    unfolding tx_lock_ids_def lm' by (simp add: drop_id_ids)
  have next_id: "lm_next_id lm' = lm_next_id lm" by (simp add: lm')
  have "ids_below lm'" unfolding ids_below_def locks next_id using ids by (auto simp: ids_below_def)
  moreover have "indexed lm'"
  proof -
    have "lm_tx_locks lm' t \<noteq> Some []" for t
      using ix drop_id_nonempty [of "lm_tx_locks lm" t "li_tx li" i] by (simp add: lm' indexed_def)
    then show ?thesis
      unfolding indexed_def locks keys txs using ix Some by (auto simp: indexed_def)
  qed
  moreover have "pairwise_compatible lm'"
    unfolding pairwise_compatible_def locks using pc by (auto simp: pairwise_compatible_def)
  moreover have "acyclic (wait_edges (lm_wait_graph lm'))" using ac by (simp add: lm')
  ultimately show ?thesis by (simp add: lm_wf_def)
qed

section \<open>Interleaved use\<close>

text \<open>
  The state is the manager and the calls that wait: transaction, lock in the way, deadline. A call
  stops waiting by reporting the timeout or by throwing. A lock is granted only while a number is left (\<open>2^64 - 1\<close> of them).
\<close>

type_synonym waiter = "tx_id \<times> lock_id \<times> time_point"

inductive lm_step :: "lock_manager \<times> waiter list \<Rightarrow> lock_manager \<times> waiter list \<Rightarrow> bool" where
  acquire_returns: "acquire_begin now tx key type timeout lm = (out, lm') \<Longrightarrow> out \<noteq> Blocked i \<Longrightarrow>
    lm_next_id lm \<noteq> - 1 \<Longrightarrow> lm_step (lm, ws) (lm', ws)"
| acquire_waits: "acquire_begin now tx key type timeout lm = (Blocked i, lm') \<Longrightarrow>
    lm_next_id lm \<noteq> - 1 \<Longrightarrow> lm_step (lm, ws) (lm', (tx, i, now + millis_ns timeout) # ws)"
| wait_ends: "(tx, i, deadline) \<in> set ws \<Longrightarrow> acquire_resume now deadline tx i lm = Some (r, lm') \<Longrightarrow>
    lm_step (lm, ws) (lm', remove1 (tx, i, deadline) ws)"
| releases: "release_section i lm = (r, lm') \<Longrightarrow> lm_step (lm, ws) (lm', ws)"

definition lm_reachable :: "lock_manager \<times> waiter list \<Rightarrow> bool" where
  "lm_reachable = lm_step\<^sup>*\<^sup>* (LockManager_new, [])"

lemma lm_step_wf: "lm_step s s' \<Longrightarrow> lm_wf (fst s) \<Longrightarrow> lm_wf (fst s')"
  by (induction rule: lm_step.induct)
    (auto intro: acquire_begin_wf acquire_resume_wf release_section_wf)

lemma lm_reachable_wf: "lm_reachable s \<Longrightarrow> lm_wf (fst s)"
  unfolding lm_reachable_def
  by (induction rule: rtranclp_induct) (auto intro: lm_wf_new lm_step_wf)

lemma detect_loop_acyclic: "acyclic (wait_edges g) \<Longrightarrow> detect_loop g visited txs = []"
proof (induction txs arbitrary: visited)
  case (Cons tx txs)
  then have "find_cycle_in_wait_graph g tx = []"
    using find_cycle_iff [of g tx] by (auto simp: acyclic_def)
  with Cons show ?case by (simp add: Let_def)
qed simp

lemma detect_deadlocks_wf:
  "lm_wf lm \<Longrightarrow> \<not> lm_held lm \<Longrightarrow> detect_deadlocks lm = Some ([], lm)"
  by (simp add: detect_deadlocks_def guarded_def lm_set_held_def lm_wf_def detect_loop_acyclic)

section \<open>Calls that throw\<close>

lemma release_each_held:
  "lm_held lm \<Longrightarrow> release_each ids lm = Some (if ids = [] then Returns () else Raises, lm)"
  by (cases ids) (simp_all add: and_then_raises)

lemma release_all_locks_cases:
  assumes "lm_wf lm" and "\<not> lm_held lm"
  shows "release_all_locks tx lm =
    Some (if tx_lock_ids lm tx = [] then Returns (Ok ()) else Raises, lm)"
proof (cases "lm_tx_locks lm tx")
  case None
  with assms(2) show ?thesis
    by (simp add: release_all_locks_def guarded_def lm_set_held_def tx_lock_ids_def)
next
  case (Some ids)
  then have "ids \<noteq> []" using assms(1) by (auto simp: lm_wf_def indexed_def)
  with Some assms(2) show ?thesis
    by (simp add: release_all_locks_def guarded_def lm_set_held_def tx_lock_ids_def release_each_held
        and_then_raises)
qed

lemma cleanup_expired_raises:
  assumes "\<not> lm_held lm" and "(i, li) \<in> set (lm_locks lm)" and "lock_is_expired now li"
  shows "cleanup_expired_locks now lm = Some (Raises, lm)"
proof -
  have "filter (\<lambda>(i, li). lock_is_expired now li) (lm_locks lm) \<noteq> []"
    using assms(2,3) by (auto simp: filter_empty_conv)
  then show ?thesis
    using assms(1)
    by (simp add: cleanup_expired_locks_def guarded_def lm_set_held_def release_each_held)
qed

text \<open>A lock that is in the way is never granted by the call that waits for it.\<close>

lemma find_conflict_held: "find_conflict (lm_set_held b lm) tx type ids = find_conflict lm tx type ids"
  by (induction ids) (auto simp: lm_set_held_def split: option.splits)

lemma acquire_begin_held:
  assumes "acquire_begin now tx key type timeout lm = (out, lm')"
  shows "acquire_begin now tx key type timeout (lm_set_held b lm) = (out, lm_set_held b lm')"
proof -
  have kl: "key_lock_ids (lm_set_held b lm) key = key_lock_ids lm key"
    by (simp add: key_lock_ids_def lm_set_held_def)
  have gr: "grant_lock now tx key type timeout (lm_set_held b lm) =
      (fst (grant_lock now tx key type timeout lm),
       lm_set_held b (snd (grant_lock now tx key type timeout lm)))"
    by (simp add: grant_lock_def lm_set_held_def Let_def generate_lock_id_def key_lock_ids_def
        tx_lock_ids_def)
  from assms show ?thesis
    unfolding acquire_begin_def find_conflict_held kl gr
    by (auto simp: lm_set_held_def Let_def split: option.splits prod.splits if_splits)
qed

lemma acquire_lock_cases:
  assumes "\<not> lm_held lm" and "acquire_begin now tx key type timeout lm = (out, lm1)"
  shows "acquire_lock now now2 window tx key type timeout lm =
    (case out of
       Granted i \<Rightarrow> Some (Returns (Ok i), lm_set_held False lm1)
     | Deadlock \<Rightarrow>
         Some (Returns (Error DEADLOCK_DETECTED
           (''Deadlock detected involving transaction '' @ to_string (unat tx))), lm_set_held False lm1)
     | Blocked i \<Rightarrow>
         map_option (\<lambda>(r, lm2). (map_attempt (\<lambda>_. timeout_error tx) r, lm_set_held False lm2))
           (acquire_resume now2 (now + millis_ns timeout) tx i
             (lm_set_held True (window (lm_set_held False lm1)))))"
  using assms(1) acquire_begin_held [OF assms(2), of True]
  by (cases out) (simp_all add: acquire_lock_def guarded_def lm_mx.set_set map_conv_bind_option
      comp_def split_def)

lemma acquire_lock_ok:
  assumes "\<not> lm_held lm" and "acquire_lock now now2 window tx key type timeout lm = Some (Returns (Ok i), lm')"
  shows "find_conflict lm tx type (key_lock_ids lm key) = None
    \<and> grant_lock now tx key type timeout lm = (i, lm')"
proof -
  obtain out lm1 where b: "acquire_begin now tx key type timeout lm = (out, lm1)" by fastforce
  from assms(2) acquire_lock_cases [OF assms(1) b, of now2 window]
  have out: "out = Granted i" and lm': "lm' = lm_set_held False lm1"
    by (auto simp: timeout_error_def elim!: attempt_map_Returns split: acquire_outcome.splits)
  have fc: "find_conflict lm tx type (key_lock_ids lm key) = None"
    using b out by (auto simp: acquire_begin_def Let_def split: option.splits prod.splits if_splits)
  with b out have g: "grant_lock now tx key type timeout lm = (i, lm1)"
    by (auto simp: acquire_begin_def split: prod.splits)
  with grant_lock_of(7) [OF g] assms(1) lm' have "lm' = lm1"
    by (simp add: lm_mx.set_same)
  with fc g show ?thesis by simp
qed

section \<open>The interface of a lock manager\<close>

text \<open>
  What the transaction manager relies on: a granted lock is added to those that are held, and
  locks of different transactions on one key are compatible. \<open>sound\<close> is the invariant of the
  provider, \<open>holds\<close> the locks as triples.
\<close>

type_synonym held_lock = "tx_id \<times> multi_level_key \<times> lock_type"

locale lock_service =
  fixes sound :: "'l \<Rightarrow> bool" and holds :: "'l \<Rightarrow> held_lock set"
    and acquire :: "tx_id \<Rightarrow> multi_level_key \<Rightarrow> lock_type \<Rightarrow> ('l, lock_id result attempt) op"
  assumes compatible: "sound l \<Longrightarrow> (t, k, a) \<in> holds l \<Longrightarrow> (u, k, b) \<in> holds l \<Longrightarrow> t \<noteq> u \<Longrightarrow>
      is_lock_compatible a b"
    and granted: "sound l \<Longrightarrow> acquire t k a l = Some (Returns (Ok i), l') \<Longrightarrow>
      sound l' \<and> holds l' = insert (t, k, a) (holds l)"
begin

lemma exclusive_unique:
  assumes "sound l" and "(t, k, EXCLUSIVE) \<in> holds l" and "(u, k, b) \<in> holds l"
  shows "u = t"
proof (rule ccontr)
  assume "u \<noteq> t"
  with compatible [OF assms] show False by (simp add: is_lock_compatible_def)
qed

lemma exclusive_alone:
  assumes "sound l" and "acquire t k EXCLUSIVE l = Some (Returns (Ok i), l')" and "(u, k, b) \<in> holds l'"
  shows "u = t"
  using granted [OF assms(1,2)] exclusive_unique [OF _ _ assms(3)] by simp

lemma shared_blocks_writers:
  assumes "sound l" and "acquire t k SHARED l = Some (Returns (Ok i), l')" and "(u, k, EXCLUSIVE) \<in> holds l'"
  shows "u = t"
  using granted [OF assms(1,2)] exclusive_unique [OF _ assms(3)] by blast

end

definition lm_sound :: "lock_manager \<Rightarrow> bool" where
  "lm_sound lm \<longleftrightarrow> lm_wf lm \<and> \<not> lm_held lm"

definition lm_holds :: "lock_manager \<Rightarrow> held_lock set" where
  "lm_holds lm = {(t, k, a). \<exists>i li. lock_of lm i = Some li \<and> li_tx li = t \<and> li_key li = k \<and> li_type li = a}"

text \<open>
  \<open>acquire_lock\<close> while there are lock numbers left. After \<open>2^64 - 1\<close> locks the counter of the
  code wraps round to numbers that may be in use; the contract leaves that out.
\<close>

definition acquire_numbered ::
    "time_point \<Rightarrow> time_point \<Rightarrow> (lock_manager \<Rightarrow> lock_manager) \<Rightarrow> millis \<Rightarrow>
     tx_id \<Rightarrow> multi_level_key \<Rightarrow> lock_type \<Rightarrow> (lock_manager, lock_id result attempt) op" where
  "acquire_numbered now now2 window timeout tx key type lm =
     (if lm_next_id lm = - 1 then None else acquire_lock now now2 window tx key type timeout lm)"

lemma lm_holds_iff: "(t, k, a) \<in> lm_holds lm \<longleftrightarrow>
    (\<exists>i li. lock_of lm i = Some li \<and> li_tx li = t \<and> li_key li = k \<and> li_type li = a)"
  by (simp add: lm_holds_def)

lemma holds_tx_locks: "lm_wf lm \<Longrightarrow> (t, k, a) \<in> lm_holds lm \<Longrightarrow> tx_lock_ids lm t \<noteq> []"
proof -
  assume "lm_wf lm" and "(t, k, a) \<in> lm_holds lm"
  then obtain i li where "lock_of lm i = Some li" "li_tx li = t" and "indexed lm"
    unfolding lm_holds_iff lm_wf_def by blast
  then have "i \<in> set (tx_lock_ids lm t)" by (auto simp: indexed_def)
  then show ?thesis by auto
qed

lemma grant_lock_holds:
  assumes "lm_wf lm" and "grant_lock now tx key type timeout lm = (i, lm')"
  shows "lm_holds lm' = insert (tx, key, type) (lm_holds lm)"
proof -
  define info where "info = \<lparr>li_lock_id = i, li_type = type, li_tx = tx, li_key = key,
        li_acquired_at = now, li_timeout = timeout\<rparr>"
  have info: "li_tx info = tx" "li_key info = key" "li_type info = type" by (simp_all add: info_def)
  have new: "lock_of lm' j = (if j = i then Some info else lock_of lm j)" for j
    unfolding grant_lock_of(2) [OF assms(2)] info_def by simp
  have fresh: "lock_of lm i = None"
    using assms new_id_fresh [of lm] grant_lock_of(1) [OF assms(2)] by (simp add: lm_wf_def)
  have "(t, k, a) \<in> lm_holds lm'" if "(t, k, a) \<in> lm_holds lm" for t k a
  proof -
    from that obtain j li where j: "lock_of lm j = Some li" "li_tx li = t" "li_key li = k" "li_type li = a"
      unfolding lm_holds_iff by blast
    with fresh have "j \<noteq> i" by auto
    with j new [of j] show ?thesis unfolding lm_holds_iff by auto
  qed
  moreover have "(tx, key, type) \<in> lm_holds lm'"
    using new [of i] info unfolding lm_holds_iff by auto
  moreover have "(t, k, a) = (tx, key, type) \<or> (t, k, a) \<in> lm_holds lm"
    if "(t, k, a) \<in> lm_holds lm'" for t k a
  proof -
    from that obtain j li where j: "lock_of lm' j = Some li" "li_tx li = t" "li_key li = k" "li_type li = a"
      unfolding lm_holds_iff by blast
    show ?thesis
    proof (cases "j = i")
      case True
      with j new [of j] info show ?thesis by simp
    next
      case False
      with j new [of j] show ?thesis unfolding lm_holds_iff by auto
    qed
  qed
  ultimately show ?thesis by (auto intro!: set_eqI) metis+
qed

interpretation lm: lock_service lm_sound lm_holds "acquire_numbered now now2 window timeout"
  for now now2 window timeout
proof (unfold_locales, goal_cases)
  case (1 l t k a u b)
  then obtain i li j lj where "lock_of l i = Some li" "lock_of l j = Some lj"
    "li_tx li = t" "li_tx lj = u" "li_key li = k" "li_key lj = k" "li_type li = a" "li_type lj = b"
    unfolding lm_holds_iff by blast
  moreover have "pairwise_compatible l" using 1(1) by (simp add: lm_sound_def lm_wf_def)
  ultimately show ?case using 1(4) unfolding pairwise_compatible_def by metis
next
  case (2 l t k a i l')
  from 2 have wf: "lm_wf l" and free: "\<not> lm_held l" and n: "lm_next_id l \<noteq> - 1"
    and acq: "acquire_lock now now2 window t k a timeout l = Some (Returns (Ok i), l')"
    by (auto simp: lm_sound_def acquire_numbered_def split: if_splits)
  from acquire_lock_ok [OF free acq] have fc: "find_conflict l t a (key_lock_ids l k) = None"
    and g: "grant_lock now t k a timeout l = (i, l')" by simp_all
  from grant_lock_wf [OF wf n fc g] grant_lock_holds [OF wf g] grant_lock_of(7) [OF g] free
  show ?case by (simp add: lm_sound_def)
qed

end
