(* ===== verification/Transaction_Manager.thy ===== *)
theory Transaction_Manager
  imports Lock_Manager
begin

text \<open>
  \<open>DefaultTransactionManager\<close> and \<open>TransactionContext\<close>
  (\<open>src/transaction/transaction_manager.cpp\<close>): transactions with their state, two-phase
  commit, and the lock manager they use.

  A call takes one reading of the clock. The event handler is code of the client; the model
  records the calls to it. Messages to other nodes are built and dropped, as in the code.
\<close>

datatype tx_state =
    ACTIVE | PREPARING | PREPARED | COMMITTING | COMMITTED | ABORTING | ABORTED | TIMED_OUT

datatype tx_op_type = TX_READ | TX_WRITE | TX_DELETE | TX_LOCK

datatype isolation_level = READ_UNCOMMITTED | READ_COMMITTED | REPEATABLE_READ | SERIALIZABLE

text \<open>The order of the enumeration, as \<open>isolation_level >= READ_COMMITTED\<close> uses it.\<close>

definition isolation_rank :: "isolation_level \<Rightarrow> nat" where
  "isolation_rank l = (case l of READ_UNCOMMITTED \<Rightarrow> 0 | READ_COMMITTED \<Rightarrow> 1
     | REPEATABLE_READ \<Rightarrow> 2 | SERIALIZABLE \<Rightarrow> 3)"

record tx_operation =
  op_type :: tx_op_type
  op_key :: multi_level_key
  op_old_value :: data_entry
  op_new_value :: data_entry
  op_version :: u64
  op_timestamp :: time_point

definition TransactionOperation :: "time_point \<Rightarrow> tx_operation" where
  "TransactionOperation now = \<lparr>op_type = TX_READ, op_key = MultiLevelKey [] [],
     op_old_value = DataEntry_default now, op_new_value = DataEntry_default now,
     op_version = 0, op_timestamp = now\<rparr>"

record transaction =
  transaction_id :: tx_id
  coordinator_node :: node_id
  participant_nodes :: "node_id list"
  tx_state :: tx_state
  isolation_level :: isolation_level
  operations :: "tx_operation list"
  held_locks :: "lock_id list"
  created_at :: time_point
  last_activity :: time_point
  tx_timeout :: millis
  prepare_votes :: "(node_id \<times> bool) list"
  commit_acks :: "(node_id \<times> bool) list"

definition DistributedTransaction :: "time_point \<Rightarrow> transaction" where
  "DistributedTransaction now = \<lparr>transaction_id = 0, coordinator_node = [], participant_nodes = [],
     tx_state = ACTIVE, isolation_level = READ_COMMITTED, operations = [], held_locks = [],
     created_at = now, last_activity = now, tx_timeout = 30000, prepare_votes = [],
     commit_acks = []\<rparr>"

definition tx_is_expired :: "time_point \<Rightarrow> transaction \<Rightarrow> bool" where
  "tx_is_expired now tx = (now - last_activity tx > millis_ns (tx_timeout tx))"

definition update_activity :: "time_point \<Rightarrow> transaction \<Rightarrow> transaction" where
  "update_activity now tx = tx\<lparr>last_activity := now\<rparr>"

datatype tpc_type =
    PREPARE | PREPARE_OK | PREPARE_ABORT | COMMIT | COMMIT_OK | ABORT | ABORT_OK

record tpc_message =
  msg_type :: tpc_type
  msg_tx :: tx_id
  from_node :: node_id
  to_node :: node_id
  msg_payload :: string
  msg_timestamp :: time_point

datatype tx_event = Started tx_id | Committed tx_id | Aborted tx_id string | DeadlockFound "tx_id list"

record tx_manager =
  tm_locks :: "lock_manager option"
  tm_handler :: bool
  tm_events :: "tx_event list"
  transactions :: "(tx_id \<times> transaction) list"
  next_transaction_id :: u64
  tm_is_running :: bool
  tm_stop_threads :: bool
  tm_default_timeout :: millis
  tm_held :: bool

definition TransactionManager_new :: tx_manager where
  "TransactionManager_new = \<lparr>tm_locks = Some LockManager_new, tm_handler = False, tm_events = [],
     transactions = [], next_transaction_id = 1, tm_is_running = False, tm_stop_threads = False,
     tm_default_timeout = 30000, tm_held = False\<rparr>"

definition tm_set_held :: "bool \<Rightarrow> tx_manager \<Rightarrow> tx_manager" where
  "tm_set_held b tm = tm\<lparr>tm_held := b\<rparr>"

interpretation tm_mx: mutex_class tm_held tm_set_held
  by unfold_locales (auto simp: tm_set_held_def)

abbreviation tm_locked :: "(tx_manager, 'a) op \<Rightarrow> (tx_manager, 'a) op" where
  "tm_locked \<equiv> guarded tm_held tm_set_held"

abbreviation tx_of :: "tx_manager \<Rightarrow> tx_id \<Rightarrow> transaction option" where
  "tx_of tm \<equiv> map_of (transactions tm)"

definition set_tx :: "tx_id \<Rightarrow> transaction \<Rightarrow> tx_manager \<Rightarrow> tx_manager" where
  "set_tx t tx tm = tm\<lparr>transactions := AList.update t tx (transactions tm)\<rparr>"

definition erase_tx :: "tx_id \<Rightarrow> tx_manager \<Rightarrow> tx_manager" where
  "erase_tx t tm = tm\<lparr>transactions := AList.delete t (transactions tm)\<rparr>"

definition tm_notify :: "tx_event \<Rightarrow> tx_manager \<Rightarrow> tx_manager" where
  "tm_notify e tm = (if tm_handler tm then tm\<lparr>tm_events := tm_events tm @ [e]\<rparr> else tm)"

text \<open>A call through \<open>lock_manager_\<close>; through a null pointer it is undefined.\<close>

definition with_locks :: "(lock_manager, 'a) op \<Rightarrow> (tx_manager, 'a) op" where
  "with_locks f tm =
     do { lm \<leftarrow> tm_locks tm; (r, lm) \<leftarrow> f lm; Some (r, tm\<lparr>tm_locks := Some lm\<rparr>) }"

definition tx_text :: "tx_id \<Rightarrow> string \<Rightarrow> string" where
  "tx_text t what = ''Transaction '' @ to_string (unat t) @ what"

definition validate_transaction :: "time_point \<Rightarrow> tx_id \<Rightarrow> tx_manager \<Rightarrow> unit result" where
  "validate_transaction now t tm =
     (case tx_of tm t of
        None \<Rightarrow> Error NOT_FOUND (tx_text t '' not found'')
      | Some tx \<Rightarrow>
          if tx_is_expired now tx then Error TIMEOUT (tx_text t '' has expired'') else Ok ())"

section \<open>Life cycle\<close>

definition tm_start :: "(tx_manager, unit result) op" where
  "tm_start = tm_locked (\<lambda>tm.
     if tm_is_running tm then Some (Ok (), tm)
     else Some (Ok (), tm\<lparr>tm_stop_threads := False, tm_is_running := True\<rparr>))"

text \<open>
  \<open>stop\<close> joins the background threads while it holds the mutex. If one of them is at that
  moment waiting for the mutex (\<open>cleanup_waiting\<close>), neither goes on.
\<close>

definition tm_stop :: "bool \<Rightarrow> (tx_manager, unit result) op" where
  "tm_stop cleanup_waiting = tm_locked (\<lambda>tm.
     if \<not> tm_is_running tm then Some (Ok (), tm)
     else if cleanup_waiting then None
     else Some (Ok (), tm\<lparr>tm_stop_threads := True, tm_is_running := False\<rparr>))"

definition tm_delete :: "bool \<Rightarrow> (tx_manager, unit) op" where
  "tm_delete cleanup_waiting = destructor tm_is_running (tm_stop cleanup_waiting)"

definition begin_transaction :: "time_point \<Rightarrow> isolation_level \<Rightarrow> (tx_manager, tx_id result) op" where
  "begin_transaction now isolation = tm_locked (\<lambda>tm.
     if \<not> tm_is_running tm
     then Some (Error SERVICE_UNAVAILABLE ''Transaction manager is not running'', tm)
     else
       let t = next_transaction_id tm;
           tx = (DistributedTransaction now)\<lparr>transaction_id := t, tx_state := ACTIVE,
                  isolation_level := isolation, created_at := now, last_activity := now,
                  tx_timeout := tm_default_timeout tm\<rparr>;
           tm = set_tx t tx (tm\<lparr>next_transaction_id := t + 1\<rparr>)
       in Some (Ok t, tm_notify (Started t) tm))"

text \<open>
  \<open>send_prepare_messages\<close>, \<open>send_commit_messages\<close> and \<open>send_abort_messages\<close> each look the
  transaction up, build a message for every participant and drop it. \<open>abort_transaction\<close>
  ignores the result of its call, which leaves no trace in the model.
\<close>

definition send_messages :: "tx_id \<Rightarrow> tx_manager \<Rightarrow> unit result" where
  "send_messages t tm =
     (case tx_of tm t of None \<Rightarrow> Error NOT_FOUND ''Transaction not found'' | Some tx \<Rightarrow> Ok ())"

text \<open>The loops over the operations have empty branches.\<close>

definition apply_transaction_operations :: "transaction \<Rightarrow> unit result" where
  "apply_transaction_operations tx = Ok ()"

definition rollback_transaction_operations :: "transaction \<Rightarrow> unit result" where
  "rollback_transaction_operations tx = Ok ()"

text \<open>\<open>if (lock_manager_) lock_manager_->release_all_locks(tx_id);\<close>\<close>

definition release_tx_locks :: "tx_id \<Rightarrow> (tx_manager, unit attempt) op" where
  "release_tx_locks t tm =
     (case tm_locks tm of
        None \<Rightarrow> Some (Returns (), tm)
      | Some _ \<Rightarrow> and_then (with_locks (release_all_locks t)) (\<lambda>_ tm. Some (Returns (), tm)) tm)"

definition abort_transaction :: "time_point \<Rightarrow> tx_id \<Rightarrow> (tx_manager, unit result attempt) op" where
  "abort_transaction now t = tm_locked (\<lambda>tm.
     case validate_transaction now t tm of
       Error s m \<Rightarrow> Some (Returns (Error s m), tm)
     | Ok _ \<Rightarrow>
         do { tx \<leftarrow> tx_of tm t;
              let tx = update_activity now (tx\<lparr>tx_state := ABORTING\<rparr>);
              let tm = set_tx t tx tm;
              case rollback_transaction_operations tx of
                Error s m \<Rightarrow> Some (Returns (Error s m), tm)
              | Ok _ \<Rightarrow>
                  and_then (release_tx_locks t) (\<lambda>_ tm.
                    let tm = set_tx t (tx\<lparr>tx_state := ABORTED\<rparr>) tm;
                        tm = tm_notify (Aborted t ''Transaction aborted by request'') tm
                    in Some (Returns (Ok ()), erase_tx t tm)) tm })"

definition commit_transaction :: "time_point \<Rightarrow> tx_id \<Rightarrow> (tx_manager, unit result attempt) op" where
  "commit_transaction now t = tm_locked (\<lambda>tm.
     case validate_transaction now t tm of
       Error s m \<Rightarrow> Some (Returns (Error s m), tm)
     | Ok _ \<Rightarrow>
         do { tx \<leftarrow> tx_of tm t;
              if tx_state tx \<noteq> ACTIVE
              then Some (Returns (Error INVALID_STATE (tx_text t '' is not in active state'')), tm)
              else
                let tx = update_activity now (tx\<lparr>tx_state := PREPARING\<rparr>);
                    tm = set_tx t tx tm
                in case send_messages t tm of
                     Error s m \<Rightarrow>
                       and_then (relock tm_held (abort_transaction now t))
                         (\<lambda>_ tm. Some (Returns (Error s m), tm))
                         (set_tx t (tx\<lparr>tx_state := ABORTING\<rparr>) tm)
                   | Ok _ \<Rightarrow>
                       if \<not> list_all snd (prepare_votes tx)
                       then Some (Returns (Error TRANSACTION_ABORTED ''Some participants failed to prepare''),
                              erase_tx t (set_tx t (tx\<lparr>tx_state := ABORTING\<rparr>) tm))
                       else
                         let tx = update_activity now (tx\<lparr>tx_state := COMMITTING\<rparr>);
                             tm = set_tx t tx tm
                         in case send_messages t tm of
                              Error s m \<Rightarrow> Some (Returns (Error s m), tm)
                            | Ok _ \<Rightarrow>
                                (case apply_transaction_operations tx of
                                   Error s m \<Rightarrow> Some (Returns (Error s m), tm)
                                 | Ok _ \<Rightarrow>
                                     and_then (release_tx_locks t) (\<lambda>_ tm.
                                       let tm = set_tx t (tx\<lparr>tx_state := COMMITTED\<rparr>) tm;
                                           tm = tm_notify (Committed t) tm
                                       in Some (Returns (Ok ()), erase_tx t tm)) tm) })"

section \<open>Data operations\<close>

text \<open>
  What \<open>read\<close>, \<open>write\<close>, \<open>remove\<close> and \<open>lock\<close> share: a lock of the given type with a timeout of
  five seconds, then the record of the operation. \<open>acq\<close> is the acquisition.
\<close>

type_synonym acquisition = "tx_id \<Rightarrow> multi_level_key \<Rightarrow> lock_type \<Rightarrow>
  (lock_manager, lock_id result attempt) op"

definition take_lock ::
    "acquisition \<Rightarrow> tx_id \<Rightarrow> multi_level_key \<Rightarrow> lock_type \<Rightarrow> transaction \<Rightarrow>
     (tx_manager, transaction result attempt) op" where
  "take_lock acq t key type tx =
     and_then (with_locks (acq t key type)) (\<lambda>r tm.
       case r of
         Error s m \<Rightarrow> Some (Returns (Error s m), tm)
       | Ok i \<Rightarrow> let tx = tx\<lparr>held_locks := List.insert i (held_locks tx)\<rparr>
                 in Some (Returns (Ok tx), set_tx t tx tm))"

definition record_operation ::
    "time_point \<Rightarrow> tx_operation \<Rightarrow> tx_id \<Rightarrow> transaction \<Rightarrow> tx_manager \<Rightarrow> tx_manager" where
  "record_operation now oper t tx tm =
     set_tx t (update_activity now (tx\<lparr>operations := operations tx @ [oper]\<rparr>)) tm"

definition tm_read ::
    "acquisition \<Rightarrow> time_point \<Rightarrow> tx_id \<Rightarrow> multi_level_key \<Rightarrow> (tx_manager, data_entry result attempt) op" where
  "tm_read acq now t key = tm_locked (\<lambda>tm.
     case validate_transaction now t tm of
       Error s m \<Rightarrow> Some (Returns (Error s m), tm)
     | Ok _ \<Rightarrow>
         do { tx \<leftarrow> tx_of tm t;
              and_then
                (if isolation_rank (isolation_level tx) \<ge> isolation_rank READ_COMMITTED
                 then take_lock acq t key SHARED tx else (\<lambda>tm. Some (Returns (Ok tx), tm)))
                (\<lambda>r tm.
                  case r of
                    Error s m \<Rightarrow> Some (Returns (Error s m), tm)
                  | Ok tx \<Rightarrow>
                      let oper = (TransactionOperation now)\<lparr>op_type := TX_READ, op_key := key\<rparr>;
                          entry = \<lparr>entry_value = ''simulated_value_for_'' @ key_to_string key,
                                   version = 1, timestamp = millis_of now, deleted = False\<rparr>
                      in Some (Returns (Ok entry), record_operation now oper t tx tm)) tm })"

definition locked_operation ::
    "acquisition \<Rightarrow> time_point \<Rightarrow> tx_id \<Rightarrow> multi_level_key \<Rightarrow> lock_type \<Rightarrow> tx_operation \<Rightarrow>
     (tx_manager, unit result attempt) op" where
  "locked_operation acq now t key type oper = tm_locked (\<lambda>tm.
     case validate_transaction now t tm of
       Error s m \<Rightarrow> Some (Returns (Error s m), tm)
     | Ok _ \<Rightarrow>
         do { tx \<leftarrow> tx_of tm t;
              and_then (take_lock acq t key type tx) (\<lambda>r tm.
                case r of
                  Error s m \<Rightarrow> Some (Returns (Error s m), tm)
                | Ok tx \<Rightarrow> Some (Returns (Ok ()), record_operation now oper t tx tm)) tm })"

definition tm_write ::
    "acquisition \<Rightarrow> time_point \<Rightarrow> tx_id \<Rightarrow> multi_level_key \<Rightarrow> data_entry \<Rightarrow>
     (tx_manager, unit result attempt) op" where
  "tm_write acq now t key value = locked_operation acq now t key EXCLUSIVE
     ((TransactionOperation now)\<lparr>op_type := TX_WRITE, op_key := key, op_new_value := value\<rparr>)"

definition tm_remove ::
    "acquisition \<Rightarrow> time_point \<Rightarrow> tx_id \<Rightarrow> multi_level_key \<Rightarrow> (tx_manager, unit result attempt) op" where
  "tm_remove acq now t key = locked_operation acq now t key EXCLUSIVE
     ((TransactionOperation now)\<lparr>op_type := TX_DELETE, op_key := key\<rparr>)"

definition tm_lock ::
    "acquisition \<Rightarrow> time_point \<Rightarrow> tx_id \<Rightarrow> multi_level_key \<Rightarrow> lock_type \<Rightarrow>
     (tx_manager, unit result attempt) op" where
  "tm_lock acq now t key type = locked_operation acq now t key type
     ((TransactionOperation now)\<lparr>op_type := TX_LOCK, op_key := key\<rparr>)"

section \<open>Two-phase commit\<close>

definition tm_prepare :: "time_point \<Rightarrow> tx_id \<Rightarrow> (tx_manager, unit result) op" where
  "tm_prepare now t = tm_locked (\<lambda>tm.
     case validate_transaction now t tm of
       Error s m \<Rightarrow> Some (Error s m, tm)
     | Ok _ \<Rightarrow>
         do { tx \<leftarrow> tx_of tm t;
              if tx_state tx \<noteq> ACTIVE
              then Some (Error INVALID_STATE (tx_text t '' is not in active state''), tm)
              else Some (Ok (), set_tx t (update_activity now (tx\<lparr>tx_state := PREPARED\<rparr>)) tm) })"

definition handle_prepare_message :: "tpc_message \<Rightarrow> tx_manager \<Rightarrow> tx_manager" where
  "handle_prepare_message msg tm =
     (case tx_of tm (msg_tx msg) of
        None \<Rightarrow> tm
      | Some tx \<Rightarrow> set_tx (msg_tx msg) (tx\<lparr>tx_state := PREPARED\<rparr>) tm)"

definition handle_prepare_response :: "tpc_message \<Rightarrow> tx_manager \<Rightarrow> tx_manager" where
  "handle_prepare_response msg tm =
     (case tx_of tm (msg_tx msg) of
        None \<Rightarrow> tm
      | Some tx \<Rightarrow>
          let vote = (msg_type msg = PREPARE_OK)
          in set_tx (msg_tx msg)
               (tx\<lparr>prepare_votes := AList.update (from_node msg) vote (prepare_votes tx)\<rparr>) tm)"

definition handle_commit_message :: "tpc_message \<Rightarrow> tx_manager \<Rightarrow> tx_manager" where
  "handle_commit_message msg tm =
     (case tx_of tm (msg_tx msg) of
        None \<Rightarrow> tm
      | Some tx \<Rightarrow> set_tx (msg_tx msg) (tx\<lparr>tx_state := COMMITTED\<rparr>) tm)"

definition handle_abort_message :: "tpc_message \<Rightarrow> tx_manager \<Rightarrow> tx_manager" where
  "handle_abort_message msg tm =
     (case tx_of tm (msg_tx msg) of
        None \<Rightarrow> tm
      | Some tx \<Rightarrow> set_tx (msg_tx msg) (tx\<lparr>tx_state := ABORTED\<rparr>) tm)"

definition handle_tpc_message :: "tpc_message \<Rightarrow> (tx_manager, unit result) op" where
  "handle_tpc_message msg = tm_locked (\<lambda>tm.
     case msg_type msg of
       PREPARE \<Rightarrow> Some (Ok (), handle_prepare_message msg tm)
     | PREPARE_OK \<Rightarrow> Some (Ok (), handle_prepare_response msg tm)
     | PREPARE_ABORT \<Rightarrow> Some (Ok (), handle_prepare_response msg tm)
     | COMMIT \<Rightarrow> Some (Ok (), handle_commit_message msg tm)
     | ABORT \<Rightarrow> Some (Ok (), handle_abort_message msg tm)
     | _ \<Rightarrow> Some (Error INVALID_ARGUMENT ''Unknown TPC message type'', tm))"

section \<open>Queries, configuration and background work\<close>

definition get_transaction_state :: "tx_id \<Rightarrow> (tx_manager, tx_state) op" where
  "get_transaction_state t = tm_locked (\<lambda>tm.
     Some (case tx_of tm t of None \<Rightarrow> ABORTED | Some tx \<Rightarrow> tx_state tx, tm))"

definition get_active_transactions :: "(tx_manager, tx_id list) op" where
  "get_active_transactions = tm_locked (\<lambda>tm.
     Some (map fst (filter (\<lambda>(t, tx). tx_state tx = ACTIVE) (transactions tm)), tm))"

definition get_transaction_info :: "time_point \<Rightarrow> tx_id \<Rightarrow> (tx_manager, transaction) op" where
  "get_transaction_info now t = tm_locked (\<lambda>tm.
     Some (case tx_of tm t of None \<Rightarrow> DistributedTransaction now | Some tx \<Rightarrow> tx, tm))"

definition tm_set_event_handler :: "bool \<Rightarrow> (tx_manager, unit) op" where
  "tm_set_event_handler present = tm_locked (\<lambda>tm. Some ((), tm\<lparr>tm_handler := present\<rparr>))"

definition tm_set_lock_manager :: "lock_manager option \<Rightarrow> (tx_manager, unit) op" where
  "tm_set_lock_manager lm = tm_locked (\<lambda>tm. Some ((), tm\<lparr>tm_locks := lm\<rparr>))"

definition tm_set_default_timeout :: "millis \<Rightarrow> (tx_manager, unit) op" where
  "tm_set_default_timeout timeout = tm_locked (\<lambda>tm. Some ((), tm\<lparr>tm_default_timeout := timeout\<rparr>))"

definition recover_transactions :: "(tx_manager, unit result) op" where
  "recover_transactions = tm_locked (\<lambda>tm. Some (Ok (), tm))"

text \<open>The cleanup calls \<open>abort_transaction\<close> under the mutex that it locks.\<close>

fun abort_each :: "time_point \<Rightarrow> tx_id list \<Rightarrow> (tx_manager, unit attempt) op" where
  "abort_each now [] tm = Some (Returns (), tm)"
| "abort_each now (t # ts) tm =
     and_then (relock tm_held (abort_transaction now t)) (\<lambda>_. abort_each now ts) tm"

definition cleanup_expired_transactions :: "time_point \<Rightarrow> (tx_manager, unit result attempt) op" where
  "cleanup_expired_transactions now = tm_locked (\<lambda>tm.
     and_then
       (abort_each now (map fst (filter (\<lambda>(t, tx). tx_is_expired now tx) (transactions tm))))
       (\<lambda>_ tm. Some (Returns (Ok ()), tm)) tm)"

text \<open>One pass of each background loop, which catches what is thrown. The cleanup of locks is
  commented out in the code.\<close>

definition cleanup_pass :: "time_point \<Rightarrow> (tx_manager, unit) op" where
  "cleanup_pass now = caught (cleanup_expired_transactions now)"

fun resolve_each :: "tx_id list list \<Rightarrow> (tx_manager, unit attempt) op" where
  "resolve_each [] tm = Some (Returns (), tm)"
| "resolve_each (cycle # cycles) tm =
     and_then (with_locks (resolve_deadlock cycle)) (\<lambda>_. resolve_each cycles)
       (tm_notify (DeadlockFound cycle) tm)"

definition deadlock_pass :: "(tx_manager, unit) op" where
  "deadlock_pass = caught (\<lambda>tm.
     case tm_locks tm of
       None \<Rightarrow> Some (Returns (), tm)
     | Some _ \<Rightarrow> do { (cycles, tm) \<leftarrow> with_locks detect_deadlocks tm; resolve_each cycles tm })"

section \<open>The client's view\<close>

record tx_context =
  ctx_id :: tx_id
  is_committed :: bool
  is_aborted :: bool

definition TransactionContext :: "tx_id \<Rightarrow> tx_context" where
  "TransactionContext t = \<lparr>ctx_id = t, is_committed = False, is_aborted = False\<rparr>"

definition ctx_finished :: "'a result" where
  "ctx_finished = Error INVALID_STATE ''Transaction is already finished''"

definition ctx_do ::
    "(tx_id \<Rightarrow> (tx_manager, 'a result attempt) op) \<Rightarrow> tx_context \<Rightarrow>
     (tx_manager, 'a result attempt) op" where
  "ctx_do f c tm =
     (if is_committed c \<or> is_aborted c then Some (Returns ctx_finished, tm) else f (ctx_id c) tm)"

definition ctx_read :: "acquisition \<Rightarrow> time_point \<Rightarrow> multi_level_key \<Rightarrow> tx_context \<Rightarrow>
    (tx_manager, data_entry result attempt) op" where
  "ctx_read acq now key = ctx_do (\<lambda>t. tm_read acq now t key)"

definition ctx_write :: "acquisition \<Rightarrow> time_point \<Rightarrow> multi_level_key \<Rightarrow> data_entry \<Rightarrow> tx_context \<Rightarrow>
    (tx_manager, unit result attempt) op" where
  "ctx_write acq now key value = ctx_do (\<lambda>t. tm_write acq now t key value)"

definition ctx_remove :: "acquisition \<Rightarrow> time_point \<Rightarrow> multi_level_key \<Rightarrow> tx_context \<Rightarrow>
    (tx_manager, unit result attempt) op" where
  "ctx_remove acq now key = ctx_do (\<lambda>t. tm_remove acq now t key)"

definition ctx_lock :: "acquisition \<Rightarrow> time_point \<Rightarrow> multi_level_key \<Rightarrow> lock_type \<Rightarrow> tx_context \<Rightarrow>
    (tx_manager, unit result attempt) op" where
  "ctx_lock acq now key type = ctx_do (\<lambda>t. tm_lock acq now t key type)"

text \<open>The flag is set when the call has returned with \<open>OK\<close>.\<close>

definition attempt_ok :: "'a result attempt \<Rightarrow> bool" where
  "attempt_ok r = (case r of Returns q \<Rightarrow> is_ok q | Raises \<Rightarrow> False)"

definition ctx_commit :: "time_point \<Rightarrow> (tx_context \<times> tx_manager, unit result attempt) op" where
  "ctx_commit now = (\<lambda>(c, tm).
     do { (r, tm') \<leftarrow> ctx_do (commit_transaction now) c tm;
          Some (r, (if attempt_ok r then c\<lparr>is_committed := True\<rparr> else c, tm')) })"

definition ctx_abort :: "time_point \<Rightarrow> (tx_context \<times> tx_manager, unit result attempt) op" where
  "ctx_abort now = (\<lambda>(c, tm).
     do { (r, tm') \<leftarrow> ctx_do (abort_transaction now) c tm;
          Some (r, (if attempt_ok r then c\<lparr>is_aborted := True\<rparr> else c, tm')) })"

text \<open>
  The destructor rolls an unfinished transaction back. Destructors are \<open>noexcept\<close>: when the
  rollback throws, the program ends in \<open>std::terminate\<close> (\<open>Raises\<close> here, and no call follows).
\<close>

definition ctx_destroy :: "time_point \<Rightarrow> (tx_context \<times> tx_manager, unit attempt) op" where
  "ctx_destroy now = (\<lambda>(c, tm).
     if \<not> is_committed c \<and> \<not> is_aborted c
     then and_then (ctx_abort now) (\<lambda>_ s. Some (Returns (), s)) (c, tm)
     else Some (Returns (), (c, tm)))"

definition ctx_get_state :: "tx_context \<Rightarrow> (tx_manager, tx_state) op" where
  "ctx_get_state c = get_transaction_state (ctx_id c)"

end
