(* ===== verification/Tx_Properties.thy ===== *)
theory Tx_Properties
  imports Transaction_Manager
begin

text \<open>
  The properties of the lock manager and the transaction manager, each with a concrete input
  at which it applies.
\<close>

section \<open>Helper facts\<close>

lemmas tm_op_simps = guarded_def tm_set_held_def

lemma tx_of_set_tx [simp]: "tx_of (set_tx t tx tm) u = (if u = t then Some tx else tx_of tm u)"
  by (simp add: set_tx_def update_conv')

lemma tx_of_erase_tx [simp]: "tx_of (erase_tx t tm) u = (if u = t then None else tx_of tm u)"
  by (simp add: erase_tx_def delete_conv')

lemma set_tx_fields [simp]:
  "tm_locks (set_tx t tx tm) = tm_locks tm" "tm_held (set_tx t tx tm) = tm_held tm"
  "tm_handler (set_tx t tx tm) = tm_handler tm" "tm_events (set_tx t tx tm) = tm_events tm"
  by (simp_all add: set_tx_def)

lemma erase_tx_fields [simp]:
  "tm_locks (erase_tx t tm) = tm_locks tm" "tm_held (erase_tx t tm) = tm_held tm"
  by (simp_all add: erase_tx_def)

lemma tm_notify_fields [simp]:
  "tm_locks (tm_notify e tm) = tm_locks tm" "tx_of (tm_notify e tm) u = tx_of tm u"
  "tm_held (tm_notify e tm) = tm_held tm"
  by (simp_all add: tm_notify_def)

lemma tx_of_held [simp]: "tx_of (tm\<lparr>tm_held := b\<rparr>) t = tx_of tm t"
  by simp

text \<open>A transaction the operations accept.\<close>

definition tx_valid :: "time_point \<Rightarrow> tx_id \<Rightarrow> transaction \<Rightarrow> tx_manager \<Rightarrow> bool" where
  "tx_valid now t tx tm \<longleftrightarrow> tx_of tm t = Some tx \<and> \<not> tx_is_expired now tx"

lemma validate_valid: "tx_valid now t tx tm \<Longrightarrow> validate_transaction now t tm = Ok ()"
  by (simp add: tx_valid_def validate_transaction_def)

lemma validate_fields [simp]:
  "validate_transaction now t (tm\<lparr>tm_held := b\<rparr>) = validate_transaction now t tm"
  by (simp add: validate_transaction_def)

text \<open>The manager has a lock manager in good order that nobody is in.\<close>

definition locks_ready :: "lock_manager \<Rightarrow> tx_manager \<Rightarrow> bool" where
  "locks_ready lm tm \<longleftrightarrow> tm_locks tm = Some lm \<and> lm_sound lm"

lemma release_tx_locks_cases:
  assumes "locks_ready lm tm"
  shows "release_tx_locks t tm = Some (if tx_lock_ids lm t = [] then Returns () else Raises, tm)"
proof -
  have "lm_wf lm" "\<not> lm_held lm" and l: "tm_locks tm = Some lm"
    using assms by (simp_all add: locks_ready_def lm_sound_def)
  from release_all_locks_cases [OF this(1,2), of t] l show ?thesis
    by (simp add: release_tx_locks_def with_locks_def and_then_def)
qed

lemma find_conflict_iff:
  assumes "lm_wf lm"
  shows "find_conflict lm tx type (key_lock_ids lm key) = None \<longleftrightarrow>
    (\<forall>u b. (u, key, b) \<in> lm_holds lm \<longrightarrow> u \<noteq> tx \<longrightarrow> is_lock_compatible b type)"
proof -
  have ix: "i \<in> set (key_lock_ids lm key) \<longleftrightarrow> (\<exists>li. lock_of lm i = Some li \<and> li_key li = key)" for i
    using assms by (simp add: lm_wf_def indexed_def)
  show ?thesis
  proof (cases "find_conflict lm tx type (key_lock_ids lm key)")
    case None
    then show ?thesis using find_conflict_None [OF None] ix unfolding lm_holds_iff by blast
  next
    case (Some x)
    obtain i li where "x = (i, li)" by fastforce
    with find_conflict_Some [of lm tx type "key_lock_ids lm key" i li] Some
    have li: "i \<in> set (key_lock_ids lm key)" "lock_of lm i = Some li" "li_tx li \<noteq> tx"
      "\<not> is_lock_compatible (li_type li) type" by simp_all
    then have "(li_tx li, key, li_type li) \<in> lm_holds lm"
      using ix [of i] unfolding lm_holds_iff by auto
    with Some li(3,4) show ?thesis by auto
  qed
qed

section \<open>Locks\<close>

text \<open>C19: in every state that interleaved calls can reach, the locks that different
  transactions hold on one key are compatible, both indexes list exactly the existing locks, no
  transaction waits for itself, and the deadlock detector finds nothing.\<close>

theorem lock_manager_safe:
  assumes "lm_reachable (lm, ws)"
  shows "pairwise_compatible lm \<and> indexed lm \<and> acyclic (wait_edges (lm_wait_graph lm))
    \<and> (\<not> lm_held lm \<longrightarrow> detect_deadlocks lm = Some ([], lm))"
  using lm_reachable_wf [OF assms] detect_deadlocks_wf [of lm] by (auto simp: lm_wf_def)

definition k1 :: multi_level_key where "k1 = MultiLevelKey ''a'' ''b''"

definition demo_granted :: lock_manager where
  "demo_granted = snd (acquire_begin 0 1 k1 EXCLUSIVE 5000 LockManager_new)"

definition demo_blocked :: lock_manager where
  "demo_blocked = snd (acquire_begin 0 2 k1 SHARED 5000 demo_granted)"

lemma demo_digit: "char_of (49 :: nat) = CHR ''1''"
  by (simp add: char_of_def bit_0)

lemma demo_granted_eq: "acquire_begin 0 1 k1 EXCLUSIVE 5000 LockManager_new = (Granted ''lock_1'', demo_granted)"
  by (simp add: demo_granted_def acquire_begin_def key_lock_ids_def LockManager_new_def
      grant_lock_def generate_lock_id_def to_string_def digits_of.simps Let_def
      demo_digit)

lemma demo_granted_locks:
  "lm_locks demo_granted = [(''lock_1'', \<lparr>li_lock_id = ''lock_1'', li_type = EXCLUSIVE, li_tx = 1,
      li_key = k1, li_acquired_at = 0, li_timeout = 5000\<rparr>)]"
  "key_lock_ids demo_granted k1 = [''lock_1'']" "tx_lock_ids demo_granted 1 = [''lock_1'']"
  "lm_next_id demo_granted = 2" "lm_wait_graph demo_granted = []" "\<not> lm_held demo_granted"
  by (simp_all add: demo_granted_def acquire_begin_def key_lock_ids_def tx_lock_ids_def
      LockManager_new_def grant_lock_def generate_lock_id_def to_string_def digits_of.simps Let_def
      clear_waits_def demo_digit)

lemma demo_find: "find_cycle_in_wait_graph [(2, [1])] 2 = []"
  by (simp add: find_cycle_in_wait_graph_def waits_for_def)

lemma demo_blocked_eq: "acquire_begin 0 2 k1 SHARED 5000 demo_granted = (Blocked ''lock_1'', demo_blocked)"
  using demo_find
  by (simp add: demo_blocked_def acquire_begin_def demo_granted_locks is_lock_compatible_def
      add_wait_def waits_for_def List.insert_def Let_def)

lemma demo_reachable: "lm_reachable (demo_blocked, [(2, ''lock_1'', 5000000000)])"
proof -
  have "lm_step (LockManager_new, []) (demo_granted, [])"
    by (rule acquire_returns [OF demo_granted_eq]) (simp_all add: LockManager_new_def)
  moreover have "lm_step (demo_granted, []) (demo_blocked, [(2, ''lock_1'', 0 + millis_ns 5000)])"
    by (rule acquire_waits [OF demo_blocked_eq]) (simp add: demo_granted_locks)
  ultimately show ?thesis
    unfolding lm_reachable_def millis_ns_def by (simp add: rtranclp.rtrancl_into_rtrancl)
qed

theorem lock_manager_safe_witness:
  "pairwise_compatible demo_blocked \<and> lm_wait_graph demo_blocked = [(2, [1])]"
  using lock_manager_safe [OF demo_reachable] demo_find
  by (simp add: demo_blocked_def acquire_begin_def demo_granted_locks is_lock_compatible_def
      add_wait_def waits_for_def List.insert_def Let_def)

text \<open>C20: the search from a transaction in the wait-for graph returns something exactly when a
  cycle of waiting transactions can be reached from it.\<close>

theorem deadlock_search_correct:
  "find_cycle_in_wait_graph g start \<noteq> [] \<longleftrightarrow>
   (\<exists>n. (start, n) \<in> (wait_edges g)\<^sup>* \<and> (n, n) \<in> (wait_edges g)\<^sup>+)"
  by (rule find_cycle_iff)

definition demo_graph :: wait_graph where "demo_graph = [(9, [1]), (1, [2]), (2, [1])]"

text \<open>What the search returns may begin with transactions that only wait for the cycle; the
  victim is then one of them, on no cycle itself.\<close>

theorem deadlock_victim_off_cycle:
  "find_cycle_in_wait_graph demo_graph 9 = [9, 1, 2]
   \<and> deadlock_victim (find_cycle_in_wait_graph demo_graph 9) = 9
   \<and> (9, 9) \<notin> (wait_edges demo_graph)\<^sup>+ \<and> (1, 1) \<in> (wait_edges demo_graph)\<^sup>+"
proof -
  have f: "find_cycle_in_wait_graph demo_graph 9 = [9, 1, 2]"
    by (simp add: find_cycle_in_wait_graph_def demo_graph_def waits_for_def)
  have e: "wait_edges demo_graph = {(9, 1), (1, 2), (2, 1)}"
    by (auto simp: wait_edges_def demo_graph_def waits_for_def split: if_splits)
  have "(9, 9) \<notin> (wait_edges demo_graph)\<^sup>+"
  proof
    assume "(9, 9) \<in> (wait_edges demo_graph)\<^sup>+"
    then obtain m where "(m, 9) \<in> wait_edges demo_graph" by (meson tranclE)
    then show False by (simp add: e)
  qed
  moreover have "(1, 1) \<in> (wait_edges demo_graph)\<^sup>+"
    by (rule trancl_trans [of _ 2]) (auto simp: e)
  ultimately show ?thesis using f by (simp add: deadlock_victim_def)
qed

text \<open>C21: \<open>acquire_lock\<close> grants the lock exactly when no other transaction holds an incompatible one
  on the key. Otherwise some such lock is in the way: the call reports a deadlock when waiting for
  its owner closes a cycle, and else sleeps while others run (\<open>window\<close>). When the deadline has not
  passed after the sleep, it throws, whether or not the lock is still there; when it has passed, it
  reports \<open>TIMEOUT\<close> if the lock is still there, and is undefined (\<open>None\<close>) if it has been released.\<close>

theorem acquire_lock_outcome:
  assumes "lm_sound lm"
  shows "if \<forall>u b. (u, key, b) \<in> lm_holds lm \<longrightarrow> u \<noteq> tx \<longrightarrow> is_lock_compatible b type
    then \<exists>i lm'. acquire_lock now now2 window tx key type timeout lm = Some (Returns (Ok i), lm')
      \<and> lm_holds lm' = insert (tx, key, type) (lm_holds lm)
    else \<exists>i li. lock_of lm i = Some li \<and> li_key li = key \<and> li_tx li \<noteq> tx
      \<and> \<not> is_lock_compatible (li_type li) type
      \<and> (let waiting = lm\<lparr>lm_wait_graph := add_wait tx (li_tx li) (lm_wait_graph lm)\<rparr>;
             later = window waiting
         in if find_cycle_in_wait_graph (lm_wait_graph waiting) tx \<noteq> []
            then \<exists>m lm'. acquire_lock now now2 window tx key type timeout lm
                = Some (Returns (Error DEADLOCK_DETECTED m), lm') \<and> lm_holds lm' = lm_holds lm
            else if now2 \<le> now + millis_ns timeout
            then acquire_lock now now2 window tx key type timeout lm = Some (Raises, lm_set_held False later)
            else if lock_of later i = None
            then acquire_lock now now2 window tx key type timeout lm = None
            else \<exists>m lm'. acquire_lock now now2 window tx key type timeout lm
                = Some (Returns (Error TIMEOUT m), lm') \<and> lm_holds lm' = lm_holds later)"
proof -
  have wf: "lm_wf lm" and free: "\<not> lm_held lm" using assms by (simp_all add: lm_sound_def)
  obtain out lm1 where b: "acquire_begin now tx key type timeout lm = (out, lm1)" by fastforce
  note c = acquire_lock_cases [OF free b, of now2 window]
  show ?thesis
  proof (cases "find_conflict lm tx type (key_lock_ids lm key)")
    case None
    then obtain i where i: "out = Granted i" and g: "grant_lock now tx key type timeout lm = (i, lm1)"
      using b by (auto simp: acquire_begin_def split: prod.splits)
    have "lm_holds (lm_set_held False lm1) = insert (tx, key, type) (lm_holds lm)"
      using grant_lock_holds [OF wf g] by (simp add: lm_holds_def lm_set_held_def)
    with c i None show ?thesis by (simp add: find_conflict_iff [OF wf, symmetric])
  next
    case (Some x)
    obtain i li where x: "x = (i, li)" by fastforce
    from find_conflict_Some [of lm tx type _ i li] Some x
    have li: "lock_of lm i = Some li" "li_tx li \<noteq> tx" "\<not> is_lock_compatible (li_type li) type"
      and "i \<in> set (key_lock_ids lm key)" by auto
    then have key: "li_key li = key" using wf by (auto simp: lm_wf_def indexed_def)
    define waiting where "waiting = lm\<lparr>lm_wait_graph := add_wait tx (li_tx li) (lm_wait_graph lm)\<rparr>"
    have held: "\<not> lm_held waiting" using free by (simp add: waiting_def)
    let ?P = "\<lambda>later. if find_cycle_in_wait_graph (lm_wait_graph waiting) tx \<noteq> []
            then \<exists>m lm'. acquire_lock now now2 window tx key type timeout lm
                = Some (Returns (Error DEADLOCK_DETECTED m), lm') \<and> lm_holds lm' = lm_holds lm
            else if now2 \<le> now + millis_ns timeout
            then acquire_lock now now2 window tx key type timeout lm = Some (Raises, lm_set_held False later)
            else if lock_of later i = None
            then acquire_lock now now2 window tx key type timeout lm = None
            else \<exists>m lm'. acquire_lock now now2 window tx key type timeout lm
                = Some (Returns (Error TIMEOUT m), lm') \<and> lm_holds lm' = lm_holds later"
    have main: "?P (window waiting)"
    proof (cases "find_cycle_in_wait_graph (lm_wait_graph waiting) tx = []")
      case True
      then have "out = Blocked i" "lm1 = waiting"
        using b Some x by (simp_all add: acquire_begin_def waiting_def Let_def)
      then have call: "acquire_lock now now2 window tx key type timeout lm =
          map_option (\<lambda>(r, lm2). (map_attempt (\<lambda>_. timeout_error tx) r, lm_set_held False lm2))
            (acquire_resume now2 (now + millis_ns timeout) tx i (lm_set_held True (window waiting)))"
        using c held by (simp add: lm_mx.set_same)
      have same: "lock_of (lm_set_held True l) j = lock_of l j"
        "lm_holds (lm_set_held False (lm_set_held True l\<lparr>lm_wait_graph := g\<rparr>)) = lm_holds l" for l g j
        by (simp_all add: lm_set_held_def lm_holds_def)
      show ?thesis
      proof (cases "now2 \<le> now + millis_ns timeout")
        case False
        with call True same show ?thesis
          by (cases "lock_of (window waiting) i") (simp_all add: acquire_resume_def timeout_error_def)
      qed (use call True in \<open>simp add: acquire_resume_def lm_mx.set_set\<close>)
    next
      case False
      then have "out = Deadlock" "lm1 = waiting\<lparr>lm_wait_graph :=
          remove_wait tx (li_tx li) (lm_wait_graph waiting)\<rparr>"
        using b Some x by (auto simp: acquire_begin_def waiting_def Let_def)
      with c False show ?thesis by (simp add: lm_holds_def lm_set_held_def waiting_def)
    qed
    have "\<not> (\<forall>u b. (u, key, b) \<in> lm_holds lm \<longrightarrow> u \<noteq> tx \<longrightarrow> is_lock_compatible b type)"
      using Some by (simp add: find_conflict_iff [OF wf, symmetric])
    then show ?thesis
      unfolding Let_def
      by (simp only: if_False, intro exI [of _ i] exI [of _ li])
        (intro conjI li key main [unfolded waiting_def])
  qed
qed

lemma demo_granted_sound: "lm_sound demo_granted"
proof -
  have "lm_next_id LockManager_new \<noteq> - 1" by (simp add: LockManager_new_def)
  from acquire_begin_wf [OF lm_wf_new this demo_granted_eq] show ?thesis
    by (simp add: lm_sound_def demo_granted_locks)
qed

text \<open>Three calls for a lock that another transaction has: at the deadline with the lock in place,
  before it with the lock released, and after it with the lock released.\<close>

theorem acquire_lock_outcome_witness:
  "(\<exists>m lm'. acquire_lock 0 6000000000 id 2 k1 SHARED 5000 demo_granted = Some (Returns (Error TIMEOUT m), lm'))
   \<and> acquire_lock 0 10000000 (\<lambda>lm. LockManager_new) 2 k1 SHARED 5000 demo_granted = Some (Raises, LockManager_new)
   \<and> acquire_lock 0 6000000000 (\<lambda>lm. LockManager_new) 2 k1 SHARED 5000 demo_granted = None"
proof -
  have holds: "(1, k1, EXCLUSIVE) \<in> lm_holds demo_granted" by (auto simp: lm_holds_iff demo_granted_locks)
  then have blocked: "\<not> (\<forall>u b. (u, k1, b) \<in> lm_holds demo_granted \<longrightarrow> u \<noteq> 2 \<longrightarrow> is_lock_compatible b SHARED)"
    by (auto simp: is_lock_compatible_def intro!: exI [of _ 1] exI [of _ EXCLUSIVE])
  have graph: "add_wait 2 1 [] = [(2, [1])]" by (simp add: add_wait_def waits_for_def List.insert_def)
  have new: "lm_set_held False LockManager_new = LockManager_new" "lm_locks LockManager_new = []"
    by (simp_all add: LockManager_new_def lm_set_held_def)
  note o = acquire_lock_outcome [OF demo_granted_sound, of k1 2 SHARED 0 _ _ 5000,
      unfolded if_not_P [OF blocked] Let_def]
  show ?thesis
    using o [of 6000000000 id] o [of 10000000 "\<lambda>lm. LockManager_new"] o [of 6000000000 "\<lambda>lm. LockManager_new"]
    by (auto simp: demo_granted_locks graph demo_find millis_ns_def new split: if_splits)
qed

section \<open>Transactions\<close>

lemma locks_ready_fields [simp]:
  "locks_ready lm (set_tx t tx tm) = locks_ready lm tm"
  "locks_ready lm (tm\<lparr>tm_held := b\<rparr>) = locks_ready lm tm"
  "locks_ready lm (tm_set_held b tm) = locks_ready lm tm"
  by (simp_all add: locks_ready_def tm_set_held_def)

lemma tm_set_held_simps [simp]:
  "tm_held (tm_set_held b tm) = b" "tx_of (tm_set_held b tm) u = tx_of tm u"
  "tm_locks (tm_set_held b tm) = tm_locks tm"
  "validate_transaction now t (tm_set_held b tm) = validate_transaction now t tm"
  by (simp_all add: tm_set_held_def validate_transaction_def)

lemma send_messages_found: "tx_of tm t = Some tx \<Longrightarrow> send_messages t tm = Ok ()"
  by (simp add: send_messages_def)

lemma commit_active:
  assumes "\<not> tm_held tm" and "tx_valid now t tx tm" and "tx_state tx = ACTIVE" and "locks_ready lm tm"
  shows "if \<not> list_all snd (prepare_votes tx)
    then \<exists>tm'. commit_transaction now t tm =
        Some (Returns (Error TRANSACTION_ABORTED ''Some participants failed to prepare''), tm')
      \<and> tx_of tm' t = None \<and> tm_locks tm' = tm_locks tm
    else if tx_lock_ids lm t = []
    then \<exists>tm'. commit_transaction now t tm = Some (Returns (Ok ()), tm') \<and> tx_of tm' t = None
    else \<exists>tm'. commit_transaction now t tm = Some (Raises, tm') \<and> tm_locks tm' = tm_locks tm
      \<and> tx_of tm' = (tx_of tm)(t \<mapsto> tx\<lparr>tx_state := COMMITTING, last_activity := now\<rparr>)"
proof -
  have v: "validate_transaction now t tm = Ok ()" "tx_of tm t = Some tx"
    using assms(2) validate_valid by (auto simp: tx_valid_def)
  show ?thesis
    using assms(1,3,4) v
    by (auto simp: commit_transaction_def guarded_def send_messages_found update_activity_def Let_def
        apply_transaction_operations_def release_tx_locks_cases [of lm] and_then_def fun_eq_iff)
qed

lemma abort_valid:
  assumes "\<not> tm_held tm" and "tx_valid now t tx tm" and "locks_ready lm tm"
  shows "if tx_lock_ids lm t = []
    then \<exists>tm'. abort_transaction now t tm = Some (Returns (Ok ()), tm') \<and> tx_of tm' t = None
    else \<exists>tm'. abort_transaction now t tm = Some (Raises, tm') \<and> tm_locks tm' = tm_locks tm
      \<and> tx_of tm' = (tx_of tm)(t \<mapsto> tx\<lparr>tx_state := ABORTING, last_activity := now\<rparr>)"
proof -
  have v: "validate_transaction now t tm = Ok ()" "tx_of tm t = Some tx"
    using assms(2) validate_valid by (auto simp: tx_valid_def)
  show ?thesis
    using assms(1,3) v
    by (auto simp: abort_transaction_def guarded_def update_activity_def Let_def
        rollback_transaction_operations_def release_tx_locks_cases [of lm] and_then_def fun_eq_iff)
qed

text \<open>A data operation that succeeds got its lock.\<close>

lemma locked_operation_ok:
  assumes "locked_operation acq now t key type oper tm = Some (Returns (Ok ()), tm')" and "locks_ready lm tm"
  shows "\<exists>i lm' tx. acq t key type lm = Some (Returns (Ok i), lm') \<and> tm_locks tm' = Some lm'
    \<and> tx_valid now t tx tm \<and> \<not> tm_held tm'
    \<and> tx_of tm' t = Some (tx\<lparr>held_locks := List.insert i (held_locks tx),
          operations := operations tx @ [oper], last_activity := now\<rparr>)"
proof -
  from assms(1) obtain u where free: "\<not> tm_held tm" and tm': "tm' = tm_set_held False u"
    and body: "(case validate_transaction now t (tm_set_held True tm) of
       Error s m \<Rightarrow> Some (Returns (Error s m), tm_set_held True tm)
     | Ok _ \<Rightarrow>
         do { tx \<leftarrow> tx_of (tm_set_held True tm) t;
              and_then (take_lock acq t key type tx) (\<lambda>r tm.
                case r of
                  Error s m \<Rightarrow> Some (Returns (Error s m), tm)
                | Ok tx \<Rightarrow> Some (Returns (Ok ()), record_operation now oper t tx tm)) (tm_set_held True tm) })
        = Some (Returns (Ok ()), u)"
    unfolding locked_operation_def by (elim guarded_SomeE) auto
  have v: "validate_transaction now t tm = Ok ()"
    using body by (cases "validate_transaction now t tm") simp_all
  then obtain tx where tx: "tx_of tm t = Some tx" and "tx_valid now t tx tm"
    by (auto simp: validate_transaction_def tx_valid_def split: option.splits if_splits)
  have lm: "tm_locks tm = Some lm" using assms(2) by (simp add: locks_ready_def)
  obtain r lm' where a: "acq t key type lm = Some (r, lm')"
    using body v tx lm by (cases "acq t key type lm") (auto simp: take_lock_def with_locks_def and_then_def)
  then obtain q where q: "r = Returns q"
    using body v tx lm by (cases r) (auto simp: take_lock_def with_locks_def and_then_def)
  with a obtain i where r: "r = Returns (Ok i)"
    using body v tx lm by (cases q) (auto simp: take_lock_def with_locks_def and_then_def)
  have "u = record_operation now oper t (tx\<lparr>held_locks := List.insert i (held_locks tx)\<rparr>)
      (set_tx t (tx\<lparr>held_locks := List.insert i (held_locks tx)\<rparr>)
        (tm_set_held True tm\<lparr>tm_locks := Some lm'\<rparr>))"
    using body v tx lm a r by (simp add: take_lock_def with_locks_def and_then_def Let_def)
  with a r \<open>tx_valid now t tx tm\<close> tm' show ?thesis
    by (auto simp: record_operation_def update_activity_def)
qed

text \<open>When \<open>write\<close> reports \<open>OK\<close>, no other transaction holds any lock on the key.\<close>

theorem tm_write_exclusive:
  assumes "locks_ready lm tm" and "(u, key, b) \<in> lm_holds lm'"
    and "tm_write (acquire_numbered now now2 window 5000) now t key value tm = Some (Returns (Ok ()), tm')"
    and "tm_locks tm' = Some lm'"
  shows "u = t"
proof -
  from locked_operation_ok [OF assms(3) [unfolded tm_write_def] assms(1)] assms(4) obtain i where
    "acquire_numbered now now2 window 5000 t key EXCLUSIVE lm = Some (Returns (Ok i), lm')"
    by auto
  moreover have "lm_sound lm" using assms(1) by (simp add: locks_ready_def)
  ultimately show ?thesis using assms(2) lm.exclusive_alone by blast
qed

text \<open>A transaction that has written can be neither committed nor aborted: as long as it has
  not expired, both calls throw, because the release of its locks locks the mutex of the lock manager
  twice. They leave the transaction half way, with all its locks.\<close>

theorem tm_write_never_commits:
  assumes "locks_ready lm tm"
    and "tm_write (acquire_numbered now now2 window 5000) now t key value tm = Some (Returns (Ok ()), tm')"
    and "now3 - now \<le> 1000000 * tx_timeout (the (tx_of tm' t))"
    and "tx_state (the (tx_of tm t)) = ACTIVE" and "prepare_votes (the (tx_of tm t)) = []"
  shows "(\<exists>u. commit_transaction now3 t tm' = Some (Raises, u) \<and> tm_locks u = tm_locks tm'
      \<and> map_option tx_state (tx_of u t) = Some COMMITTING)
    \<and> (\<exists>u. abort_transaction now3 t tm' = Some (Raises, u) \<and> tm_locks u = tm_locks tm'
      \<and> map_option tx_state (tx_of u t) = Some ABORTING)"
proof -
  from locked_operation_ok [OF assms(2) [unfolded tm_write_def] assms(1)] obtain i lm' tx oper where
    a: "acquire_numbered now now2 window 5000 t key EXCLUSIVE lm = Some (Returns (Ok i), lm')"
      "tm_locks tm' = Some lm'" "tx_valid now t tx tm" "\<not> tm_held tm'"
      "tx_of tm' t = Some (tx\<lparr>held_locks := List.insert i (held_locks tx),
          operations := operations tx @ [oper], last_activity := now\<rparr>)"
    by blast
  have sound: "lm_sound lm'" and "(t, key, EXCLUSIVE) \<in> lm_holds lm'"
    using lm.granted [OF _ a(1)] assms(1) by (auto simp: locks_ready_def)
  then have locks: "tx_lock_ids lm' t \<noteq> []"
    using holds_tx_locks by (auto simp: lm_sound_def)
  have ready: "locks_ready lm' tm'" using a(2) sound by (simp add: locks_ready_def)
  have tx: "tx_of tm t = Some tx" using a(3) by (simp add: tx_valid_def)
  let ?tx = "tx\<lparr>held_locks := List.insert i (held_locks tx),
          operations := operations tx @ [oper], last_activity := now\<rparr>"
  have v: "tx_valid now3 t ?tx tm'"
    using a(5) assms(3) by (simp add: tx_valid_def tx_is_expired_def millis_ns_def)
  from commit_active [OF a(4) v _ ready] abort_valid [OF a(4) v ready] locks assms(4,5) tx
  show ?thesis by auto
qed

definition demo_tm :: tx_manager where
  "demo_tm = TransactionManager_new\<lparr>transactions := [(1, DistributedTransaction 0)],
     next_transaction_id := 2, tm_is_running := True\<rparr>"

lemma demo_tm_ready: "locks_ready LockManager_new demo_tm"
proof -
  have "\<not> lm_held LockManager_new" by (simp add: LockManager_new_def)
  with lm_wf_new show ?thesis
    by (simp add: locks_ready_def lm_sound_def demo_tm_def TransactionManager_new_def)
qed

definition demo_written :: tx_manager where
  "demo_written = snd (the (tm_write (acquire_numbered 0 0 id 5000) 0 1 k1 (DataEntry 0 ''v'' 1) demo_tm))"

lemma demo_acquire: "acquire_numbered 0 0 id 5000 1 k1 EXCLUSIVE LockManager_new
    = Some (Returns (Ok ''lock_1''), demo_granted)"
  using acquire_lock_cases [OF _ demo_granted_eq, of 0 id] demo_granted_locks(6)
  by (simp add: acquire_numbered_def LockManager_new_def lm_set_held_def)

lemma demo_write:
  "tm_write (acquire_numbered 0 0 id 5000) 0 1 k1 (DataEntry 0 ''v'' 1) demo_tm = Some (Returns (Ok ()), demo_written)"
  "tm_locks demo_written = Some demo_granted"
  "tx_timeout (the (tx_of demo_written 1)) = 30000"
proof -
  have t: "tx_of demo_tm 1 = Some (DistributedTransaction 0)" "tm_locks demo_tm = Some LockManager_new"
    "\<not> tm_held demo_tm"
    by (simp_all add: demo_tm_def TransactionManager_new_def)
  then have v: "validate_transaction 0 1 demo_tm = Ok ()"
    by (simp add: validate_transaction_def tx_is_expired_def DistributedTransaction_def millis_ns_def)
  show "tm_write (acquire_numbered 0 0 id 5000) 0 1 k1 (DataEntry 0 ''v'' 1) demo_tm = Some (Returns (Ok ()), demo_written)"
    "tm_locks demo_written = Some demo_granted" "tx_timeout (the (tx_of demo_written 1)) = 30000"
    unfolding demo_written_def
    using t v demo_acquire
    by (simp_all add: tm_write_def locked_operation_def guarded_def take_lock_def with_locks_def and_then_def
        record_operation_def update_activity_def Let_def DistributedTransaction_def)
qed

theorem tm_write_exclusive_witness:
  "{u. \<exists>b. (u, k1, b) \<in> lm_holds demo_granted} = {1}"
proof -
  have "(1, k1, EXCLUSIVE) \<in> lm_holds demo_granted"
    by (auto simp: lm_holds_iff demo_granted_locks)
  with tm_write_exclusive [OF demo_tm_ready _ demo_write(1,2)] show ?thesis by blast
qed

theorem tm_write_never_commits_witness:
  "(\<exists>u. commit_transaction 1000000 1 demo_written = Some (Raises, u))
   \<and> (\<exists>u. abort_transaction 1000000 1 demo_written = Some (Raises, u))"
proof -
  have "(1000000 :: time_point) - 0 \<le> 1000000 * tx_timeout (the (tx_of demo_written 1))"
    "tx_state (the (tx_of demo_tm 1)) = ACTIVE" "prepare_votes (the (tx_of demo_tm 1)) = []"
    by (simp_all add: demo_write(3) demo_tm_def DistributedTransaction_def)
  from tm_write_never_commits [OF demo_tm_ready demo_write(1) this] show ?thesis by blast
qed

text \<open>Committing an active transaction without locks succeeds when no vote speaks against
  it, and the transaction is gone; with a vote against it the call reports
  \<open>TRANSACTION_ABORTED\<close> and the transaction is gone as well, but its locks stay.\<close>

theorem tm_commit_outcome:
  assumes "\<not> tm_held tm" and "tx_valid now t tx tm" and "tx_state tx = ACTIVE" and "locks_ready lm tm"
    and "list_all snd (prepare_votes tx) \<longrightarrow> tx_lock_ids lm t = []"
  shows "\<exists>r tm'. commit_transaction now t tm = Some (Returns r, tm') \<and> tx_of tm' t = None
    \<and> (if list_all snd (prepare_votes tx) then r = Ok ()
       else result_status r = TRANSACTION_ABORTED \<and> tm_locks tm' = Some lm)"
  using commit_active [OF assms(1-4)] assms(4,5)
  by (cases "list_all snd (prepare_votes tx)") (auto simp: locks_ready_def)

definition demo_refused :: tx_manager where
  "demo_refused = TransactionManager_new\<lparr>tm_locks := Some demo_granted, transactions :=
     [(1, (DistributedTransaction 0)\<lparr>prepare_votes := [(''n'', False)]\<rparr>)], tm_is_running := True\<rparr>"

theorem tm_commit_outcome_witness:
  "\<exists>r tm'. commit_transaction 0 1 demo_refused = Some (Returns r, tm') \<and> result_status r = TRANSACTION_ABORTED
    \<and> tx_of tm' 1 = None \<and> tm_locks tm' = Some demo_granted \<and> tx_lock_ids demo_granted 1 = [''lock_1'']"
proof -
  have "tx_valid 0 1 ((DistributedTransaction 0)\<lparr>prepare_votes := [(''n'', False)]\<rparr>) demo_refused"
    "locks_ready demo_granted demo_refused" "\<not> tm_held demo_refused"
    using demo_granted_sound
    by (simp_all add: tx_valid_def demo_refused_def tx_is_expired_def DistributedTransaction_def
        millis_ns_def locks_ready_def TransactionManager_new_def)
  from tm_commit_outcome [OF this(3,1) _ this(2)] show ?thesis
    by (auto simp: DistributedTransaction_def demo_granted_locks)
qed

text \<open>A transaction that \<open>prepare\<close> has prepared cannot be committed: \<open>commit_transaction\<close>
  accepts only active ones, and reports \<open>INVALID_STATE\<close> until the transaction expires.\<close>

theorem tm_prepared_not_committable:
  assumes "tm_prepare now t tm = Some (Ok (), tm')"
    and "now2 - now \<le> 1000000 * tx_timeout (the (tx_of tm' t))"
  shows "commit_transaction now2 t tm' = Some (Returns (Error INVALID_STATE (tx_text t '' is not in active state'')), tm')"
proof -
  from assms(1) obtain u where free: "\<not> tm_held tm" and tm': "tm' = tm_set_held False u"
    and body: "(case validate_transaction now t (tm_set_held True tm) of
       Error s m \<Rightarrow> Some (Error s m, tm_set_held True tm)
     | Ok _ \<Rightarrow>
         do { tx \<leftarrow> tx_of (tm_set_held True tm) t;
              if tx_state tx \<noteq> ACTIVE
              then Some (Error INVALID_STATE (tx_text t '' is not in active state''), tm_set_held True tm)
              else Some (Ok (), set_tx t (update_activity now (tx\<lparr>tx_state := PREPARED\<rparr>))
                     (tm_set_held True tm)) }) = Some (Ok (), u)"
    unfolding tm_prepare_def by (elim guarded_SomeE) auto
  have "validate_transaction now t tm = Ok ()"
    using body by (cases "validate_transaction now t tm") simp_all
  with body obtain tx where "tx_of tm t = Some tx"
    by (cases "tx_of tm t") simp_all
  with body \<open>validate_transaction now t tm = Ok ()\<close>
  have u: "u = set_tx t (update_activity now (tx\<lparr>tx_state := PREPARED\<rparr>)) (tm_set_held True tm)"
    by (simp split: if_splits)
  let ?tx = "update_activity now (tx\<lparr>tx_state := PREPARED\<rparr>)"
  have tx: "tx_of tm' t = Some ?tx" by (simp add: tm' u)
  then have "validate_transaction now2 t tm' = Ok ()"
    using assms(2) by (simp add: validate_transaction_def tx_is_expired_def update_activity_def millis_ns_def)
  with tx have "commit_transaction now2 t tm'
      = Some (Returns (Error INVALID_STATE (tx_text t '' is not in active state'')),
          tm_set_held False (tm_set_held True tm'))"
    by (simp add: commit_transaction_def guarded_def tm' update_activity_def)
  then show ?thesis by (simp add: tm' tm_mx.set_set)
qed

definition demo_prepared :: tx_manager where
  "demo_prepared = snd (the (tm_prepare 0 1 demo_tm))"

theorem tm_prepared_not_committable_witness:
  "commit_transaction 5 1 demo_prepared
    = Some (Returns (Error INVALID_STATE (tx_text 1 '' is not in active state'')), demo_prepared)"
proof -
  have p: "tm_prepare 0 1 demo_tm = Some (Ok (), demo_prepared)
      \<and> tx_timeout (the (tx_of demo_prepared 1)) = 30000"
    by (simp add: demo_prepared_def tm_prepare_def guarded_def demo_tm_def TransactionManager_new_def
        validate_transaction_def tx_is_expired_def DistributedTransaction_def millis_ns_def
        tm_set_held_def update_activity_def)
  then show ?thesis using tm_prepared_not_committable [of 0 1 demo_tm demo_prepared 5] by simp
qed

text \<open>The handlers of the two-phase commit look at no state: a \<open>COMMIT\<close> message makes any
  transaction the manager knows committed, also an aborted one, an \<open>ABORT\<close> message makes any
  aborted, also a committed one; neither releases a lock.\<close>

theorem tpc_messages_unguarded:
  assumes "\<not> tm_held tm" and "tx_of tm (msg_tx msg) = Some tx"
    and "msg_type msg = COMMIT \<or> msg_type msg = ABORT"
  shows "\<exists>tm'. handle_tpc_message msg tm = Some (Ok (), tm') \<and> tm_locks tm' = tm_locks tm
    \<and> map_option fst (get_transaction_state (msg_tx msg) tm')
        = Some (if msg_type msg = COMMIT then COMMITTED else ABORTED)"
proof -
  let ?st = "if msg_type msg = COMMIT then COMMITTED else ABORTED"
  let ?tm = "tm_set_held False (set_tx (msg_tx msg) (tx\<lparr>tx_state := ?st\<rparr>) (tm_set_held True tm))"
  have "handle_tpc_message msg tm = Some (Ok (), ?tm)"
    using assms by (auto simp: handle_tpc_message_def guarded_def handle_commit_message_def
        handle_abort_message_def)
  moreover have "tm_locks ?tm = tm_locks tm" by simp
  moreover have "map_option fst (get_transaction_state (msg_tx msg) ?tm) = Some ?st"
    by (simp add: get_transaction_state_def guarded_def)
  ultimately show ?thesis by blast
qed

definition demo_message :: tpc_message where
  "demo_message = \<lparr>msg_type = COMMIT, msg_tx = 1, from_node = [], to_node = [], msg_payload = [],
     msg_timestamp = 0\<rparr>"

theorem tpc_messages_unguarded_witness:
  "\<exists>tm'. handle_tpc_message demo_message
      (set_tx 1 ((DistributedTransaction 0)\<lparr>tx_state := ABORTED\<rparr>) demo_tm) = Some (Ok (), tm')
    \<and> map_option fst (get_transaction_state 1 tm') = Some COMMITTED"
proof -
  let ?tm = "set_tx 1 ((DistributedTransaction 0)\<lparr>tx_state := ABORTED\<rparr>) demo_tm"
  have "\<not> tm_held ?tm" "tx_of ?tm (msg_tx demo_message) = Some ((DistributedTransaction 0)\<lparr>tx_state := ABORTED\<rparr>)"
    "msg_type demo_message = COMMIT \<or> msg_type demo_message = ABORT"
    by (simp_all add: demo_tm_def TransactionManager_new_def demo_message_def)
  from tpc_messages_unguarded [OF this] show ?thesis by (auto simp: demo_message_def)
qed

text \<open>The cleanup of expired transactions aborts none: with an expired transaction it throws, since
  \<open>abort_transaction\<close> locks the mutex that the cleanup holds, and nothing has changed.\<close>

theorem tm_cleanup_raises:
  assumes "\<not> tm_held tm"
  shows "cleanup_expired_transactions now tm =
    Some (if \<exists>(t, tx) \<in> set (transactions tm). tx_is_expired now tx then Raises else Returns (Ok ()), tm)"
proof -
  have same: "tm_set_held False (tm_set_held True tm) = tm"
    using assms by (simp add: tm_mx.set_set tm_mx.set_same)
  have each: "abort_each now ts (tm_set_held True tm)
      = Some (if ts = [] then Returns () else Raises, tm_set_held True tm)" for ts
    by (cases ts) (simp_all add: and_then_raises)
  have "filter (\<lambda>(t, tx). tx_is_expired now tx) (transactions tm) = []
      \<longleftrightarrow> \<not> (\<exists>(t, tx) \<in> set (transactions tm). tx_is_expired now tx)"
    by (auto simp: filter_empty_conv)
  moreover have "transactions (tm_set_held True tm) = transactions tm" by (simp add: tm_set_held_def)
  ultimately show ?thesis
    using assms same by (simp add: cleanup_expired_transactions_def guarded_def and_then_def each)
qed

theorem tm_cleanup_raises_witness: "cleanup_expired_transactions 40000000000 demo_tm = Some (Raises, demo_tm)"
proof -
  have "\<not> tm_held demo_tm" by (simp add: demo_tm_def TransactionManager_new_def)
  from tm_cleanup_raises [OF this, of 40000000000] show ?thesis
    by (simp add: demo_tm_def TransactionManager_new_def tx_is_expired_def DistributedTransaction_def
        millis_ns_def)
qed

definition numbers_below :: "tx_manager \<Rightarrow> bool" where
  "numbers_below tm \<longleftrightarrow> (\<forall>t. tx_of tm t \<noteq> None \<longrightarrow> t < next_transaction_id tm)"

text \<open>\<open>begin_transaction\<close> on a running manager gives out a number that no transaction has,
  and the new transaction is active and has the default timeout, while the numbers in use stay
  below the counter (which has not wrapped).\<close>

theorem tm_begin_fresh:
  assumes "\<not> tm_held tm" and "tm_is_running tm" and "numbers_below tm" and "next_transaction_id tm \<noteq> - 1"
  shows "\<exists>t tx tm'. begin_transaction now isolation tm = Some (Ok t, tm') \<and> tx_of tm t = None
    \<and> tx_of tm' = (tx_of tm)(t \<mapsto> tx) \<and> tx_state tx = ACTIVE
    \<and> tx_timeout tx = tm_default_timeout tm \<and> numbers_below tm'"
proof -
  let ?t = "next_transaction_id tm"
  have "?t < ?t + 1"
    using next_id_step [OF assms(4)] by (simp add: word_less_nat_alt)
  then have lt: "u < ?t + 1" if "u < ?t" for u using that by (rule less_trans [rotated])
  define tx where "tx = (DistributedTransaction now)\<lparr>transaction_id := ?t, tx_state := ACTIVE,
                  isolation_level := isolation, created_at := now, last_activity := now,
                  tx_timeout := tm_default_timeout tm\<rparr>"
  define tm' where "tm' = tm_set_held False (tm_notify (Started ?t)
      (set_tx ?t tx (tm_set_held True tm\<lparr>next_transaction_id := ?t + 1\<rparr>)))"
  have b: "begin_transaction now isolation tm = Some (Ok ?t, tm')"
    using assms(1,2) by (simp add: begin_transaction_def guarded_def tm'_def tx_def tm_set_held_def Let_def)
  have fresh: "tx_of tm ?t = None" using assms(3) by (auto simp: numbers_below_def)
  have new: "tx_of tm' = (tx_of tm)(?t \<mapsto> tx)" by (auto simp: tm'_def tm_set_held_def)
  have "next_transaction_id tm' = ?t + 1"
    by (simp add: tm'_def tm_set_held_def tm_notify_def set_tx_def)
  then have "numbers_below tm'"
    unfolding numbers_below_def new using assms(3) lt \<open>?t < ?t + 1\<close> by (auto simp: numbers_below_def)
  with b fresh new show ?thesis by (intro exI [of _ ?t] exI [of _ tx] exI [of _ tm']) (simp add: tx_def)
qed

theorem tm_begin_fresh_witness:
  "\<exists>t tm'. begin_transaction 3 SERIALIZABLE demo_tm = Some (Ok t, tm') \<and> tx_of demo_tm t = None"
proof -
  have "\<not> tm_held demo_tm" "tm_is_running demo_tm" "numbers_below demo_tm" "next_transaction_id demo_tm \<noteq> - 1"
    by (simp_all add: demo_tm_def TransactionManager_new_def numbers_below_def)
  from tm_begin_fresh [OF this, of 3 SERIALIZABLE] show ?thesis by blast
qed

end
