(* ===== verification/Tx_Runs.thy ===== *)
theory Tx_Runs
  imports Tx_Properties
begin

text \<open>
  The transaction manager over whole runs: any sequence of its calls and of the passes of its
  two background threads, from a new manager on. \<open>accesses_covered\<close> is strict two-phase locking:
  whatever a transaction has recorded, it still holds the lock for. \<open>tm_keeps\<close> says that an
  operation preserves it, and there is one such lemma for every operation; the two theorems at
  the end are what follows for clients.

  While a call waits for a lock the manager's mutex stays locked, so the only other code that
  changes its state is the detector of deadlocks (the manager's \<open>read\<close> shares the mutex with other
  reads; the model runs them one after the other). \<open>quiet\<close> is what the model allows in that window, and
  \<open>quiet_detector\<close> shows that a pass of the detector is of this kind.
\<close>

section \<open>The window of a blocked acquisition\<close>

definition quiet :: "(lock_manager \<Rightarrow> lock_manager) \<Rightarrow> bool" where
  "quiet window \<longleftrightarrow>
     (\<forall>lm. lm_sound lm \<longrightarrow> lm_sound (window lm) \<and> lm_holds (window lm) = lm_holds lm)"

text \<open>The passes of the detector that fit into the window; one that throws ends there.\<close>

fun resolve_cycles :: "tx_id list list \<Rightarrow> lock_manager \<Rightarrow> lock_manager" where
  "resolve_cycles [] lm = lm"
| "resolve_cycles (cycle # cycles) lm =
     (case resolve_deadlock cycle lm of
        Some (Returns _, lm') \<Rightarrow> resolve_cycles cycles lm'
      | Some (Raises, lm') \<Rightarrow> lm'
      | None \<Rightarrow> lm)"

definition detector_window :: "nat \<Rightarrow> lock_manager \<Rightarrow> lock_manager" where
  "detector_window n = ((\<lambda>lm.
     case detect_deadlocks lm of
       None \<Rightarrow> lm
     | Some (cycles, lm') \<Rightarrow> resolve_cycles cycles lm') ^^ n)"

lemma detector_window_sound: "lm_sound lm \<Longrightarrow> detector_window n lm = lm"
  unfolding detector_window_def
  by (induction n) (simp_all add: lm_sound_def detect_deadlocks_wf)

lemma quiet_detector: "quiet (detector_window n)"
  by (simp add: quiet_def detector_window_sound)

lemma lm_holds_graph [simp]:
  "lm_holds (lm\<lparr>lm_wait_graph := g\<rparr>) = lm_holds lm" "lm_holds (lm_set_held b lm) = lm_holds lm"
  by (simp_all add: lm_holds_def lm_set_held_def)

lemma acquire_begin_refused:
  assumes "lm_sound lm" and "lm_next_id lm \<noteq> - 1"
    and "acquire_begin now tx key type timeout lm = (out, lm')" and "\<And>i. out \<noteq> Granted i"
  shows "lm_sound lm' \<and> lm_holds lm' = lm_holds lm"
proof -
  have "lm_wf lm'" using acquire_begin_wf [OF _ assms(2,3)] assms(1) by (simp add: lm_sound_def)
  moreover have "\<exists>g. lm' = lm\<lparr>lm_wait_graph := g\<rparr>"
    using assms(3,4) by (auto simp: acquire_begin_def Let_def split: option.splits prod.splits if_splits)
  ultimately show ?thesis using assms(1) by (auto simp: lm_sound_def)
qed

text \<open>An acquisition that is refused or throws changes no lock.\<close>

lemma acquire_refused:
  assumes "quiet window" and "lm_sound lm"
    and "acquire_numbered now now2 window timeout tx key type lm = Some (r, lm')"
    and "\<And>i. r \<noteq> Returns (Ok i)"
  shows "lm_sound lm' \<and> lm_holds lm' = lm_holds lm"
proof -
  obtain out lm1 where b: "acquire_begin now tx key type timeout lm = (out, lm1)" by fastforce
  from assms(3) have n: "lm_next_id lm \<noteq> - 1"
    and acq: "acquire_lock now now2 window tx key type timeout lm = Some (r, lm')"
    by (auto simp: acquire_numbered_def split: if_splits)
  have free: "\<not> lm_held lm" using assms(2) by (simp add: lm_sound_def)
  note c = acquire_lock_cases [OF free b, of now2 window]
  have ng: "out \<noteq> Granted i" for i using acq c assms(4) [of i] by auto
  from acquire_begin_refused [OF assms(2) n b this]
  have one: "lm_sound lm1" "lm_holds lm1 = lm_holds lm" by simp_all
  then have same: "lm_set_held False lm1 = lm1" by (simp add: lm_sound_def lm_mx.set_same)
  show ?thesis
  proof (cases out)
    case (Granted i)
    with ng [of i] show ?thesis by simp
  next
    case Deadlock
    with acq c same one show ?thesis by simp
  next
    case (Blocked i)
    let ?w = "lm_set_held True (window lm1)"
    have w: "lm_wf ?w" "lm_holds ?w = lm_holds lm"
      using assms(1) one by (simp_all add: quiet_def lm_sound_def)
    have "map_option (\<lambda>(q, lm2). (map_attempt (\<lambda>_. timeout_error tx :: lock_id result) q, lm_set_held False lm2))
        (acquire_resume now2 (now + millis_ns timeout) tx i ?w) = Some (r, lm')"
      using acq c by (simp only: Blocked same acquire_outcome.case)
    then obtain q lm2 where r: "acquire_resume now2 (now + millis_ns timeout) tx i ?w = Some (q, lm2)"
      and lm': "lm' = lm_set_held False lm2"
      by auto
    have "\<exists>g. lm2 = ?w\<lparr>lm_wait_graph := g\<rparr>"
      using r by (auto simp: acquire_resume_def bind_eq_Some_conv intro: exI [of _ "lm_wait_graph lm2"]
          split: if_splits)
    then have "lm_holds lm2 = lm_holds lm" using w(2) by (metis lm_holds_graph(1))
    with acquire_resume_wf [OF w(1) r] show ?thesis
      by (simp only: lm' lm_sound_def lm_wf_held lm_holds_graph lm_mx.held_set simp_thms)
  qed
qed

section \<open>Strict two-phase locking\<close>

text \<open>The lock an operation of a transaction needs, in a manager whose held locks are \<open>H\<close>.\<close>

definition access_covered :: "held_lock set \<Rightarrow> tx_id \<Rightarrow> transaction \<Rightarrow> tx_operation \<Rightarrow> bool" where
  "access_covered H t tx oper \<longleftrightarrow>
     (case op_type oper of
        TX_READ \<Rightarrow> isolation_level tx \<noteq> READ_UNCOMMITTED \<longrightarrow> (t, op_key oper, SHARED) \<in> H
      | TX_LOCK \<Rightarrow> \<exists>a. (t, op_key oper, a) \<in> H
      | _ \<Rightarrow> (t, op_key oper, EXCLUSIVE) \<in> H)"

definition accesses_covered :: "lock_manager \<Rightarrow> tx_manager \<Rightarrow> bool" where
  "accesses_covered lm tm \<longleftrightarrow>
     (\<forall>t tx. tx_of tm t = Some tx \<longrightarrow>
        (\<forall>oper \<in> set (operations tx). access_covered (lm_holds lm) t tx oper))"

definition tm_inv :: "tx_manager \<Rightarrow> bool" where
  "tm_inv tm \<longleftrightarrow> (\<exists>lm. locks_ready lm tm \<and> accesses_covered lm tm)"

lemma tm_invI: "locks_ready lm tm \<Longrightarrow> accesses_covered lm tm \<Longrightarrow> tm_inv tm"
  by (auto simp: tm_inv_def)

lemma tm_inv_held [simp]: "tm_inv (tm_set_held b tm) = tm_inv tm"
  by (simp add: tm_inv_def locks_ready_def accesses_covered_def)

lemma access_covered_mono:
  "access_covered H t tx oper \<Longrightarrow> H \<subseteq> H' \<Longrightarrow> isolation_level tx' = isolation_level tx \<Longrightarrow>
   access_covered H' t tx' oper"
  by (auto simp: access_covered_def split: tx_op_type.splits)

text \<open>The invariant looks at the lock manager and at the accesses of the transactions it knows:
  forgetting transactions and changing their state or votes keeps it.\<close>

lemma tm_inv_less:
  assumes "tm_inv tm" and "tm_locks tm' = tm_locks tm"
    and "\<And>u tx'. tx_of tm' u = Some tx' \<Longrightarrow>
      operations tx' = [] \<or> (\<exists>tx. tx_of tm u = Some tx \<and> isolation_level tx' = isolation_level tx
        \<and> operations tx' = operations tx)"
  shows "tm_inv tm'"
proof -
  from assms(1) obtain lm where lm: "locks_ready lm tm" "accesses_covered lm tm" by (auto simp: tm_inv_def)
  have "accesses_covered lm tm'"
    unfolding accesses_covered_def
  proof (intro allI impI ballI)
    fix u tx' oper
    assume tx': "tx_of tm' u = Some tx'" and oper: "oper \<in> set (operations tx')"
    with assms(3) [OF tx'] obtain tx where "tx_of tm u = Some tx"
      "isolation_level tx' = isolation_level tx" "operations tx' = operations tx" by auto
    with lm(2) oper have "access_covered (lm_holds lm) u tx oper" by (simp add: accesses_covered_def)
    then show "access_covered (lm_holds lm) u tx' oper"
      by (rule access_covered_mono) (simp_all add: \<open>isolation_level tx' = isolation_level tx\<close>)
  qed
  with lm(1) assms(2) show ?thesis by (auto simp: locks_ready_def intro: tm_invI)
qed

lemma tm_inv_set_tx:
  "tm_inv tm \<Longrightarrow> tx_of tm t = Some tx \<Longrightarrow> isolation_level tx' = isolation_level tx \<Longrightarrow>
   operations tx' = operations tx \<Longrightarrow> tm_inv (set_tx t tx' tm)"
  by (erule tm_inv_less) (auto split: if_splits)

lemma tm_inv_new_tx: "tm_inv tm \<Longrightarrow> operations tx = [] \<Longrightarrow> tm_inv (set_tx t tx tm)"
  by (erule tm_inv_less) (auto split: if_splits)

lemma tm_inv_notify [simp]: "tm_inv (tm_notify e tm) = tm_inv tm"
  by (simp add: tm_inv_def locks_ready_def accesses_covered_def)

text \<open>The locks of a transaction are never released: with any, the call throws.\<close>

lemma tm_inv_release:
  "tm_inv tm \<Longrightarrow> release_tx_locks t tm = Some (r, tm') \<Longrightarrow> tm' = tm"
  by (auto simp: tm_inv_def release_tx_locks_cases split: if_splits)

abbreviation tm_keeps :: "(tx_manager, 'a) op \<Rightarrow> bool" where
  "tm_keeps \<equiv> op_keeps tm_inv"

lemmas tm_keeps_locked = tm_mx.keeps_guarded [where I = tm_inv, OF tm_inv_held]

section \<open>Every operation keeps it\<close>

lemma tm_inv_fields [simp]:
  "tm_inv (tm\<lparr>tm_handler := h\<rparr>) = tm_inv tm" "tm_inv (tm\<lparr>tm_default_timeout := d\<rparr>) = tm_inv tm"
  "tm_inv (tm\<lparr>tm_stop_threads := b, tm_is_running := c\<rparr>) = tm_inv tm"
  "tm_inv (tm\<lparr>next_transaction_id := n\<rparr>) = tm_inv tm"
  by (simp_all add: tm_inv_def locks_ready_def accesses_covered_def)

lemma keeps_start: "tm_keeps tm_start" and keeps_stop: "tm_keeps (tm_stop w)"
  and keeps_handler: "tm_keeps (tm_set_event_handler h)"
  and keeps_timeout: "tm_keeps (tm_set_default_timeout d)"
  unfolding tm_start_def tm_stop_def tm_set_event_handler_def tm_set_default_timeout_def
  by (intro tm_keeps_locked; auto split: if_splits)+

lemma keeps_begin: "tm_keeps (begin_transaction now isolation)"
  unfolding begin_transaction_def
  by (intro tm_keeps_locked)
    (auto simp: Let_def DistributedTransaction_def intro!: tm_inv_new_tx split: if_splits)

text \<open>The transaction that is committed or aborted is gone, or another state of it is left by a throw;
  the others are as before.\<close>

definition tx_left :: "tx_id \<Rightarrow> tx_manager \<Rightarrow> tx_manager \<Rightarrow> bool" where
  "tx_left t tm tm' \<longleftrightarrow> tm_locks tm' = tm_locks tm
     \<and> (tx_of tm' = tx_of tm \<or> tx_of tm' = (tx_of tm)(t := None)
        \<or> (\<exists>tx st now. tx_of tm t = Some tx
             \<and> tx_of tm' = (tx_of tm)(t \<mapsto> tx\<lparr>tx_state := st, last_activity := now\<rparr>)))"

lemma tx_leftI:
  assumes "tm_locks tm' = tm_locks tm"
  shows "tx_of tm' = tx_of tm \<Longrightarrow> tx_left t tm tm'"
    and "tx_of tm' = (tx_of tm)(t := None) \<Longrightarrow> tx_left t tm tm'"
    and "tx_of tm t = Some tx \<Longrightarrow> tx_of tm' = (tx_of tm)(t \<mapsto> tx\<lparr>tx_state := st, last_activity := now\<rparr>)
      \<Longrightarrow> tx_left t tm tm'"
  using assms by (auto simp: tx_left_def)

lemma tx_left_held [simp]:
  "tx_left t tm tm" "tx_left t tm (tm_set_held b tm') = tx_left t tm tm'"
  by (simp_all add: tx_left_def tm_set_held_def)

lemma abort_shape:
  assumes "tm_inv tm" and "abort_transaction now t tm = Some (r, tm')"
  shows "tx_left t tm tm'"
proof -
  obtain lm where lm: "locks_ready lm tm" using assms(1) by (auto simp: tm_inv_def)
  have free: "\<not> tm_held tm"
    using assms(2) unfolding abort_transaction_def by (rule tm_mx.was_free)
  show ?thesis
  proof (cases "validate_transaction now t tm")
    case (Error s m)
    with assms(2) free show ?thesis by (auto simp: abort_transaction_def guarded_def)
  next
    case (Ok v)
    then obtain tx where v: "tx_valid now t tx tm"
      by (auto simp: validate_transaction_def tx_valid_def split: option.splits if_splits)
    then have tx: "tx_of tm t = Some tx" by (simp add: tx_valid_def)
    show ?thesis
    proof (cases "tx_lock_ids lm t = []")
      case True
      with assms(2) free Ok tx lm show ?thesis
        by (intro tx_leftI(2)) (auto simp: abort_transaction_def guarded_def Let_def and_then_def
            rollback_transaction_operations_def release_tx_locks_cases [of lm] fun_eq_iff)
    next
      case False
      with abort_valid [OF free v lm] assms(2) show ?thesis by (auto intro: tx_leftI(3) [OF _ tx])
    qed
  qed
qed

lemma commit_shape:
  assumes "tm_inv tm" and "commit_transaction now t tm = Some (r, tm')"
  shows "tx_left t tm tm'" and "r = Returns (Ok ()) \<Longrightarrow> \<exists>lm. locks_ready lm tm \<and> tx_lock_ids lm t = []"
proof -
  obtain lm where lm: "locks_ready lm tm" using assms(1) by (auto simp: tm_inv_def)
  have free: "\<not> tm_held tm"
    using assms(2) unfolding commit_transaction_def by (rule tm_mx.was_free)
  have "tx_left t tm tm' \<and> (r = Returns (Ok ()) \<longrightarrow> tx_lock_ids lm t = [])"
  proof (cases "\<exists>tx. tx_valid now t tx tm \<and> tx_state tx = ACTIVE")
    case False
    then have v: "(\<exists>s m. validate_transaction now t tm = Error s m) \<or>
        (\<exists>tx. validate_transaction now t tm = Ok () \<and> tx_of tm t = Some tx \<and> tx_state tx \<noteq> ACTIVE)"
      by (auto simp: validate_transaction_def tx_valid_def split: option.splits)
    then show ?thesis
    proof
      assume "\<exists>s m. validate_transaction now t tm = Error s m"
      with assms(2) free show ?thesis
        by (auto simp: commit_transaction_def guarded_def)
    next
      assume "\<exists>tx. validate_transaction now t tm = Ok () \<and> tx_of tm t = Some tx \<and> tx_state tx \<noteq> ACTIVE"
      with assms(2) free show ?thesis
        by (auto simp: commit_transaction_def guarded_def)
    qed
  next
    case True
    then obtain tx where v: "tx_valid now t tx tm" and a: "tx_state tx = ACTIVE" by blast
    then have tx: "tx_of tm t = Some tx" by (simp add: tx_valid_def)
    show ?thesis
    proof (cases "list_all snd (prepare_votes tx)")
      case False
      with assms(2) free tx a validate_valid [OF v] show ?thesis
        by (auto simp: commit_transaction_def guarded_def send_messages_found update_activity_def Let_def
            fun_eq_iff intro!: tx_leftI(2))
    next
      case votes: True
      show ?thesis
      proof (cases "tx_lock_ids lm t = []")
        case True
        with assms(2) free tx a lm votes validate_valid [OF v] show ?thesis
          by (auto simp: commit_transaction_def guarded_def send_messages_found update_activity_def
              Let_def and_then_def apply_transaction_operations_def release_tx_locks_cases [of lm]
              fun_eq_iff intro!: tx_leftI(2))
      next
        case False
        with commit_active [OF free v a lm] votes assms(2) show ?thesis
          by (auto intro: tx_leftI(3) [OF _ tx])
      qed
    qed
  qed
  with lm show "tx_left t tm tm'"
    and "r = Returns (Ok ()) \<Longrightarrow> \<exists>lm. locks_ready lm tm \<and> tx_lock_ids lm t = []"
    by blast+
qed

lemma tm_keeps_shape:
  assumes "\<And>tm r tm'. tm_inv tm \<Longrightarrow> f tm = Some (r, tm') \<Longrightarrow> tx_left t tm tm'"
  shows "tm_keeps f"
  unfolding op_keeps_def
proof (intro allI impI)
  fix tm r tm'
  assume i: "tm_inv tm" and c: "f tm = Some (r, tm')"
  from assms [OF this] show "tm_inv tm'"
    by (intro tm_inv_less [OF i]) (auto simp: tx_left_def split: if_splits)
qed

lemma keeps_abort: "tm_keeps (abort_transaction now t)"
  by (rule tm_keeps_shape) (rule abort_shape)

lemma keeps_commit: "tm_keeps (commit_transaction now t)"
  by (rule tm_keeps_shape) (rule commit_shape)

lemma keeps_prepare: "tm_keeps (tm_prepare now t)"
  unfolding tm_prepare_def
proof (rule tm_keeps_locked, goal_cases)
  case (1 tm r tm')
  then show ?case
    by (cases "validate_transaction now t tm"; cases "tx_of tm t")
      (auto simp: update_activity_def intro: tm_inv_set_tx split: if_splits)
qed

lemma keeps_message: "tm_keeps (handle_tpc_message msg)"
  unfolding handle_tpc_message_def
proof (rule tm_keeps_locked, goal_cases)
  case (1 tm r tm')
  then show ?case
    by (cases "msg_type msg"; cases "tx_of tm (msg_tx msg)")
      (auto simp: handle_prepare_message_def handle_prepare_response_def handle_commit_message_def
        handle_abort_message_def Let_def intro: tm_inv_set_tx)
qed

text \<open>An acquisition that a data operation makes: granted locks are added, refused ones change
  nothing.\<close>

abbreviation acquire_in :: "time_point \<Rightarrow> time_point \<Rightarrow> (lock_manager \<Rightarrow> lock_manager) \<Rightarrow> acquisition" where
  "acquire_in now now2 window \<equiv> acquire_numbered now now2 window 5000"

lemma tm_inv_locks:
  assumes "accesses_covered lm tm" and "lm_sound lm'" and "lm_holds lm \<subseteq> lm_holds lm'"
  shows "tm_inv (tm\<lparr>tm_locks := Some lm'\<rparr>)"
  using assms by (intro tm_invI [of lm']) (auto simp: locks_ready_def accesses_covered_def
      intro: access_covered_mono)

lemma tm_inv_record:
  assumes "tm_inv tm" and "tx_of tm t = Some tx"
    and "\<And>lm. tm_locks tm = Some lm \<Longrightarrow> access_covered (lm_holds lm) t tx oper"
  shows "tm_inv (record_operation now oper t tx tm)"
proof -
  from assms(1) obtain lm where lm: "locks_ready lm tm" "accesses_covered lm tm" by (auto simp: tm_inv_def)
  have "access_covered (lm_holds lm) t tx oper" using assms(3) lm(1) by (simp add: locks_ready_def)
  moreover have "access_covered H t (tx\<lparr>operations := ops, last_activity := now\<rparr>) x
      = access_covered H t tx x" for H ops x
    by (simp add: access_covered_def split: tx_op_type.split)
  ultimately have "accesses_covered lm (record_operation now oper t tx tm)"
    using lm(2) assms(2) by (auto simp: accesses_covered_def record_operation_def update_activity_def)
  with lm(1) show ?thesis by (auto simp: record_operation_def intro: tm_invI)
qed

lemma take_lock_inv:
  assumes "quiet window" and "tm_inv tm" and "tx_of tm t = Some tx"
    and "take_lock (acquire_in now now2 window) t key type tx tm = Some (r, tm')"
  shows "tm_inv tm' \<and> (\<forall>tx'. r = Returns (Ok tx') \<longrightarrow> tx_of tm' t = Some tx'
    \<and> isolation_level tx' = isolation_level tx
    \<and> (\<exists>lm'. tm_locks tm' = Some lm' \<and> (t, key, type) \<in> lm_holds lm'))"
proof -
  from assms(2) obtain lm where lm: "tm_locks tm = Some lm" "lm_sound lm" "accesses_covered lm tm"
    by (auto simp: tm_inv_def locks_ready_def)
  obtain q lm' where a: "acquire_in now now2 window t key type lm = Some (q, lm')"
    using assms(4) lm(1) by (cases "acquire_in now now2 window t key type lm")
      (auto simp: take_lock_def with_locks_def and_then_def)
  show ?thesis
  proof (cases "\<exists>i. q = Returns (Ok i)")
    case False
    from acquire_refused [OF assms(1) lm(2) a] tm_inv_locks [OF lm(3), of lm'] False
    have "tm_inv (tm\<lparr>tm_locks := Some lm'\<rparr>)" by simp
    with assms(4) lm(1) a False show ?thesis
      by (auto simp: take_lock_def with_locks_def and_then_def split: attempt.splits result.splits)
  next
    case True
    then obtain i where i: "q = Returns (Ok i)" by blast
    from lm.granted [OF lm(2) a [unfolded i]]
    have g: "lm_sound lm'" "lm_holds lm' = insert (t, key, type) (lm_holds lm)" by simp_all
    with tm_inv_locks [OF lm(3), of lm'] have "tm_inv (tm\<lparr>tm_locks := Some lm'\<rparr>)" by auto
    then have "tm_inv (set_tx t (tx\<lparr>held_locks := List.insert i (held_locks tx)\<rparr>)
        (tm\<lparr>tm_locks := Some lm'\<rparr>))"
      by (rule tm_inv_set_tx) (simp_all add: assms(3))
    with assms(4) lm(1) a i g(2) show ?thesis
      by (auto simp: take_lock_def with_locks_def and_then_def Let_def)
  qed
qed

lemma keeps_locked_operation:
  assumes "quiet window" and "op_key oper = key"
    and "op_type oper = TX_LOCK \<or> op_type oper \<noteq> TX_READ \<and> type = EXCLUSIVE"
  shows "tm_keeps (locked_operation (acquire_in now now2 window) now3 t key type oper)"
  unfolding locked_operation_def
proof (rule tm_keeps_locked, goal_cases)
  case (1 tm r tm')
  show ?case
  proof (cases "validate_transaction now3 t tm")
    case (Ok u)
    with 1(2) obtain tx where tx: "tx_of tm t = Some tx" by (cases "tx_of tm t") auto
    obtain q tm1 where l: "take_lock (acquire_in now now2 window) t key type tx tm = Some (q, tm1)"
      using 1(2) Ok tx by (cases "take_lock (acquire_in now now2 window) t key type tx tm")
        (auto simp: and_then_def)
    note inv = take_lock_inv [OF assms(1) 1(1) tx l]
    show ?thesis
    proof (cases "\<exists>tx'. q = Returns (Ok tx')")
      case True
      then obtain tx' where q: "q = Returns (Ok tx')" by blast
      with inv assms(2,3) have "tm_inv (record_operation now3 oper t tx' tm1)"
        by (intro tm_inv_record) (auto simp: access_covered_def split: tx_op_type.splits)
      with 1(2) Ok tx l q show ?thesis by (simp add: and_then_def)
    qed (use 1(2) Ok tx l inv in \<open>auto simp: and_then_def split: attempt.splits result.splits\<close>)
  qed (use 1 in simp)
qed

lemma keeps_write: "quiet window \<Longrightarrow> tm_keeps (tm_write (acquire_in now now2 window) now3 t key value)"
  and keeps_remove: "quiet window \<Longrightarrow> tm_keeps (tm_remove (acquire_in now now2 window) now3 t key)"
  and keeps_lock: "quiet window \<Longrightarrow> tm_keeps (tm_lock (acquire_in now now2 window) now3 t key type)"
  unfolding tm_write_def tm_remove_def tm_lock_def
  by (rule keeps_locked_operation; simp add: TransactionOperation_def)+

lemma keeps_read:
  assumes "quiet window"
  shows "tm_keeps (tm_read (acquire_in now now2 window) now3 t key)"
  unfolding tm_read_def
proof (rule tm_keeps_locked, goal_cases)
  case (1 tm r tm')
  show ?case
  proof (cases "validate_transaction now3 t tm")
    case (Ok u)
    with 1(2) obtain tx where tx: "tx_of tm t = Some tx" by (cases "tx_of tm t") auto
    let ?oper = "(TransactionOperation now3)\<lparr>op_type := TX_READ, op_key := key\<rparr>"
    show ?thesis
    proof (cases "isolation_level tx = READ_UNCOMMITTED")
      case True
      have "tm_inv (record_operation now3 ?oper t tx tm)"
        by (rule tm_inv_record [OF 1(1) tx]) (simp add: access_covered_def True)
      with 1(2) Ok tx True show ?thesis by (auto simp: isolation_rank_def and_then_def Let_def)
    next
      case False
      then have rank: "isolation_rank READ_COMMITTED \<le> isolation_rank (isolation_level tx)"
        by (cases "isolation_level tx") (simp_all add: isolation_rank_def)
      obtain q tm1 where l: "take_lock (acquire_in now now2 window) t key SHARED tx tm = Some (q, tm1)"
        using 1(2) Ok tx rank by (cases "take_lock (acquire_in now now2 window) t key SHARED tx tm")
          (auto simp: and_then_def)
      note inv = take_lock_inv [OF assms 1(1) tx l]
      show ?thesis
      proof (cases "\<exists>tx'. q = Returns (Ok tx')")
        case True
        then obtain tx' where q: "q = Returns (Ok tx')" by blast
        with inv have "tm_inv (record_operation now3 ?oper t tx' tm1)"
          by (intro tm_inv_record) (auto simp: access_covered_def)
        with 1(2) Ok tx l q rank show ?thesis
          by (auto simp: and_then_def Let_def)
      qed (use 1(2) Ok tx l inv rank in \<open>auto simp: and_then_def split: attempt.splits result.splits\<close>)
    qed
  qed (use 1 in simp)
qed

lemma keeps_cleanup: "tm_keeps (cleanup_pass now)"
  unfolding op_keeps_def
proof (intro allI impI)
  fix tm r tm'
  assume i: "tm_inv tm" and c: "cleanup_pass now tm = Some (r, tm')"
  then obtain q where "cleanup_expired_transactions now tm = Some (q, tm')"
    by (auto simp: cleanup_pass_def)
  moreover from this have "\<not> tm_held tm"
    unfolding cleanup_expired_transactions_def by (rule tm_mx.was_free)
  ultimately have "tm' = tm" by (simp add: tm_cleanup_raises)
  with i show "tm_inv tm'" by simp
qed

text \<open>The detector of deadlocks finds none: the graph of waits is acyclic all the time.\<close>

lemma keeps_deadlock_pass: "tm_keeps deadlock_pass"
  unfolding op_keeps_def
proof (intro allI impI)
  fix tm r tm'
  assume i: "tm_inv tm" and c: "deadlock_pass tm = Some (r, tm')"
  then obtain lm where lm: "tm_locks tm = Some lm" "lm_wf lm" "\<not> lm_held lm"
    by (auto simp: tm_inv_def locks_ready_def lm_sound_def)
  with c detect_deadlocks_wf [OF lm(2,3)] have "tm' = tm\<lparr>tm_locks := Some lm\<rparr>"
    by (auto simp: deadlock_pass_def with_locks_def)
  also have "\<dots> = tm" using lm(1) by (cases tm) simp
  finally have "tm' = tm" .
  with i show "tm_inv tm'" by simp
qed

section \<open>Runs\<close>

text \<open>One step is a call of the interface, a message from another node, or a pass of a background
  loop. The replacement of the lock manager in the middle of a run is left out. The queries and
  \<open>recover_transactions\<close> change nothing.\<close>

inductive tm_step :: "tx_manager \<Rightarrow> tx_manager \<Rightarrow> bool" where
  step_start: "tm_start tm = Some (r, tm') \<Longrightarrow> tm_step tm tm'"
| step_stop: "tm_stop waiting tm = Some (r, tm') \<Longrightarrow> tm_step tm tm'"
| step_begin: "begin_transaction now isolation tm = Some (b, tm') \<Longrightarrow> tm_step tm tm'"
| step_read: "quiet window \<Longrightarrow> tm_read (acquire_in now now2 window) now3 t key tm = Some (e, tm') \<Longrightarrow>
    tm_step tm tm'"
| step_write: "quiet window \<Longrightarrow>
    tm_write (acquire_in now now2 window) now3 t key value tm = Some (r, tm') \<Longrightarrow> tm_step tm tm'"
| step_remove: "quiet window \<Longrightarrow>
    tm_remove (acquire_in now now2 window) now3 t key tm = Some (r, tm') \<Longrightarrow> tm_step tm tm'"
| step_lock: "quiet window \<Longrightarrow>
    tm_lock (acquire_in now now2 window) now3 t key type tm = Some (r, tm') \<Longrightarrow> tm_step tm tm'"
| step_prepare: "tm_prepare now t tm = Some (r, tm') \<Longrightarrow> tm_step tm tm'"
| step_commit: "commit_transaction now t tm = Some (r, tm') \<Longrightarrow> tm_step tm tm'"
| step_abort: "abort_transaction now t tm = Some (r, tm') \<Longrightarrow> tm_step tm tm'"
| step_message: "handle_tpc_message msg tm = Some (r, tm') \<Longrightarrow> tm_step tm tm'"
| step_handler: "tm_set_event_handler present tm = Some (v, tm') \<Longrightarrow> tm_step tm tm'"
| step_timeout: "tm_set_default_timeout timeout tm = Some (v, tm') \<Longrightarrow> tm_step tm tm'"
| step_cleanup: "cleanup_pass now tm = Some (v, tm') \<Longrightarrow> tm_step tm tm'"
| step_detector: "deadlock_pass tm = Some (v, tm') \<Longrightarrow> tm_step tm tm'"

definition tm_reachable :: "tx_manager \<Rightarrow> bool" where
  "tm_reachable = tm_step\<^sup>*\<^sup>* TransactionManager_new"

lemmas tm_keep_rules = keeps_start keeps_stop keeps_begin keeps_read keeps_write keeps_remove
  keeps_lock keeps_prepare keeps_commit keeps_abort keeps_message keeps_handler keeps_timeout
  keeps_cleanup keeps_deadlock_pass

lemma tm_step_inv: "tm_step tm tm' \<Longrightarrow> tm_inv tm \<Longrightarrow> tm_inv tm'"
  by (induction rule: tm_step.induct) (blast intro: op_keepsD tm_keep_rules)+

lemma tm_inv_new: "tm_inv TransactionManager_new"
proof (rule tm_invI)
  show "locks_ready LockManager_new TransactionManager_new"
    using lm_wf_new by (simp add: locks_ready_def lm_sound_def TransactionManager_new_def
        LockManager_new_def)
  show "accesses_covered LockManager_new TransactionManager_new"
    by (simp add: accesses_covered_def TransactionManager_new_def)
qed

lemma tm_reachable_inv: "tm_reachable tm \<Longrightarrow> tm_inv tm"
  unfolding tm_reachable_def
  by (induction rule: rtranclp_induct) (auto intro: tm_inv_new tm_step_inv)

lemma covered_lock:
  assumes "tm_reachable tm" and "tx_of tm t = Some tx" and "oper \<in> set (operations tx)"
  obtains lm where "locks_ready lm tm" and "access_covered (lm_holds lm) t tx oper"
  using tm_reachable_inv [OF assms(1)] assms(2,3) by (auto simp: tm_inv_def accesses_covered_def)

text \<open>C22: writers are isolated in every run: when a live transaction has written or removed a key,
  the only thing another live transaction can have done with the key is a read under
  \<open>READ_UNCOMMITTED\<close>.\<close>

theorem tm_writers_isolated:
  assumes "tm_reachable tm" and "tx_of tm t = Some tx" and "tx_of tm u = Some ux" and "t \<noteq> u"
    and "w \<in> set (operations tx)" and "op_type w = TX_WRITE \<or> op_type w = TX_DELETE"
    and "a \<in> set (operations ux)" and "op_key a = op_key w"
  shows "op_type a = TX_READ \<and> isolation_level ux = READ_UNCOMMITTED"
proof (rule ccontr)
  assume n: "\<not> (op_type a = TX_READ \<and> isolation_level ux = READ_UNCOMMITTED)"
  obtain lm where lm: "locks_ready lm tm" "access_covered (lm_holds lm) t tx w"
    by (rule covered_lock [OF assms(1,2,5)])
  obtain lm' where "locks_ready lm' tm" "access_covered (lm_holds lm') u ux a"
    by (rule covered_lock [OF assms(1,3,7)])
  with lm(1) have a: "access_covered (lm_holds lm) u ux a" by (simp add: locks_ready_def)
  have "(t, op_key w, EXCLUSIVE) \<in> lm_holds lm"
    using lm(2) assms(6) by (auto simp: access_covered_def)
  moreover have "\<exists>b. (u, op_key w, b) \<in> lm_holds lm"
    using a n assms(8) by (cases "op_type a") (auto simp: access_covered_def)
  moreover have "lm_sound lm" using lm(1) by (simp add: locks_ready_def)
  ultimately show False using lm.exclusive_unique assms(4) by blast
qed

text \<open>C23: what a call of \<open>commit_transaction\<close> that succeeds can be of: in every run, its transaction has only
  read, and only under \<open>READ_UNCOMMITTED\<close> (or it has done nothing). A call of \<open>commit_transaction\<close>
  for a transaction with a lock throws when it releases the lock.\<close>

theorem tm_commits_write_nothing:
  assumes "tm_reachable tm" and "commit_transaction now t tm = Some (Returns (Ok ()), tm')"
  shows "\<exists>tx. tx_of tm t = Some tx \<and> (\<forall>oper \<in> set (operations tx).
    op_type oper = TX_READ \<and> isolation_level tx = READ_UNCOMMITTED)"
proof -
  have inv: "tm_inv tm" by (rule tm_reachable_inv [OF assms(1)])
  obtain lm where lm: "locks_ready lm tm" "tx_lock_ids lm t = []"
    using commit_shape(2) [OF inv assms(2)] by auto
  have free: "\<not> tm_held tm"
    using assms(2) unfolding commit_transaction_def by (rule tm_mx.was_free)
  have "validate_transaction now t tm = Ok ()"
    using assms(2) free by (cases "validate_transaction now t tm")
      (auto simp: commit_transaction_def guarded_def)
  then obtain tx where tx: "tx_of tm t = Some tx"
    by (cases "tx_of tm t") (simp_all add: validate_transaction_def)
  have none: "(t, k, b) \<notin> lm_holds lm" for k b
    using holds_tx_locks lm by (auto simp: locks_ready_def lm_sound_def)
  have "op_type oper = TX_READ \<and> isolation_level tx = READ_UNCOMMITTED"
    if oper: "oper \<in> set (operations tx)" for oper
  proof -
    obtain lm' where "locks_ready lm' tm" "access_covered (lm_holds lm') t tx oper"
      by (rule covered_lock [OF assms(1) tx oper])
    with lm(1) have "access_covered (lm_holds lm) t tx oper" by (simp add: locks_ready_def)
    with none show ?thesis by (cases "op_type oper") (auto simp: access_covered_def)
  qed
  with tx show ?thesis by blast
qed

section \<open>A run\<close>

definition run_begun :: tx_manager where
  "run_begun = TransactionManager_new\<lparr>next_transaction_id := 3, tm_is_running := True, transactions :=
     [(1, (DistributedTransaction 0)\<lparr>transaction_id := 1\<rparr>),
      (2, (DistributedTransaction 0)\<lparr>transaction_id := 2, isolation_level := READ_UNCOMMITTED\<rparr>)]\<rparr>"

definition run_written :: tx_manager where
  "run_written = snd (the (tm_write (acquire_in 0 0 id) 0 1 k1 (DataEntry 0 ''v'' 1) run_begun))"

definition run_read :: tx_manager where
  "run_read = snd (the (tm_read (acquire_in 0 0 id) 0 2 k1 run_written))"

lemma run_begun_reachable: "tm_reachable run_begun"
proof -
  let ?a = "TransactionManager_new\<lparr>tm_is_running := True\<rparr>"
  let ?b = "?a\<lparr>next_transaction_id := 2,
    transactions := [(1, (DistributedTransaction 0)\<lparr>transaction_id := 1\<rparr>)]\<rparr>"
  have "tm_start TransactionManager_new = Some (Ok (), ?a)"
    by (simp add: tm_start_def guarded_def tm_set_held_def TransactionManager_new_def)
  then have "tm_step TransactionManager_new ?a" by (rule step_start)
  moreover have "begin_transaction 0 READ_COMMITTED ?a = Some (Ok 1, ?b)"
    by (simp add: begin_transaction_def guarded_def tm_set_held_def TransactionManager_new_def
        tm_notify_def set_tx_def DistributedTransaction_def)
  then have "tm_step ?a ?b" by (rule step_begin)
  moreover have "begin_transaction 0 READ_UNCOMMITTED ?b = Some (Ok 2, run_begun)"
    by (simp add: begin_transaction_def guarded_def tm_set_held_def TransactionManager_new_def
        tm_notify_def set_tx_def DistributedTransaction_def run_begun_def)
  then have "tm_step ?b run_begun" by (rule step_begin)
  ultimately show ?thesis unfolding tm_reachable_def by (meson converse_rtranclp_into_rtranclp rtranclp.rtrancl_refl)
qed

lemma quiet_id: "quiet id"
  by (simp add: quiet_def)

lemma run_begun_fields:
  "tx_of run_begun 1 = Some ((DistributedTransaction 0)\<lparr>transaction_id := 1\<rparr>)"
  "tx_of run_begun 2 = Some ((DistributedTransaction 0)\<lparr>transaction_id := 2,
     isolation_level := READ_UNCOMMITTED\<rparr>)"
  "tm_locks run_begun = Some LockManager_new" "\<not> tm_held run_begun"
  by (simp_all add: run_begun_def TransactionManager_new_def)

lemma valid_at_start: "tx_of tm t = Some tx \<Longrightarrow> last_activity tx = 0 \<Longrightarrow> tx_timeout tx = 30000 \<Longrightarrow>
    validate_transaction 0 t tm = Ok ()"
  by (simp add: validate_transaction_def tx_is_expired_def millis_ns_def)

lemma run_written:
  "tm_write (acquire_in 0 0 id) 0 1 k1 (DataEntry 0 ''v'' 1) run_begun = Some (Returns (Ok ()), run_written)"
  "tx_of run_written 2 = tx_of run_begun 2" "\<not> tm_held run_written"
  "tm_locks run_written = Some demo_granted"
  "\<exists>tx. tx_of run_written 1 = Some tx \<and> operations tx =
     [(TransactionOperation 0)\<lparr>op_type := TX_WRITE, op_key := k1, op_new_value := DataEntry 0 ''v'' 1\<rparr>]"
proof -
  have v: "validate_transaction 0 1 run_begun = Ok ()"
    using run_begun_fields(1) by (rule valid_at_start) (simp_all add: DistributedTransaction_def)
  show "tm_write (acquire_in 0 0 id) 0 1 k1 (DataEntry 0 ''v'' 1) run_begun = Some (Returns (Ok ()), run_written)"
    "tx_of run_written 2 = tx_of run_begun 2" "\<not> tm_held run_written"
    "tm_locks run_written = Some demo_granted"
    "\<exists>tx. tx_of run_written 1 = Some tx \<and> operations tx =
     [(TransactionOperation 0)\<lparr>op_type := TX_WRITE, op_key := k1, op_new_value := DataEntry 0 ''v'' 1\<rparr>]"
    unfolding run_written_def using v run_begun_fields demo_acquire
    by (simp_all add: tm_write_def locked_operation_def guarded_def take_lock_def with_locks_def and_then_def
        record_operation_def update_activity_def Let_def DistributedTransaction_def)
qed

lemma run_read:
  "\<exists>e. tm_read (acquire_in 0 0 id) 0 2 k1 run_written = Some (Returns (Ok e), run_read)"
  "tx_of run_read 1 = tx_of run_written 1" "\<not> tm_held run_read" "tm_locks run_read = Some demo_granted"
  "\<exists>tx. tx_of run_read 2 = Some tx \<and> isolation_level tx = READ_UNCOMMITTED \<and> tx_state tx = ACTIVE
     \<and> prepare_votes tx = [] \<and> validate_transaction 0 2 run_read = Ok () \<and> operations tx =
     [(TransactionOperation 0)\<lparr>op_type := TX_READ, op_key := k1\<rparr>]"
proof -
  have tx: "tx_of run_written 2 = Some ((DistributedTransaction 0)\<lparr>transaction_id := 2,
     isolation_level := READ_UNCOMMITTED\<rparr>)"
    by (simp add: run_written(2) run_begun_fields)
  have v: "validate_transaction 0 2 run_written = Ok ()"
    using tx by (rule valid_at_start) (simp_all add: DistributedTransaction_def)
  show "\<exists>e. tm_read (acquire_in 0 0 id) 0 2 k1 run_written = Some (Returns (Ok e), run_read)"
    "tx_of run_read 1 = tx_of run_written 1" "\<not> tm_held run_read" "tm_locks run_read = Some demo_granted"
    "\<exists>tx. tx_of run_read 2 = Some tx \<and> isolation_level tx = READ_UNCOMMITTED \<and> tx_state tx = ACTIVE
     \<and> prepare_votes tx = [] \<and> validate_transaction 0 2 run_read = Ok () \<and> operations tx =
     [(TransactionOperation 0)\<lparr>op_type := TX_READ, op_key := k1\<rparr>]"
    unfolding run_read_def using v tx run_written(3,4)
    by (simp_all add: validate_transaction_def tx_is_expired_def millis_ns_def tm_read_def guarded_def and_then_def isolation_rank_def
        record_operation_def update_activity_def Let_def DistributedTransaction_def)
qed

lemma run_read_reachable: "tm_reachable run_read"
proof -
  have "tm_step run_begun run_written" by (rule step_write [OF quiet_id run_written(1)])
  moreover obtain e where e: "tm_read (acquire_in 0 0 id) 0 2 k1 run_written = Some (Returns (Ok e), run_read)"
    using run_read(1) by blast
  then have "tm_step run_written run_read" by (rule step_read [OF quiet_id])
  ultimately show ?thesis
    using run_begun_reachable unfolding tm_reachable_def by (meson rtranclp.rtrancl_into_rtrancl)
qed

theorem tm_writers_isolated_witness:
  "\<exists>tx ux w a. tx_of run_read 1 = Some tx \<and> tx_of run_read 2 = Some ux
    \<and> w \<in> set (operations tx) \<and> op_type w = TX_WRITE \<and> a \<in> set (operations ux) \<and> op_key a = op_key w
    \<and> isolation_level ux = READ_UNCOMMITTED"
proof -
  obtain tx where tx: "tx_of run_read 1 = Some tx" and w: "operations tx =
     [(TransactionOperation 0)\<lparr>op_type := TX_WRITE, op_key := k1, op_new_value := DataEntry 0 ''v'' 1\<rparr>]"
    using run_written(5) run_read(2) by auto
  obtain ux where ux: "tx_of run_read 2 = Some ux"
    and a: "operations ux = [(TransactionOperation 0)\<lparr>op_type := TX_READ, op_key := k1\<rparr>]"
    using run_read(5) by auto
  from tm_writers_isolated [OF run_read_reachable tx ux, of "hd (operations tx)" "hd (operations ux)"]
  have "isolation_level ux = READ_UNCOMMITTED" by (simp add: w a)
  with tx ux w a show ?thesis by auto
qed

theorem tm_commits_write_nothing_witness:
  "\<exists>tm'. commit_transaction 0 2 run_read = Some (Returns (Ok ()), tm')
    \<and> (\<exists>tx. tx_of run_read 2 = Some tx \<and> list_all (\<lambda>oper. op_type oper = TX_READ) (operations tx))"
proof -
  obtain tx where tx: "tx_valid 0 2 tx run_read" "tx_state tx = ACTIVE" "prepare_votes tx = []"
    using run_read(5) by (auto simp: tx_valid_def validate_transaction_def split: if_splits)
  have "locks_ready demo_granted run_read"
    using run_read(4) demo_granted_sound by (simp add: locks_ready_def)
  moreover have "tx_lock_ids demo_granted 2 = []"
    by (simp add: demo_granted_def acquire_begin_def key_lock_ids_def tx_lock_ids_def
        LockManager_new_def grant_lock_def Let_def)
  ultimately obtain tm' where c: "commit_transaction 0 2 run_read = Some (Returns (Ok ()), tm')"
    using commit_active [OF run_read(3) tx(1,2), of demo_granted] tx(3) by auto
  from tm_commits_write_nothing [OF run_read_reachable c] c show ?thesis
    by (auto simp: list_all_iff)
qed

end
