(* ===== verification/Graph_Search.thy ===== *)
theory Graph_Search
  imports Prelude
begin

text \<open>
  The breadth-first search that the split brain detector uses twice: in
  \<open>find_connected_components\<close> over the live nodes, and in \<open>find_network_partitions\<close> over the
  indices of a connectivity matrix. \<open>link c v\<close> is the test of the inner loop; it is \<open>None\<close>
  where the test has no defined result (an index outside the matrix). The contract
  \<open>component_split\<close> says what a list of components promises; its lemmas serve every search.
\<close>

section \<open>The search\<close>

text \<open>The inner loop: put every linked node that was not visited into the queue.\<close>

fun enqueue_neighbours ::
    "('a \<Rightarrow> 'a \<Rightarrow> bool option) \<Rightarrow> 'a \<Rightarrow> 'a list \<Rightarrow> 'a list \<Rightarrow> 'a list \<Rightarrow> ('a list \<times> 'a list) option" where
  "enqueue_neighbours link c [] queue visited = Some (queue, visited)"
| "enqueue_neighbours link c (v # vs) queue visited =
     (if v \<in> set visited then enqueue_neighbours link c vs queue visited
      else do { b \<leftarrow> link c v;
                if b then enqueue_neighbours link c vs (queue @ [v]) (v # visited)
                else enqueue_neighbours link c vs queue visited })"

lemma enqueue_Some:
  assumes "enqueue_neighbours link c vs queue visited = Some (queue', visited')"
  shows "\<exists>new. queue' = queue @ new \<and> set visited' = set visited \<union> set new \<and> distinct new
    \<and> set new \<subseteq> set vs - set visited"
  using assms
proof (induction vs arbitrary: queue visited)
  case Nil
  then show ?case by (intro exI [of _ "[]"]) simp
next
  case (Cons v vs)
  show ?case
  proof (cases "v \<notin> set visited \<and> link c v = Some True")
    case True
    with Cons.prems have "enqueue_neighbours link c vs (queue @ [v]) (v # visited) = Some (queue', visited')"
      by simp
    from Cons.IH [OF this] obtain new where
      "queue' = (queue @ [v]) @ new" "set visited' = set (v # visited) \<union> set new" "distinct new"
      "set new \<subseteq> set vs - set (v # visited)" by blast
    with True show ?thesis by (intro exI [of _ "v # new"]) auto
  next
    case False
    with Cons.prems have "enqueue_neighbours link c vs queue visited = Some (queue', visited')"
      by (cases "link c v") (auto split: if_splits)
    from Cons.IH [OF this] show ?thesis by auto
  qed
qed

function bfs ::
    "('a \<Rightarrow> 'a \<Rightarrow> bool option) \<Rightarrow> 'a list \<Rightarrow> 'a list \<Rightarrow> 'a list \<Rightarrow> 'a list \<Rightarrow> ('a list \<times> 'a list) option" where
  "bfs link vs [] visited block = Some (block, visited)"
| "bfs link vs (c # queue) visited block =
     do { (queue, visited) \<leftarrow> enqueue_neighbours link c vs queue visited;
          bfs link vs queue visited (block @ [c]) }"
  by pat_completeness auto

termination
proof (relation "measure (\<lambda>(link, vs, queue, visited, block).
    2 * card (set vs - set visited) + length queue)", goal_cases)
  case (2 link vs c queue visited block qv queue' visited')
  then obtain new where new: "queue' = queue @ new" "set visited' = set visited \<union> set new"
    "distinct new" "set new \<subseteq> set vs - set visited"
    using enqueue_Some [of link c vs queue visited queue' visited'] by auto
  have "card (set vs - set visited') = card ((set vs - set visited) - set new)"
    by (rule arg_cong [of _ _ card]) (use new in auto)
  also have "\<dots> = card (set vs - set visited) - length new"
    using new(3,4) by (simp add: card_Diff_subset distinct_card)
  finally have "card (set vs - set visited') + length new = card (set vs - set visited)"
    using new(3,4) card_mono [OF _ new(4)] by (simp add: distinct_card)
  then show ?case using new(1) by simp
qed simp

text \<open>The outer loop: a search from every start node that no earlier search has visited.\<close>

fun bfs_components ::
    "('a \<Rightarrow> 'a \<Rightarrow> bool option) \<Rightarrow> ('a \<Rightarrow> bool) \<Rightarrow> 'a list \<Rightarrow> 'a list \<Rightarrow> 'a list \<Rightarrow> 'a list list option" where
  "bfs_components link start vs [] visited = Some []"
| "bfs_components link start vs (s # ss) visited =
     (if s \<notin> set visited \<and> start s
      then do { (block, visited) \<leftarrow> bfs link vs [s] (s # visited) [];
                blocks \<leftarrow> bfs_components link start vs ss visited;
                Some (block # blocks) }
      else bfs_components link start vs ss visited)"

section \<open>What a list of components promises\<close>

definition links :: "'a set \<Rightarrow> ('a \<Rightarrow> 'a \<Rightarrow> bool) \<Rightarrow> ('a \<times> 'a) set" where
  "links ns r = {(u, v). u \<in> ns \<and> v \<in> ns \<and> r u v}"

lemma links_closed:
  assumes "(u, v) \<in> (links ns r)\<^sup>*" and "u \<in> A" and "A \<subseteq> ns"
    and "\<And>a b. a \<in> A \<Longrightarrow> b \<in> ns \<Longrightarrow> r a b \<Longrightarrow> b \<in> A"
  shows "v \<in> A"
  using assms(1,2) by (induction rule: rtrancl_induct) (auto simp: links_def intro: assms(4))

locale component_split =
  fixes wf :: "'s \<Rightarrow> bool" and nodes :: "'s \<Rightarrow> 'a set" and rel :: "'s \<Rightarrow> 'a \<Rightarrow> 'a \<Rightarrow> bool"
    and blocks :: "'s \<Rightarrow> 'a list list option"
  assumes found_all: "wf s \<Longrightarrow> \<exists>bs. blocks s = Some bs"
    and covers: "wf s \<Longrightarrow> blocks s = Some bs \<Longrightarrow> set (concat bs) = nodes s"
    and disjoint: "wf s \<Longrightarrow> blocks s = Some bs \<Longrightarrow> distinct (concat bs) \<and> [] \<notin> set bs"
    and block_reach: "wf s \<Longrightarrow> blocks s = Some bs \<Longrightarrow> b \<in> set bs \<Longrightarrow> u \<in> set b \<Longrightarrow>
      (v \<in> set b) = ((u, v) \<in> (links (nodes s) (rel s))\<^sup>*)"
begin

lemma same_block:
  assumes "wf s" and "blocks s = Some bs" and "u \<in> nodes s"
  shows "(\<exists>b \<in> set bs. u \<in> set b \<and> v \<in> set b) \<longleftrightarrow> (u, v) \<in> (links (nodes s) (rel s))\<^sup>*"
proof -
  from covers [OF assms(1,2)] assms(3) obtain b where "b \<in> set bs" "u \<in> set b" by auto
  with block_reach [OF assms(1,2)] show ?thesis by blast
qed

lemma one_block_iff:
  assumes "wf s" and "blocks s = Some bs"
  shows "length bs \<le> 1 \<longleftrightarrow>
    (\<forall>u \<in> nodes s. \<forall>v \<in> nodes s. (u, v) \<in> (links (nodes s) (rel s))\<^sup>*)"
proof
  assume one: "length bs \<le> 1"
  show "\<forall>u \<in> nodes s. \<forall>v \<in> nodes s. (u, v) \<in> (links (nodes s) (rel s))\<^sup>*"
  proof (intro ballI)
    fix u v assume "u \<in> nodes s" "v \<in> nodes s"
    moreover have "nodes s = (\<Union>b \<in> set bs. set b)" using covers [OF assms] by simp
    ultimately obtain b c where "b \<in> set bs" "u \<in> set b" "c \<in> set bs" "v \<in> set c"
      by blast
    moreover from one have "bs = [] \<or> (\<exists>x. bs = [x])" by (cases bs) auto
    ultimately have "v \<in> set b" by auto
    with block_reach [OF assms \<open>b \<in> set bs\<close> \<open>u \<in> set b\<close>] show "(u, v) \<in> (links (nodes s) (rel s))\<^sup>*"
      by simp
  qed
next
  assume all: "\<forall>u \<in> nodes s. \<forall>v \<in> nodes s. (u, v) \<in> (links (nodes s) (rel s))\<^sup>*"
  show "length bs \<le> 1"
  proof (rule ccontr)
    assume "\<not> length bs \<le> 1"
    then obtain b c ds where bs: "bs = b # c # ds"
      by (cases bs; cases "tl bs") auto
    with disjoint [OF assms] obtain u v where "u \<in> set b" "v \<in> set c"
      by (cases b; cases c) auto
    with covers [OF assms] bs have "u \<in> nodes s" "v \<in> nodes s" by auto
    with all block_reach [OF assms, of b u v] \<open>u \<in> set b\<close> bs have "v \<in> set b" by simp
    with \<open>v \<in> set c\<close> disjoint [OF assms] bs show False by auto
  qed
qed

end

section \<open>The search keeps the promise\<close>

text \<open>
  What the two loops rely on: the list of nodes has no duplicates, the test is defined on
  them, it leads from one node of \<open>ns\<close> (those that may start a search) to another only, and it
  is symmetric there.
\<close>

definition searchable ::
    "'a list \<Rightarrow> 'a set \<Rightarrow> ('a \<Rightarrow> bool) \<Rightarrow> ('a \<Rightarrow> 'a \<Rightarrow> bool) \<Rightarrow> ('a \<Rightarrow> 'a \<Rightarrow> bool option) \<Rightarrow> bool" where
  "searchable vs ns start r link \<longleftrightarrow> distinct vs \<and> ns = {v \<in> set vs. start v}
    \<and> (\<forall>c \<in> ns. \<forall>v \<in> set vs. link c v = Some (v \<in> ns \<and> r c v))
    \<and> (\<forall>c \<in> ns. \<forall>v \<in> ns. r c v \<longrightarrow> r v c)"

lemma enqueue_filter:
  assumes "distinct vs" and "\<And>v. v \<in> set vs \<Longrightarrow> link c v = Some (P v)"
  shows "enqueue_neighbours link c vs queue visited =
    Some (queue @ filter (\<lambda>v. v \<notin> set visited \<and> P v) vs,
          rev (filter (\<lambda>v. v \<notin> set visited \<and> P v) vs) @ visited)"
  using assms
proof (induction vs arbitrary: queue visited)
  case (Cons v vs)
  have "filter (\<lambda>u. u \<notin> set (v # visited) \<and> P u) vs = filter (\<lambda>u. u \<notin> set visited \<and> P u) vs"
    using Cons.prems(1) by (intro filter_cong) auto
  with Cons show ?case by simp
qed simp

text \<open>The state of a search: \<open>old\<close> is what earlier searches visited.\<close>

definition bfs_inv ::
    "'a set \<Rightarrow> ('a \<Rightarrow> 'a \<Rightarrow> bool) \<Rightarrow> 'a set \<Rightarrow> 'a \<Rightarrow> 'a list \<Rightarrow> 'a list \<Rightarrow> 'a list \<Rightarrow> bool" where
  "bfs_inv ns r old s queue visited block \<longleftrightarrow> distinct (block @ queue)
    \<and> set visited = old \<union> set (block @ queue) \<and> old \<inter> set (block @ queue) = {}
    \<and> s \<in> set (block @ queue) \<and> (\<forall>v \<in> set (block @ queue). v \<in> ns \<and> (s, v) \<in> (links ns r)\<^sup>*)
    \<and> (\<forall>c \<in> set block. \<forall>v \<in> ns. r c v \<longrightarrow> v \<in> set visited)"

lemma bfs_inv_step:
  assumes "bfs_inv ns r old s (c # queue) visited block"
    and "set new = {v \<in> ns. v \<notin> set visited \<and> r c v}" and "distinct new"
  shows "bfs_inv ns r old s (queue @ new) (rev new @ visited) (block @ [c])"
proof -
  have c: "c \<in> ns" "(s, c) \<in> (links ns r)\<^sup>*" using assms(1) by (auto simp: bfs_inv_def)
  have "(s, v) \<in> (links ns r)\<^sup>*" if "v \<in> set new" for v
    by (rule rtrancl_into_rtrancl [OF c(2)]) (use that c(1) assms(2) in \<open>auto simp: links_def\<close>)
  moreover have "\<forall>v \<in> set (block @ c # queue). v \<in> ns \<and> (s, v) \<in> (links ns r)\<^sup>*"
    using assms(1) by (simp add: bfs_inv_def)
  ultimately have "\<forall>v \<in> set ((block @ [c]) @ queue @ new). v \<in> ns \<and> (s, v) \<in> (links ns r)\<^sup>*"
    using assms(2) by auto
  moreover have "distinct ((block @ [c]) @ queue @ new)"
    using assms by (auto simp: bfs_inv_def)
  moreover have "\<forall>a \<in> set (block @ [c]). \<forall>v \<in> ns. r a v \<longrightarrow> v \<in> set (rev new @ visited)"
    using assms(1,2) by (simp add: bfs_inv_def) blast
  moreover have "set (rev new @ visited) = old \<union> set ((block @ [c]) @ queue @ new)"
    "old \<inter> set ((block @ [c]) @ queue @ new) = {}" "s \<in> set ((block @ [c]) @ queue @ new)"
    using assms(1,2) by (auto simp: bfs_inv_def)
  ultimately show ?thesis unfolding bfs_inv_def by - (intro conjI; assumption)
qed

lemma bfs_result:
  assumes "searchable vs ns start r link" and "bfs_inv ns r old s queue visited block"
  shows "\<exists>block' visited'. bfs link vs queue visited block = Some (block', visited')
    \<and> bfs_inv ns r old s [] visited' block'"
  using assms
proof (induction link vs queue visited block rule: bfs.induct)
  case (1 link vs visited block)
  then show ?case by simp
next
  case (2 link vs c queue visited block)
  let ?new = "filter (\<lambda>v. v \<notin> set visited \<and> v \<in> ns \<and> r c v) vs"
  have c: "c \<in> ns" and vs: "distinct vs" "ns \<subseteq> set vs"
    using 2(2,3) by (auto simp: bfs_inv_def searchable_def)
  have e: "enqueue_neighbours link c vs queue visited = Some (queue @ ?new, rev ?new @ visited)"
    using 2(2) c by (intro enqueue_filter) (auto simp: searchable_def)
  have "bfs_inv ns r old s (queue @ ?new) (rev ?new @ visited) (block @ [c])"
    by (rule bfs_inv_step [OF 2(3)]) (use vs in auto)
  from 2(1) [OF e refl 2(2) this] e show ?case by simp
qed

text \<open>A finished search has found exactly the nodes that its start reaches.\<close>

lemma bfs_inv_done:
  assumes "bfs_inv ns r old s [] visited block" and "old \<subseteq> ns"
    and "\<And>a b. a \<in> ns \<Longrightarrow> b \<in> ns \<Longrightarrow> r a b \<Longrightarrow> r b a"
    and "\<And>a b. a \<in> old \<Longrightarrow> b \<in> ns \<Longrightarrow> r a b \<Longrightarrow> b \<in> old"
  shows "set block = {v. (s, v) \<in> (links ns r)\<^sup>*}"
    and "\<And>a b. a \<in> set block \<Longrightarrow> b \<in> ns \<Longrightarrow> r a b \<Longrightarrow> b \<in> set block"
proof -
  show closed: "b \<in> set block" if "a \<in> set block" "b \<in> ns" "r a b" for a b
  proof (rule ccontr)
    assume "b \<notin> set block"
    with assms(1) that have "b \<in> old" by (auto simp: bfs_inv_def)
    moreover have "a \<in> ns" using assms(1) that(1) by (auto simp: bfs_inv_def)
    ultimately have "a \<in> old" using assms(3,4) that by blast
    with assms(1) that(1) show False by (auto simp: bfs_inv_def)
  qed
  show "set block = {v. (s, v) \<in> (links ns r)\<^sup>*}"
  proof (intro set_eqI iffI)
    have b: "s \<in> set block" "set block \<subseteq> ns" using assms(1) by (auto simp: bfs_inv_def)
    fix v assume "v \<in> {v. (s, v) \<in> (links ns r)\<^sup>*}"
    then have "(s, v) \<in> (links ns r)\<^sup>*" by simp
    then show "v \<in> set block" using b closed by (rule links_closed)
  qed (use assms(1) in \<open>auto simp: bfs_inv_def\<close>)
qed

lemma reach_from_member:
  assumes "\<And>a b. a \<in> ns \<Longrightarrow> b \<in> ns \<Longrightarrow> r a b \<Longrightarrow> r b a" and "(s, u) \<in> (links ns r)\<^sup>*"
  shows "{v. (s, v) \<in> (links ns r)\<^sup>*} = {v. (u, v) \<in> (links ns r)\<^sup>*}"
proof -
  have "sym (links ns r)" using assms(1) by (auto simp: sym_def links_def)
  then have "(u, s) \<in> (links ns r)\<^sup>*" using assms(2) by (meson sym_rtrancl symD)
  with assms(2) show ?thesis by (auto intro: rtrancl_trans)
qed

definition blocks_from ::
    "'a set \<Rightarrow> ('a \<Rightarrow> 'a \<Rightarrow> bool) \<Rightarrow> 'a set \<Rightarrow> 'a set \<Rightarrow> 'a list list \<Rightarrow> bool" where
  "blocks_from ns r old ss bs \<longleftrightarrow> distinct (concat bs) \<and> [] \<notin> set bs
    \<and> set (concat bs) \<inter> old = {} \<and> ss \<subseteq> set (concat bs) \<union> old \<and> set (concat bs) \<subseteq> ns
    \<and> (\<forall>b \<in> set bs. \<forall>u \<in> set b. set b = {v. (u, v) \<in> (links ns r)\<^sup>*})"

lemma blocks_from_mono: "blocks_from ns r old ss bs \<Longrightarrow> ss' \<subseteq> ss \<union> old \<Longrightarrow> blocks_from ns r old ss' bs"
  unfolding blocks_from_def by blast

lemma bfs_components_result:
  assumes "searchable vs ns start r link" and "set ss \<subseteq> set vs" and "set visited \<subseteq> ns"
    and "\<And>a b. a \<in> set visited \<Longrightarrow> b \<in> ns \<Longrightarrow> r a b \<Longrightarrow> b \<in> set visited"
  shows "\<exists>bs. bfs_components link start vs ss visited = Some bs
    \<and> blocks_from ns r (set visited) {s \<in> set ss. start s} bs"
  using assms(2-)
proof (induction ss arbitrary: visited)
  case Nil
  then show ?case by (simp add: blocks_from_def)
next
  case (Cons s ss)
  have sym: "r a b \<Longrightarrow> r b a" if "a \<in> ns" "b \<in> ns" for a b
    using assms(1) that by (auto simp: searchable_def)
  show ?case
  proof (cases "s \<notin> set visited \<and> start s")
    case False
    have "\<exists>bs. bfs_components link start vs ss visited = Some bs
        \<and> blocks_from ns r (set visited) {s \<in> set ss. start s} bs"
      by (rule Cons.IH) (use Cons.prems in auto)
    then obtain bs where bs: "bfs_components link start vs ss visited = Some bs"
      "blocks_from ns r (set visited) {s \<in> set ss. start s} bs" by blast
    have "blocks_from ns r (set visited) {x \<in> set (s # ss). start x} bs"
      by (rule blocks_from_mono [OF bs(2)]) (use False in auto)
    with bs(1) False show ?thesis by auto
  next
    case True
    with assms(1) Cons.prems(1) have "s \<in> ns" by (simp add: searchable_def)
    with True have "bfs_inv ns r (set visited) s [s] (s # visited) []" by (simp add: bfs_inv_def)
    from bfs_result [OF assms(1) this] obtain block visited' where
      b: "bfs link vs [s] (s # visited) [] = Some (block, visited')" and
      inv: "bfs_inv ns r (set visited) s [] visited' block" by blast
    note fin = bfs_inv_done [OF inv Cons.prems(2) sym Cons.prems(3)]
    have v: "set visited' = set visited \<union> set block" "set visited \<inter> set block = {}" "set block \<subseteq> ns"
      "distinct block" "s \<in> set block"
      using inv by (auto simp: bfs_inv_def)
    have "\<exists>bs. bfs_components link start vs ss visited' = Some bs
        \<and> blocks_from ns r (set visited') {s \<in> set ss. start s} bs"
      by (rule Cons.IH) (use Cons.prems v fin(2) in auto)
    then obtain bs where bs: "bfs_components link start vs ss visited' = Some bs"
      "blocks_from ns r (set visited') {s \<in> set ss. start s} bs" by blast
    have "set block = {v. (u, v) \<in> (links ns r)\<^sup>*}" if "u \<in> set block" for u
    proof -
      have "(s, u) \<in> (links ns r)\<^sup>*" using that fin(1) by simp
      with reach_from_member [OF sym this] fin(1) show ?thesis by simp
    qed
    with bs(2) v have "blocks_from ns r (set visited) {x \<in> set (s # ss). start x} (block # bs)"
      by (auto simp: blocks_from_def)
    with True b bs(1) show ?thesis by simp
  qed
qed

lemma bfs_components_split:
  assumes "searchable vs ns start r link"
  obtains bs where "bfs_components link start vs vs [] = Some bs"
    and "set (concat bs) = ns" and "distinct (concat bs)" and "[] \<notin> set bs"
    and "\<And>b u v. b \<in> set bs \<Longrightarrow> u \<in> set b \<Longrightarrow> v \<in> set b \<longleftrightarrow> (u, v) \<in> (links ns r)\<^sup>*"
proof -
  from bfs_components_result [OF assms, of vs "[]"] obtain bs where
    bs: "bfs_components link start vs vs [] = Some bs" "blocks_from ns r {} {s \<in> set vs. start s} bs"
    by auto
  note d = bs(2) [unfolded blocks_from_def]
  have "{s \<in> set vs. start s} = ns" using assms by (simp add: searchable_def)
  with d have "set (concat bs) = ns" by blast
  moreover have "v \<in> set b \<longleftrightarrow> (u, v) \<in> (links ns r)\<^sup>*" if "b \<in> set bs" "u \<in> set b" for b u v
  proof -
    have "set b = {v. (u, v) \<in> (links ns r)\<^sup>*}" using d that by blast
    then have "(v \<in> set b) = (v \<in> {v. (u, v) \<in> (links ns r)\<^sup>*})" by (rule arg_cong)
    then show ?thesis by simp
  qed
  ultimately show thesis using d by (intro that [OF bs(1)]) simp_all
qed

end
