(* ===== verification/Split_Brain.thy ===== *)
theory Split_Brain
  imports Common_Types Graph_Search
begin

text \<open>
  \<open>DefaultSplitBrainDetector\<close> and \<open>split_brain_utils\<close>
  (\<open>src/cluster/split_brain_detector.cpp\<close>): the nodes with their heartbeats, the search for
  network partitions, the four quorum strategies, and the passes of the two background
  threads.

  \<open>nodes_\<close> is an association list in the order of iteration. A pass of the detection thread
  takes one reading of the clock; it reads the nodes without the mutex, and the model runs it
  without interruption, except that it takes the mutex for every node it isolates, as in the
  code. A pass of the recovery thread sleeps in the middle and is two operations. The
  event handler is code of the client; the model records the calls to it.
\<close>

section \<open>Data\<close>

datatype split_brain_status = HEALTHY | SUSPECTED | CONFIRMED | RECOVERING | ISOLATED

datatype quorum_strategy = MAJORITY | STATIC_QUORUM | DYNAMIC_QUORUM | WITNESS_BASED

text \<open>\<open>duration\<close> is not initialised by the constructor; it is \<open>None\<close> until it is set.\<close>

record network_partition =
  partition_a :: "node_id list"
  partition_b :: "node_id list"
  detected_at :: time_point
  p_duration :: "millis option"
  resolved :: bool

definition NetworkPartition :: "time_point \<Rightarrow> network_partition" where
  "NetworkPartition now = \<lparr>partition_a = [], partition_b = [], detected_at = now,
     p_duration = None, resolved = False\<rparr>"

record quorum_decision =
  qd_has_quorum :: bool
  qd_active_nodes :: "node_id list"
  qd_isolated_nodes :: "node_id list"
  qd_strategy_used :: quorum_strategy
  qd_reason :: string

definition QuorumDecision :: quorum_decision where
  "QuorumDecision = \<lparr>qd_has_quorum = False, qd_active_nodes = [], qd_isolated_nodes = [],
     qd_strategy_used = MAJORITY, qd_reason = []\<rparr>"

record split_brain_config =
  heartbeat_timeout :: millis
  split_detection_timeout :: millis
  max_missed_heartbeats :: u32
  quorum_strategy :: quorum_strategy
  min_quorum_size :: nat
  witness_nodes :: "node_id list"
  auto_recovery_enabled :: bool
  recovery_timeout :: millis
  max_recovery_attempts :: u32

definition SplitBrainConfig :: split_brain_config where
  "SplitBrainConfig = \<lparr>heartbeat_timeout = 1000, split_detection_timeout = 5000,
     max_missed_heartbeats = 3, quorum_strategy = MAJORITY, min_quorum_size = 2,
     witness_nodes = [], auto_recovery_enabled = True, recovery_timeout = 30000,
     max_recovery_attempts = 3\<rparr>"

record node_status =
  ns_node_id :: node_id
  ns_is_alive :: bool
  last_seen :: time_point
  last_heartbeat :: time_point
  missed_heartbeats :: u32
  ns_is_isolated :: bool
  isolation_reason :: string

definition NodeStatus :: "node_id \<Rightarrow> node_status" where
  "NodeStatus n = \<lparr>ns_node_id = n, ns_is_alive = False, last_seen = 0, last_heartbeat = 0,
     missed_heartbeats = 0, ns_is_isolated = False, isolation_reason = []\<rparr>"

datatype sb_event =
    SplitDetected network_partition | SplitResolved network_partition
  | NodeIsolated node_id string | QuorumLost | QuorumRestored

record detector =
  sb_config :: split_brain_config
  sb_handler :: bool
  sb_events :: "sb_event list"
  sb_nodes :: "(node_id \<times> node_status) list"
  detected_partitions :: "network_partition list"
  isolated_set :: "node_id list"
  sb_status :: split_brain_status
  sb_is_running :: bool
  sb_stop_threads :: bool
  sb_held :: bool

definition SplitBrainDetector_new :: detector where
  "SplitBrainDetector_new = \<lparr>sb_config = SplitBrainConfig, sb_handler = False, sb_events = [],
     sb_nodes = [], detected_partitions = [], isolated_set = [], sb_status = HEALTHY,
     sb_is_running = False, sb_stop_threads = False, sb_held = False\<rparr>"

definition sb_set_held :: "bool \<Rightarrow> detector \<Rightarrow> detector" where
  "sb_set_held b d = d\<lparr>sb_held := b\<rparr>"

interpretation sb_mx: mutex_class sb_held sb_set_held
  by unfold_locales (auto simp: sb_set_held_def)

abbreviation sb_locked :: "(detector, 'a) op \<Rightarrow> (detector, 'a) op" where
  "sb_locked \<equiv> guarded sb_held sb_set_held"

abbreviation node_of :: "detector \<Rightarrow> node_id \<Rightarrow> node_status option" where
  "node_of d \<equiv> map_of (sb_nodes d)"

definition set_node :: "node_id \<Rightarrow> node_status \<Rightarrow> detector \<Rightarrow> detector" where
  "set_node n st d = d\<lparr>sb_nodes := AList.update n st (sb_nodes d)\<rparr>"

definition sb_notify :: "sb_event \<Rightarrow> detector \<Rightarrow> detector" where
  "sb_notify e d = (if sb_handler d then d\<lparr>sb_events := sb_events d @ [e]\<rparr> else d)"

section \<open>Life cycle and nodes\<close>

definition sb_start :: "split_brain_config \<Rightarrow> (detector, unit result) op" where
  "sb_start config = sb_locked (\<lambda>d.
     if sb_is_running d then Some (Ok (), d)
     else Some (Ok (), d\<lparr>sb_config := config, sb_status := HEALTHY, sb_stop_threads := False,
            sb_is_running := True\<rparr>))"

text \<open>
  \<open>stop\<close> joins the threads while it holds the mutex. If the detection thread is waiting for
  the mutex at that moment, to isolate a node (\<open>isolating\<close>), neither goes on.
\<close>

definition sb_stop :: "bool \<Rightarrow> (detector, unit result) op" where
  "sb_stop isolating = sb_locked (\<lambda>d.
     if \<not> sb_is_running d then Some (Ok (), d)
     else if isolating then None
     else Some (Ok (), d\<lparr>sb_stop_threads := True, sb_is_running := False\<rparr>))"

definition sb_delete :: "bool \<Rightarrow> (detector, unit) op" where
  "sb_delete isolating = destructor sb_is_running (sb_stop isolating)"

definition add_node :: "node_id \<Rightarrow> (detector, unit) op" where
  "add_node n = sb_locked (\<lambda>d. Some ((), set_node n (NodeStatus n) d))"

definition remove_node :: "node_id \<Rightarrow> (detector, unit) op" where
  "remove_node n = sb_locked (\<lambda>d. Some ((), d\<lparr>sb_nodes := AList.delete n (sb_nodes d),
     isolated_set := removeAll n (isolated_set d)\<rparr>))"

definition update_node_status :: "node_id \<Rightarrow> bool \<Rightarrow> time_point \<Rightarrow> (detector, unit) op" where
  "update_node_status n alive seen = sb_locked (\<lambda>d.
     case node_of d n of
       None \<Rightarrow> Some ((), d)
     | Some st \<Rightarrow>
         let st = st\<lparr>ns_is_alive := alive, last_seen := seen\<rparr>;
             st = (if alive then st\<lparr>missed_heartbeats := 0\<rparr> else st)
         in Some ((), set_node n st d))"

definition process_heartbeat :: "node_id \<Rightarrow> node_id \<Rightarrow> time_point \<Rightarrow> (detector, unit) op" where
  "process_heartbeat from_n to_n stamp = sb_locked (\<lambda>d.
     case node_of d from_n of
       None \<Rightarrow> Some ((), d)
     | Some st \<Rightarrow> Some ((), set_node from_n
         (st\<lparr>last_heartbeat := stamp, ns_is_alive := True, missed_heartbeats := 0\<rparr>) d))"

definition handle_partition_detected :: "network_partition \<Rightarrow> detector \<Rightarrow> detector" where
  "handle_partition_detected p = sb_notify (SplitDetected p)"

definition handle_partition_resolved :: "network_partition \<Rightarrow> detector \<Rightarrow> detector" where
  "handle_partition_resolved p = sb_notify (SplitResolved p)"

section \<open>Quorum strategies\<close>

definition counts_active :: "node_id \<times> node_status \<Rightarrow> bool" where
  "counts_active e = (ns_is_alive (snd e) \<and> \<not> ns_is_isolated (snd e))"

definition alive_nodes :: "detector \<Rightarrow> node_id list" where
  "alive_nodes d = map fst (filter counts_active (sb_nodes d))"

definition majority_quorum :: "detector \<Rightarrow> quorum_decision" where
  "majority_quorum d =
     (let alive = alive_nodes d;
          dead = map fst (filter (\<lambda>e. \<not> counts_active e) (sb_nodes d));
          total = length (sb_nodes d);
          required = total div 2 + 1;
          has = (length alive \<ge> required);
          share = to_string (length alive) @ ''/'' @ to_string total
      in QuorumDecision\<lparr>qd_strategy_used := MAJORITY, qd_has_quorum := has,
           qd_active_nodes := alive, qd_isolated_nodes := dead,
           qd_reason := (if has then ''Majority quorum achieved with '' @ share @ '' nodes''
             else ''Majority quorum lost: only '' @ share @ '' nodes alive'')\<rparr>)"

definition static_quorum :: "detector \<Rightarrow> quorum_decision" where
  "static_quorum d =
     (let alive = alive_nodes d; required = min_quorum_size (sb_config d)
      in QuorumDecision\<lparr>qd_strategy_used := STATIC_QUORUM, qd_has_quorum := length alive \<ge> required,
           qd_active_nodes := alive,
           qd_reason := ''Static quorum: '' @ to_string (length alive) @ '' >= '' @ to_string required\<rparr>)"

definition dynamic_quorum :: "detector \<Rightarrow> quorum_decision" where
  "dynamic_quorum d =
     (let alive = alive_nodes d;
          required = max (min_quorum_size (sb_config d)) ((length alive + 1) div 2)
      in QuorumDecision\<lparr>qd_strategy_used := DYNAMIC_QUORUM, qd_has_quorum := length alive \<ge> required,
           qd_active_nodes := alive,
           qd_reason := ''Dynamic quorum: '' @ to_string (length alive) @ '' >= '' @ to_string required\<rparr>)"

definition witness_based_quorum :: "detector \<Rightarrow> quorum_decision" where
  "witness_based_quorum d =
     (let alive = alive_nodes d;
          witnesses = filter (\<lambda>n. n \<in> set (witness_nodes (sb_config d))) alive
      in QuorumDecision\<lparr>qd_strategy_used := WITNESS_BASED,
           qd_has_quorum := witnesses \<noteq> [] \<and> length alive \<ge> min_quorum_size (sb_config d),
           qd_active_nodes := alive,
           qd_reason := ''Witness-based quorum: '' @ to_string (length witnesses) @ '' witnesses, ''
             @ to_string (length alive) @ '' total nodes''\<rparr>)"

definition calculate_quorum :: "detector \<Rightarrow> quorum_decision" where
  "calculate_quorum d =
     (case quorum_strategy (sb_config d) of
        MAJORITY \<Rightarrow> majority_quorum d
      | STATIC_QUORUM \<Rightarrow> static_quorum d
      | DYNAMIC_QUORUM \<Rightarrow> dynamic_quorum d
      | WITNESS_BASED \<Rightarrow> witness_based_quorum d)"

section \<open>Queries and configuration\<close>

definition check_quorum :: "(detector, quorum_decision) op" where
  "check_quorum = sb_locked (\<lambda>d. Some (calculate_quorum d, d))"

definition get_detected_partitions :: "(detector, network_partition list) op" where
  "get_detected_partitions = sb_locked (\<lambda>d. Some (detected_partitions d, d))"

definition has_quorum :: "(detector, bool) op" where
  "has_quorum d = do { (decision, d) \<leftarrow> check_quorum d; Some (qd_has_quorum decision, d) }"

definition is_node_isolated :: "node_id \<Rightarrow> (detector, bool) op" where
  "is_node_isolated n = sb_locked (\<lambda>d. Some (n \<in> set (isolated_set d), d))"

definition sb_set_event_handler :: "bool \<Rightarrow> (detector, unit) op" where
  "sb_set_event_handler present = sb_locked (\<lambda>d. Some ((), d\<lparr>sb_handler := present\<rparr>))"

definition update_config :: "split_brain_config \<Rightarrow> (detector, unit) op" where
  "update_config config = sb_locked (\<lambda>d. Some ((), d\<lparr>sb_config := config\<rparr>))"

definition get_config :: "(detector, split_brain_config) op" where
  "get_config = sb_locked (\<lambda>d. Some (sb_config d, d))"

section \<open>Isolation and recovery by hand\<close>

definition isolate_node :: "node_id \<Rightarrow> string \<Rightarrow> (detector, unit result) op" where
  "isolate_node n reason = sb_locked (\<lambda>d.
     case node_of d n of
       None \<Rightarrow> Some (Ok (), d)
     | Some st \<Rightarrow>
         let d = set_node n (st\<lparr>ns_is_isolated := True, isolation_reason := reason\<rparr>) d;
             d = d\<lparr>isolated_set := List.insert n (isolated_set d)\<rparr>
         in Some (Ok (), sb_notify (NodeIsolated n reason) d))"

definition restore_node :: "node_id \<Rightarrow> (detector, unit result) op" where
  "restore_node n = sb_locked (\<lambda>d.
     case node_of d n of
       None \<Rightarrow> Some (Ok (), d)
     | Some st \<Rightarrow>
         let d = set_node n (st\<lparr>ns_is_isolated := False, isolation_reason := []\<rparr>) d
         in Some (Ok (), d\<lparr>isolated_set := removeAll n (isolated_set d)\<rparr>))"

text \<open>The loop of \<open>force_merge_partitions\<close>: every open partition is resolved and reported.\<close>

fun resolve_all :: "network_partition list \<Rightarrow> detector \<Rightarrow> network_partition list \<times> detector" where
  "resolve_all [] d = ([], d)"
| "resolve_all (p # ps) d =
     (let (p, d) = (if resolved p then (p, d)
                    else let p = p\<lparr>resolved := True\<rparr> in (p, sb_notify (SplitResolved p) d));
          (ps, d) = resolve_all ps d
      in (p # ps, d))"

definition force_merge_partitions :: "(detector, unit result) op" where
  "force_merge_partitions = sb_locked (\<lambda>d.
     let (ps, d) = resolve_all (detected_partitions d) d;
         d = d\<lparr>detected_partitions := filter (\<lambda>p. \<not> resolved p) ps\<rparr>
     in Some (Ok (), d\<lparr>sb_status := HEALTHY\<rparr>))"

section \<open>Connectivity\<close>

definition are_nodes_connected :: "time_point \<Rightarrow> detector \<Rightarrow> node_id \<Rightarrow> node_id \<Rightarrow> bool" where
  "are_nodes_connected now d n1 n2 =
     (case (node_of d n1, node_of d n2) of
        (Some st1, Some st2) \<Rightarrow>
          let threshold = millis_ns (heartbeat_timeout (sb_config d) * 2)
          in now - last_heartbeat st1 < threshold \<and> now - last_heartbeat st2 < threshold
      | _ \<Rightarrow> False)"

definition node_alive :: "detector \<Rightarrow> node_id \<Rightarrow> bool" where
  "node_alive d n = (case node_of d n of None \<Rightarrow> False | Some st \<Rightarrow> ns_is_alive st)"

text \<open>The test \<open>!component.empty()\<close> of the code always holds: the search starts with one node.\<close>

definition find_connected_components :: "time_point \<Rightarrow> detector \<Rightarrow> node_id list list option" where
  "find_connected_components now d =
     bfs_components (\<lambda>c v. Some (node_alive d v \<and> are_nodes_connected now d c v)) (node_alive d)
       (map fst (sb_nodes d)) (map fst (sb_nodes d)) []"

section \<open>The detection thread\<close>

definition age_node :: "time_point \<Rightarrow> split_brain_config \<Rightarrow> node_status \<Rightarrow> node_status" where
  "age_node now config st =
     (if \<not> ns_is_isolated st \<and> now - last_heartbeat st > millis_ns (heartbeat_timeout config)
      then let st = st\<lparr>missed_heartbeats := missed_heartbeats st + 1\<rparr>
           in if missed_heartbeats st \<ge> max_missed_heartbeats config
              then st\<lparr>ns_is_alive := False\<rparr> else st
      else st)"

fun pairs_of :: "'a list \<Rightarrow> ('a \<times> 'a) list" where
  "pairs_of [] = []"
| "pairs_of (x # xs) = map (Pair x) xs @ pairs_of xs"

definition record_partition ::
    "time_point \<Rightarrow> node_id list \<times> node_id list \<Rightarrow> detector \<Rightarrow> detector" where
  "record_partition now ab d =
     (let p = (NetworkPartition now)\<lparr>partition_a := fst ab, partition_b := snd ab\<rparr>
      in sb_notify (SplitDetected p) (d\<lparr>detected_partitions := detected_partitions d @ [p]\<rparr>))"

definition detect_network_partitions :: "time_point \<Rightarrow> detector \<Rightarrow> detector option" where
  "detect_network_partitions now d =
     (let d = d\<lparr>sb_nodes := map (map_prod id (age_node now (sb_config d))) (sb_nodes d)\<rparr>
      in do { components \<leftarrow> find_connected_components now d;
              Some (fold (record_partition now) (pairs_of components) d) })"

definition detect_split_brain :: "detector \<Rightarrow> bool" where
  "detect_split_brain d = (detected_partitions d \<noteq> [])"

fun isolate_each :: "node_id list \<Rightarrow> (detector, unit) op" where
  "isolate_each [] d = Some ((), d)"
| "isolate_each (n # ns) d =
     do { (_, d) \<leftarrow> isolate_node n ''Split brain - minority partition'' d; isolate_each ns d }"

definition detection_pass :: "time_point \<Rightarrow> (detector, unit) op" where
  "detection_pass now d =
     do { d \<leftarrow> detect_network_partitions now d;
          if detect_split_brain d
          then let decision = calculate_quorum d
               in if \<not> qd_has_quorum decision
                  then Some ((), sb_notify QuorumLost (d\<lparr>sb_status := CONFIRMED\<rparr>))
                  else isolate_each (qd_isolated_nodes decision) d
          else Some ((), d) }"

section \<open>The recovery thread\<close>

text \<open>
  \<open>update_partition_status\<close>. The code also computes whether each side is connected in itself
  and does not use it.
\<close>

fun update_partitions ::
    "time_point \<Rightarrow> network_partition list \<Rightarrow> detector \<Rightarrow> network_partition list \<times> detector" where
  "update_partitions now [] d = ([], d)"
| "update_partitions now (p # ps) d =
     (let (p, d) =
        (if \<not> resolved p
            \<and> (\<exists>a \<in> set (partition_a p). \<exists>b \<in> set (partition_b p). are_nodes_connected now d a b)
         then let p = p\<lparr>resolved := True, p_duration := Some (cxx_div (now - detected_at p) 1000000)\<rparr>
              in (p, sb_notify (SplitResolved p) d)
         else (p, d));
          (ps, d) = update_partitions now ps d
      in (p # ps, d))"

definition update_partition_status :: "time_point \<Rightarrow> detector \<Rightarrow> detector" where
  "update_partition_status now d =
     (let (ps, d') = update_partitions now (detected_partitions d) d
      in d'\<lparr>detected_partitions := ps\<rparr>)"

text \<open>The pass before the sleep says whether there is anything to recover.\<close>

definition recovery_begin :: "(detector, bool) op" where
  "recovery_begin d =
     (if auto_recovery_enabled (sb_config d) \<and> sb_status d = CONFIRMED
      then Some (True, d\<lparr>sb_status := RECOVERING\<rparr>) else Some (False, d))"

definition recovery_finish :: "time_point \<Rightarrow> (detector, unit) op" where
  "recovery_finish now d =
     (let d = update_partition_status now d
      in if list_all resolved (detected_partitions d)
         then Some ((), sb_notify QuorumRestored (d\<lparr>sb_status := HEALTHY\<rparr>))
         else Some ((), d))"

section \<open>\<open>split_brain_utils\<close>\<close>

type_synonym bool_matrix = "bool list list"

definition put_cell :: "nat \<Rightarrow> nat \<Rightarrow> bool \<Rightarrow> bool_matrix \<Rightarrow> bool_matrix" where
  "put_cell i j b m = m[i := (m ! i)[j := b]]"

definition put_link ::
    "node_id list \<Rightarrow> (node_id \<Rightarrow> node_id \<Rightarrow> bool) \<Rightarrow> nat \<Rightarrow> nat \<Rightarrow> bool_matrix \<Rightarrow> bool_matrix" where
  "put_link nodes connected i j m =
     (let b = connected (nodes ! i) (nodes ! j) in put_cell j i b (put_cell i j b m))"

definition matrix_row :: "node_id list \<Rightarrow> (node_id \<Rightarrow> node_id \<Rightarrow> bool) \<Rightarrow> nat \<Rightarrow> bool_matrix \<Rightarrow> bool_matrix" where
  "matrix_row nodes connected i m =
     fold (put_link nodes connected i) [Suc i..<length nodes] (put_cell i i True m)"

definition calculate_connectivity_matrix ::
    "node_id list \<Rightarrow> (node_id \<Rightarrow> node_id \<Rightarrow> bool) \<Rightarrow> bool_matrix" where
  "calculate_connectivity_matrix nodes connected =
     (let n = length nodes
      in fold (matrix_row nodes connected) [0..<n] (replicate n (replicate n False)))"

text \<open>\<open>connectivity_matrix[i][j]\<close> is undefined outside the matrix.\<close>

definition cell :: "bool_matrix \<Rightarrow> nat \<Rightarrow> nat \<Rightarrow> bool option" where
  "cell m i j = (if i < length m \<and> j < length (m ! i) then Some (m ! i ! j) else None)"

definition partition_indices :: "nat \<times> bool_matrix \<Rightarrow> nat list list option" where
  "partition_indices nm =
     bfs_components (cell (snd nm)) (\<lambda>_. True) [0..<fst nm] [0..<fst nm] []"

definition find_network_partitions :: "node_id list \<Rightarrow> bool_matrix \<Rightarrow> node_id list list option" where
  "find_network_partitions nodes m =
     do { blocks \<leftarrow> partition_indices (length nodes, m); Some (map (map ((!) nodes)) blocks) }"

definition calculate_required_quorum_size :: "nat \<Rightarrow> quorum_strategy \<Rightarrow> nat" where
  "calculate_required_quorum_size total_nodes strategy =
     (case strategy of
        MAJORITY \<Rightarrow> total_nodes div 2 + 1
      | STATIC_QUORUM \<Rightarrow> max 1 (total_nodes div 3)
      | DYNAMIC_QUORUM \<Rightarrow> max 1 ((total_nodes + 1) div 2)
      | WITNESS_BASED \<Rightarrow> max 1 (total_nodes div 2))"

text \<open>One of the two loops that collect the nodes of a decision; \<open>None\<close> is \<open>return false\<close>.\<close>

fun collect_fresh :: "node_id list \<Rightarrow> node_id list \<Rightarrow> node_id list option" where
  "collect_fresh [] seen = Some seen"
| "collect_fresh (n # ns) seen = (if n \<in> set seen then None else collect_fresh ns (n # seen))"

definition validate_quorum_decision :: "quorum_decision \<Rightarrow> node_id list \<Rightarrow> bool" where
  "validate_quorum_decision decision all_nodes =
     (if length (qd_active_nodes decision) + length (qd_isolated_nodes decision) \<noteq> length all_nodes
      then False
      else case collect_fresh (qd_active_nodes decision) [] of
             None \<Rightarrow> False
           | Some seen \<Rightarrow> collect_fresh (qd_isolated_nodes decision) seen \<noteq> None)"

section \<open>Bookkeeping of the nodes\<close>

abbreviation node_ids :: "detector \<Rightarrow> node_id list" where
  "node_ids d \<equiv> map fst (sb_nodes d)"

definition flagged_isolated :: "detector \<Rightarrow> node_id \<Rightarrow> bool" where
  "flagged_isolated d n = (case node_of d n of None \<Rightarrow> False | Some st \<Rightarrow> ns_is_isolated st)"

definition sb_wf :: "detector \<Rightarrow> bool" where
  "sb_wf d \<longleftrightarrow> distinct (node_ids d) \<and> set (isolated_set d) \<subseteq> set (node_ids d)
    \<and> (\<forall>n. flagged_isolated d n \<longrightarrow> n \<in> set (isolated_set d))"

lemma node_of_set_node [simp]: "node_of (set_node n st d) = (node_of d)(n \<mapsto> st)"
  by (simp add: set_node_def update_conv')

lemma set_node_fields [simp]:
  "isolated_set (set_node n st d) = isolated_set d" "sb_config (set_node n st d) = sb_config d"
  "detected_partitions (set_node n st d) = detected_partitions d"
  "sb_status (set_node n st d) = sb_status d" "sb_held (set_node n st d) = sb_held d"
  "sb_handler (set_node n st d) = sb_handler d" "sb_events (set_node n st d) = sb_events d"
  by (simp_all add: set_node_def)

lemma set_node_ids [simp]:
  "node_ids (set_node n st d) = (if n \<in> set (node_ids d) then node_ids d else node_ids d @ [n])"
  by (simp add: set_node_def update_keys)

lemma sb_notify_fields [simp]:
  "sb_nodes (sb_notify e d) = sb_nodes d" "isolated_set (sb_notify e d) = isolated_set d"
  "sb_config (sb_notify e d) = sb_config d" "sb_status (sb_notify e d) = sb_status d"
  "detected_partitions (sb_notify e d) = detected_partitions d" "sb_held (sb_notify e d) = sb_held d"
  "sb_handler (sb_notify e d) = sb_handler d"
  by (simp_all add: sb_notify_def)

lemma sb_set_held_fields [simp]:
  "sb_nodes (sb_set_held b d) = sb_nodes d" "isolated_set (sb_set_held b d) = isolated_set d"
  "sb_config (sb_set_held b d) = sb_config d" "sb_status (sb_set_held b d) = sb_status d"
  "detected_partitions (sb_set_held b d) = detected_partitions d" "sb_held (sb_set_held b d) = b"
  "sb_handler (sb_set_held b d) = sb_handler d" "sb_events (sb_set_held b d) = sb_events d"
  by (simp_all add: sb_set_held_def)

lemma node_of_ids: "node_of d n = Some st \<Longrightarrow> n \<in> set (node_ids d)"
  by (metis map_of_SomeD image_eqI fst_conv set_map)

lemma sb_wf_same:
  "sb_nodes d' = sb_nodes d \<Longrightarrow> isolated_set d' = isolated_set d \<Longrightarrow> sb_wf d' = sb_wf d"
  by (simp add: sb_wf_def flagged_isolated_def)

lemmas sb_wf_notify = sb_wf_same [OF sb_notify_fields(1,2)]
lemmas sb_wf_held = sb_wf_same [OF sb_set_held_fields(1,2)]

lemma sb_wf_set_node:
  assumes "sb_wf d" and "ns_is_isolated st \<Longrightarrow> n \<in> set (isolated_set d)"
  shows "sb_wf (set_node n st d)"
  using assms by (auto simp: sb_wf_def flagged_isolated_def split: if_splits)

lemma sb_wf_isolate:
  assumes "sb_wf d" and "n \<in> set (node_ids d)"
  shows "sb_wf ((set_node n st d)\<lparr>isolated_set := List.insert n (isolated_set d)\<rparr>)"
  using assms by (auto simp: sb_wf_def flagged_isolated_def split: if_splits)

lemma sb_wf_restore:
  assumes "sb_wf d" and "\<not> ns_is_isolated st" and "n \<in> set (node_ids d)"
  shows "sb_wf (set_node n st d\<lparr>isolated_set := removeAll n (isolated_set d)\<rparr>)"
  using assms by (auto simp: sb_wf_def flagged_isolated_def split: if_splits)

lemma keys_delete: "fst ` set (AList.delete k al) = fst ` set al - {k}"
  by (metis delete_keys set_map set_removeAll)

lemma sb_wf_remove:
  assumes "sb_wf d"
  shows "sb_wf (d\<lparr>sb_nodes := AList.delete n (sb_nodes d), isolated_set := removeAll n (isolated_set d)\<rparr>)"
  using assms
  by (auto simp: sb_wf_def flagged_isolated_def distinct_delete delete_conv' keys_delete
      split: if_splits)

lemma age_node_keeps [simp]: "ns_is_isolated (age_node now config st) = ns_is_isolated st"
  by (simp add: age_node_def Let_def)

lemma node_of_aged:
  "map_of (map (map_prod id f) xs) n = map_option f (map_of xs n)"
  by (induction xs) auto

lemma sb_wf_aged:
  "sb_wf (d\<lparr>sb_nodes := map (map_prod id (age_node now config)) (sb_nodes d)\<rparr>) = sb_wf d"
  by (simp add: sb_wf_def flagged_isolated_def node_of_aged comp_def option.case_eq_if option.map_sel)

lemma sb_locked_wf:
  assumes "sb_locked body d = Some (r, d')" and "sb_wf d"
    and "\<And>d r d'. body d = Some (r, d') \<Longrightarrow> sb_wf d \<Longrightarrow> sb_wf d'"
  shows "sb_wf d'"
  using assms(1,2) by (rule sb_mx.invariant) (simp_all add: sb_wf_held assms(3))

lemma isolate_node_wf:
  assumes "isolate_node n reason d = Some (r, d')" and "sb_wf d"
  shows "sb_wf d'"
  using assms unfolding isolate_node_def
proof (rule sb_locked_wf, goal_cases)
  case (1 d r d')
  show ?case
  proof (cases "node_of d n")
    case None
    with 1 show ?thesis by simp
  next
    case (Some st)
    with 1(1) have "d' = sb_notify (NodeIsolated n reason)
        ((set_node n (st\<lparr>ns_is_isolated := True, isolation_reason := reason\<rparr>) d)
          \<lparr>isolated_set := List.insert n (isolated_set d)\<rparr>)"
      by simp
    with sb_wf_isolate [OF 1(2) node_of_ids [OF Some]] show ?thesis by (simp add: sb_wf_notify)
  qed
qed

lemma restore_node_wf:
  assumes "restore_node n d = Some (r, d')" and "sb_wf d"
  shows "sb_wf d'"
  using assms unfolding restore_node_def
  by (rule sb_locked_wf) (auto split: option.splits intro!: sb_wf_restore dest: node_of_ids)

lemma add_node_wf: "add_node n d = Some (r, d') \<Longrightarrow> sb_wf d \<Longrightarrow> sb_wf d'"
  unfolding add_node_def by (erule sb_locked_wf) (auto simp: NodeStatus_def intro!: sb_wf_set_node)

lemma remove_node_wf: "remove_node n d = Some (r, d') \<Longrightarrow> sb_wf d \<Longrightarrow> sb_wf d'"
  unfolding remove_node_def by (erule sb_locked_wf) (auto intro!: sb_wf_remove)

lemma node_flag: "sb_wf d \<Longrightarrow> node_of d n = Some st \<Longrightarrow> ns_is_isolated st \<Longrightarrow> n \<in> set (isolated_set d)"
  unfolding sb_wf_def flagged_isolated_def by (metis option.simps(5))

lemma update_node_status_wf: "update_node_status n alive seen d = Some (r, d') \<Longrightarrow> sb_wf d \<Longrightarrow> sb_wf d'"
  unfolding update_node_status_def
  by (erule sb_locked_wf) (auto simp: Let_def split: option.splits if_splits intro!: sb_wf_set_node dest: node_flag)

lemma process_heartbeat_wf: "process_heartbeat n n' t d = Some (r, d') \<Longrightarrow> sb_wf d \<Longrightarrow> sb_wf d'"
  unfolding process_heartbeat_def
  by (erule sb_locked_wf) (auto split: option.splits intro!: sb_wf_set_node dest: node_flag)

lemma resolve_all_fields:
  "sb_nodes (snd (resolve_all ps d)) = sb_nodes d \<and> isolated_set (snd (resolve_all ps d)) = isolated_set d"
  by (induction ps arbitrary: d) (simp_all add: Let_def split_beta)

lemma update_partitions_fields:
  "sb_nodes (snd (update_partitions now ps d)) = sb_nodes d
   \<and> isolated_set (snd (update_partitions now ps d)) = isolated_set d"
  by (induction ps arbitrary: d) (simp_all add: Let_def split_beta)

lemma force_merge_wf:
  assumes "force_merge_partitions d = Some (r, d')" and "sb_wf d"
  shows "sb_wf d'"
  using assms unfolding force_merge_partitions_def
proof (rule sb_locked_wf, goal_cases)
  case (1 d r d')
  then have "sb_nodes d' = sb_nodes d \<and> isolated_set d' = isolated_set d"
    using resolve_all_fields [of "detected_partitions d" d] by (auto simp: Let_def split: prod.splits)
  with 1(2) show ?case using sb_wf_same by blast
qed

section \<open>The passes\<close>

lemma record_partition_fields [simp]:
  "sb_nodes (record_partition now ab d) = sb_nodes d"
  "isolated_set (record_partition now ab d) = isolated_set d"
  "sb_config (record_partition now ab d) = sb_config d"
  "sb_status (record_partition now ab d) = sb_status d"
  "sb_held (record_partition now ab d) = sb_held d"
  "sb_handler (record_partition now ab d) = sb_handler d"
  by (simp_all add: record_partition_def Let_def)

lemma fold_record_fields [simp]:
  "sb_nodes (fold (record_partition now) sides d) = sb_nodes d"
  "isolated_set (fold (record_partition now) sides d) = isolated_set d"
  "sb_config (fold (record_partition now) sides d) = sb_config d"
  "sb_status (fold (record_partition now) sides d) = sb_status d"
  "sb_held (fold (record_partition now) sides d) = sb_held d"
  "sb_handler (fold (record_partition now) sides d) = sb_handler d"
  by (induction sides arbitrary: d) simp_all

lemma fold_record_partitions:
  "detected_partitions (fold (record_partition now) sides d) = detected_partitions d
    @ map (\<lambda>ab. (NetworkPartition now)\<lparr>partition_a := fst ab, partition_b := snd ab\<rparr>) sides"
  by (induction sides arbitrary: d) (simp_all add: record_partition_def Let_def)

lemma detect_fields:
  assumes "detect_network_partitions now d = Some d'"
  shows "sb_nodes d' = map (map_prod id (age_node now (sb_config d))) (sb_nodes d)"
    and "isolated_set d' = isolated_set d" and "sb_config d' = sb_config d"
    and "sb_status d' = sb_status d" and "sb_held d' = sb_held d"
    and "\<exists>ps. detected_partitions d' = detected_partitions d @ ps"
  using assms
  by (auto simp: detect_network_partitions_def Let_def bind_eq_Some_conv fold_record_partitions)

lemma detect_wf:
  assumes "detect_network_partitions now d = Some d'" and "sb_wf d"
  shows "sb_wf d'"
proof -
  have "sb_wf d' = sb_wf (d\<lparr>sb_nodes := map (map_prod id (age_node now (sb_config d))) (sb_nodes d)\<rparr>)"
    using detect_fields [OF assms(1)] by (intro sb_wf_same) simp_all
  with assms(2) show ?thesis by (simp add: sb_wf_aged)
qed

lemma isolate_each_wf: "isolate_each ns d = Some (r, d') \<Longrightarrow> sb_wf d \<Longrightarrow> sb_wf d'"
proof (induction ns d rule: isolate_each.induct)
  case (2 n ns d)
  then obtain r' d1 where "isolate_node n ''Split brain - minority partition'' d = Some (r', d1)"
    "isolate_each ns d1 = Some (r, d')"
    by (auto simp: bind_eq_Some_conv)
  with 2 isolate_node_wf show ?case by blast
qed simp

lemma detection_pass_wf: "detection_pass now d = Some (r, d') \<Longrightarrow> sb_wf d \<Longrightarrow> sb_wf d'"
proof -
  assume p: "detection_pass now d = Some (r, d')" and wf: "sb_wf d"
  from p obtain d1 where d1: "detect_network_partitions now d = Some d1"
    by (auto simp: detection_pass_def bind_eq_Some_conv)
  then have wf1: "sb_wf d1" using wf by (rule detect_wf)
  show "sb_wf d'"
  proof (cases "detect_split_brain d1 \<and> qd_has_quorum (calculate_quorum d1)")
    case True
    with p d1 wf1 show ?thesis by (auto simp: detection_pass_def Let_def intro: isolate_each_wf)
  next
    case False
    with p d1 have "sb_nodes d' = sb_nodes d1" "isolated_set d' = isolated_set d1"
      by (auto simp: detection_pass_def Let_def split: if_splits)
    with wf1 show ?thesis using sb_wf_same by blast
  qed
qed

lemma recovery_finish_wf: "recovery_finish now d = Some (r, d') \<Longrightarrow> sb_wf d \<Longrightarrow> sb_wf d'"
proof -
  assume p: "recovery_finish now d = Some (r, d')" and wf: "sb_wf d"
  from p have "sb_nodes d' = sb_nodes d \<and> isolated_set d' = isolated_set d"
    using update_partitions_fields [of now "detected_partitions d" d]
    by (auto simp: recovery_finish_def update_partition_status_def Let_def split: prod.splits if_splits)
  with wf show "sb_wf d'" using sb_wf_same by blast
qed

section \<open>Runs of a detector\<close>

text \<open>
  Every call is a step. A turn of the detection thread is one step, and its parts are steps too:
  the search, the report of a lost quorum, and (as calls of \<open>isolate_node\<close>) the isolations, so that
  other calls come between them. Only \<open>force_merge_partitions\<close> is kept apart.
\<close>

inductive unmerged_step :: "detector \<Rightarrow> detector \<Rightarrow> bool" where
  step_start: "sb_start config d = Some (r, d') \<Longrightarrow> unmerged_step d d'"
| step_stop: "sb_stop isolating d = Some (r, d') \<Longrightarrow> unmerged_step d d'"
| step_add: "add_node n d = Some (u, d') \<Longrightarrow> unmerged_step d d'"
| step_remove: "remove_node n d = Some (u, d') \<Longrightarrow> unmerged_step d d'"
| step_status: "update_node_status n alive seen d = Some (u, d') \<Longrightarrow> unmerged_step d d'"
| step_heartbeat: "process_heartbeat n n' stamp d = Some (u, d') \<Longrightarrow> unmerged_step d d'"
| step_isolate: "isolate_node n reason d = Some (r, d') \<Longrightarrow> unmerged_step d d'"
| step_restore: "restore_node n d = Some (r, d') \<Longrightarrow> unmerged_step d d'"
| step_handler: "sb_set_event_handler present d = Some (u, d') \<Longrightarrow> unmerged_step d d'"
| step_config: "update_config config d = Some (u, d') \<Longrightarrow> unmerged_step d d'"
| step_detection: "detection_pass now d = Some (u, d') \<Longrightarrow> unmerged_step d d'"
| step_search: "detect_network_partitions now d = Some d' \<Longrightarrow> unmerged_step d d'"
| step_lost: "unmerged_step d (sb_notify QuorumLost (d\<lparr>sb_status := CONFIRMED\<rparr>))"
| step_recovery_begin: "recovery_begin d = Some (b, d') \<Longrightarrow> unmerged_step d d'"
| step_recovery_finish: "recovery_finish now d = Some (u, d') \<Longrightarrow> unmerged_step d d'"

inductive sb_step :: "detector \<Rightarrow> detector \<Rightarrow> bool" where
  step_other: "unmerged_step d d' \<Longrightarrow> sb_step d d'"
| step_merge: "force_merge_partitions d = Some (r, d') \<Longrightarrow> sb_step d d'"

definition sb_reachable :: "detector \<Rightarrow> bool" where
  "sb_reachable d \<longleftrightarrow> sb_step\<^sup>*\<^sup>* SplitBrainDetector_new d"

text \<open>An operation whose body leaves the nodes alone.\<close>

lemma sb_locked_same_nodes:
  assumes "sb_locked body d = Some (r, d')"
    and "\<And>d r d'. body d = Some (r, d') \<Longrightarrow> sb_nodes d' = sb_nodes d \<and> isolated_set d' = isolated_set d"
    and "sb_wf d"
  shows "sb_wf d'"
  using assms(1,3) by (rule sb_locked_wf) (metis assms(2) sb_wf_same)

lemma unmerged_step_wf:
  assumes "unmerged_step d d'" and "sb_wf d"
  shows "sb_wf d'"
  using assms
proof (induction rule: unmerged_step.induct)
  case (step_start config d r d')
  from this(1)[unfolded sb_start_def] _ this(2) show ?case
    by (rule sb_locked_same_nodes) (auto split: if_splits)
next
  case (step_stop isolating d r d')
  from this(1)[unfolded sb_stop_def] _ this(2) show ?case
    by (rule sb_locked_same_nodes) (auto split: if_splits)
next
  case (step_handler present d u d')
  from this(1)[unfolded sb_set_event_handler_def] _ this(2) show ?case
    by (rule sb_locked_same_nodes) auto
next
  case (step_config config d u d')
  from this(1)[unfolded update_config_def] _ this(2) show ?case
    by (rule sb_locked_same_nodes) auto
next
  case (step_recovery_begin d b d')
  then show ?case by (auto simp: recovery_begin_def sb_wf_def flagged_isolated_def split: if_splits)
next
  case (step_lost d)
  then show ?case by (simp add: sb_wf_notify sb_wf_same [of "d\<lparr>sb_status := CONFIRMED\<rparr>" d])
qed (blast intro: add_node_wf remove_node_wf update_node_status_wf process_heartbeat_wf isolate_node_wf
  restore_node_wf detect_wf detection_pass_wf recovery_finish_wf)+

lemma sb_step_wf: "sb_step d d' \<Longrightarrow> sb_wf d \<Longrightarrow> sb_wf d'"
  by (auto elim!: sb_step.cases dest: unmerged_step_wf force_merge_wf)

lemma sb_reachable_wf: "sb_reachable d \<Longrightarrow> sb_wf d"
  unfolding sb_reachable_def
proof (induction rule: rtranclp_induct)
  case base
  then show ?case by (simp add: sb_wf_def SplitBrainDetector_new_def flagged_isolated_def)
qed (blast intro: sb_step_wf)

text \<open>
  Every step but \<open>force_merge_partitions\<close> keeps every partition at its place in the list, with its
  sides and the time of its detection; it can only mark an open one as resolved.
\<close>

definition keeps_split :: "network_partition \<Rightarrow> network_partition \<Rightarrow> bool" where
  "keeps_split p q \<longleftrightarrow> partition_a q = partition_a p \<and> partition_b q = partition_b p
     \<and> detected_at q = detected_at p \<and> (resolved p \<longrightarrow> q = p)"

definition keeps_splits :: "network_partition list \<Rightarrow> network_partition list \<Rightarrow> bool" where
  "keeps_splits ps qs \<longleftrightarrow> length ps \<le> length qs \<and> (\<forall>i < length ps. keeps_split (ps ! i) (qs ! i))"

lemma keeps_splits_refl [simp]: "keeps_splits ps ps"
  by (simp add: keeps_splits_def keeps_split_def)

lemma keeps_splits_append [simp]: "keeps_splits ps (ps @ qs)"
  by (simp add: keeps_splits_def keeps_split_def nth_append)

lemma keeps_splits_trans: "keeps_splits ps qs \<Longrightarrow> keeps_splits qs rs \<Longrightarrow> keeps_splits ps rs"
  unfolding keeps_splits_def keeps_split_def by (metis order_trans order_less_le_trans)

lemma keeps_splits_Cons: "keeps_split p q \<Longrightarrow> keeps_splits ps qs \<Longrightarrow> keeps_splits (p # ps) (q # qs)"
  by (auto simp: keeps_splits_def nth_Cons split: nat.splits)

lemma sb_locked_same_partitions:
  assumes "sb_locked body d = Some (r, d')"
    and "\<And>d r d'. body d = Some (r, d') \<Longrightarrow> detected_partitions d' = detected_partitions d"
  shows "detected_partitions d' = detected_partitions d"
  using assms(1) by (elim guarded_SomeE) (drule assms(2), simp)

lemma isolate_node_partitions:
  assumes "isolate_node n reason d = Some (r, d')"
  shows "detected_partitions d' = detected_partitions d"
  using assms unfolding isolate_node_def
  by (rule sb_locked_same_partitions) (auto split: option.splits)

lemma isolate_each_partitions:
  "isolate_each ns d = Some (u, d') \<Longrightarrow> detected_partitions d' = detected_partitions d"
proof (induction ns d rule: isolate_each.induct)
  case (2 n ns d)
  then obtain r d1 where "isolate_node n ''Split brain - minority partition'' d = Some (r, d1)"
    "isolate_each ns d1 = Some (u, d')"
    by (auto simp: bind_eq_Some_conv)
  with 2(1) isolate_node_partitions show ?case by metis
qed simp

lemma detection_pass_partitions:
  assumes "detection_pass now d = Some (u, d')"
  shows "\<exists>ps. detected_partitions d' = detected_partitions d @ ps"
proof -
  from assms obtain d1 where d1: "detect_network_partitions now d = Some d1"
    by (auto simp: detection_pass_def bind_eq_Some_conv)
  with assms have "detected_partitions d' = detected_partitions d1"
    by (auto simp: detection_pass_def Let_def split: if_splits dest: isolate_each_partitions)
  with detect_fields(6) [OF d1] show ?thesis by simp
qed

lemma update_partitions_length [simp]:
  "length (fst (update_partitions now ps d)) = length ps"
  by (induction ps arbitrary: d) (simp_all add: Let_def split_beta)

lemma update_partitions_keep: "keeps_splits ps (fst (update_partitions now ps d))"
proof (induction ps arbitrary: d)
  case (Cons p ps)
  have "keeps_split p (p\<lparr>resolved := True, p_duration := v\<rparr>)" if "\<not> resolved p" for v
    using that by (simp add: keeps_split_def)
  moreover have "keeps_split p p" by (simp add: keeps_split_def)
  ultimately show ?case using Cons by (auto simp: Let_def split_beta intro!: keeps_splits_Cons)
qed simp

lemma recovery_finish_partitions:
  assumes "recovery_finish now d = Some (u, d')"
  shows "keeps_splits (detected_partitions d) (detected_partitions d')"
proof -
  have "keeps_splits (detected_partitions d) (detected_partitions (update_partition_status now d))"
    using update_partitions_keep by (simp add: update_partition_status_def Let_def split_beta)
  with assms show ?thesis by (auto simp: recovery_finish_def Let_def split: if_splits)
qed

lemma unmerged_step_partitions:
  assumes "unmerged_step d d'"
  shows "keeps_splits (detected_partitions d) (detected_partitions d')"
  using assms
proof cases
  case (step_start config r)
  then show ?thesis unfolding sb_start_def
    by (auto dest!: sb_locked_same_partitions split: if_splits)
next
  case (step_stop isolating r)
  then show ?thesis unfolding sb_stop_def
    by (auto dest!: sb_locked_same_partitions split: if_splits)
next
  case (step_add n u)
  then show ?thesis unfolding add_node_def by (auto dest!: sb_locked_same_partitions)
next
  case (step_remove n u)
  then show ?thesis unfolding remove_node_def by (auto dest!: sb_locked_same_partitions)
next
  case (step_status n alive seen u)
  then show ?thesis unfolding update_node_status_def
    by (auto dest!: sb_locked_same_partitions split: option.splits simp: Let_def)
next
  case (step_heartbeat n n' stamp u)
  then show ?thesis unfolding process_heartbeat_def
    by (auto dest!: sb_locked_same_partitions split: option.splits)
next
  case (step_isolate n reason r)
  then show ?thesis by (auto dest: isolate_node_partitions)
next
  case (step_restore n r)
  then show ?thesis unfolding restore_node_def
    by (auto dest!: sb_locked_same_partitions split: option.splits)
next
  case (step_handler present u)
  then show ?thesis unfolding sb_set_event_handler_def by (auto dest!: sb_locked_same_partitions)
next
  case (step_config config u)
  then show ?thesis unfolding update_config_def by (auto dest!: sb_locked_same_partitions)
next
  case (step_detection now u)
  then show ?thesis by (auto dest!: detection_pass_partitions)
next
  case (step_recovery_begin b)
  then show ?thesis by (auto simp: recovery_begin_def split: if_splits)
next
  case (step_recovery_finish now u)
  then show ?thesis by (auto dest: recovery_finish_partitions)
next
  case (step_search now)
  then show ?thesis using detect_fields(6) by fastforce
next
  case step_lost
  then show ?thesis by simp
qed

section \<open>Active nodes\<close>

definition active_in :: "detector \<Rightarrow> node_id \<Rightarrow> bool" where
  "active_in d n = (case node_of d n of None \<Rightarrow> False | Some st \<Rightarrow> ns_is_alive st \<and> \<not> ns_is_isolated st)"

lemma alive_nodes_ids:
  assumes "distinct (node_ids d)"
  shows "alive_nodes d = filter (active_in d) (node_ids d)"
proof -
  have "counts_active e = active_in d (fst e)" if "e \<in> set (sb_nodes d)" for e
    using map_of_is_SomeI [OF assms, of "fst e" "snd e"] that
    by (simp add: counts_active_def active_in_def)
  then have "filter counts_active (sb_nodes d) = filter (\<lambda>e. active_in d (fst e)) (sb_nodes d)"
    by (intro filter_cong) auto
  then show ?thesis by (simp add: alive_nodes_def filter_map comp_def)
qed

lemma majority_isolated_ids:
  assumes "distinct (node_ids d)"
  shows "qd_isolated_nodes (majority_quorum d) = filter (\<lambda>n. \<not> active_in d n) (node_ids d)"
proof -
  have "counts_active e = active_in d (fst e)" if "e \<in> set (sb_nodes d)" for e
    using map_of_is_SomeI [OF assms, of "fst e" "snd e"] that
    by (simp add: counts_active_def active_in_def)
  then have "filter (\<lambda>e. \<not> counts_active e) (sb_nodes d) = filter (\<lambda>e. \<not> active_in d (fst e)) (sb_nodes d)"
    by (intro filter_cong) auto
  then show ?thesis by (simp add: majority_quorum_def Let_def QuorumDecision_def filter_map comp_def)
qed

lemma majority_fields [simp]:
  "qd_active_nodes (majority_quorum d) = alive_nodes d"
  "qd_has_quorum (majority_quorum d) \<longleftrightarrow> length (alive_nodes d) \<ge> length (sb_nodes d) div 2 + 1"
  by (simp_all add: majority_quorum_def Let_def)

text \<open>Isolating nodes that are not active changes no vote.\<close>

lemma isolate_node_effect:
  assumes "\<not> sb_held d" and "node_of d n = Some st"
  shows "\<exists>d'. isolate_node n reason d = Some (Ok (), d')
    \<and> node_of d' = (node_of d)(n \<mapsto> st\<lparr>ns_is_isolated := True, isolation_reason := reason\<rparr>)
    \<and> node_ids d' = node_ids d \<and> sb_config d' = sb_config d \<and> \<not> sb_held d'
    \<and> set (isolated_set d') = insert n (set (isolated_set d))
    \<and> detected_partitions d' = detected_partitions d \<and> sb_status d' = sb_status d"
proof -
  let ?d = "sb_set_held False (sb_notify (NodeIsolated n reason)
    ((set_node n (st\<lparr>ns_is_isolated := True, isolation_reason := reason\<rparr>) (sb_set_held True d))
      \<lparr>isolated_set := List.insert n (isolated_set d)\<rparr>))"
  have "isolate_node n reason d = Some (Ok (), ?d)"
    using assms by (simp add: isolate_node_def guarded_def)
  moreover have "node_ids ?d = node_ids d" using node_of_ids [OF assms(2)] by simp
  ultimately show ?thesis by (intro exI [of _ ?d]) simp
qed

lemma isolate_each_effect:
  assumes "\<not> sb_held d" and "set ns \<subseteq> set (node_ids d)" and "\<And>n. n \<in> set ns \<Longrightarrow> \<not> active_in d n"
  shows "\<exists>d'. isolate_each ns d = Some ((), d') \<and> node_ids d' = node_ids d
    \<and> active_in d' = active_in d \<and> sb_config d' = sb_config d
    \<and> (\<forall>n. flagged_isolated d' n = (flagged_isolated d n \<or> n \<in> set ns))
    \<and> set (isolated_set d') = set (isolated_set d) \<union> set ns"
  using assms
proof (induction ns arbitrary: d)
  case Nil
  then show ?case by simp
next
  case (Cons n ns)
  then obtain st where st: "node_of d n = Some st" by (cases "node_of d n") (auto simp: map_of_eq_None_iff)
  from isolate_node_effect [OF Cons.prems(1) st] obtain d1 where
    d1: "isolate_node n ''Split brain - minority partition'' d = Some (Ok (), d1)"
    "node_of d1 = (node_of d)(n \<mapsto> st\<lparr>ns_is_isolated := True,
        isolation_reason := ''Split brain - minority partition''\<rparr>)"
    "node_ids d1 = node_ids d" "sb_config d1 = sb_config d" "\<not> sb_held d1"
    "set (isolated_set d1) = insert n (set (isolated_set d))" by blast
  have a: "active_in d1 = active_in d"
    using Cons.prems(3) [of n] st by (auto simp: active_in_def d1(2) fun_eq_iff)
  have f: "flagged_isolated d1 m = (flagged_isolated d m \<or> m = n)" for m
    by (simp add: flagged_isolated_def d1(2))
  have "\<exists>d'. isolate_each ns d1 = Some ((), d') \<and> node_ids d' = node_ids d1
    \<and> active_in d' = active_in d1 \<and> sb_config d' = sb_config d1
    \<and> (\<forall>n. flagged_isolated d' n = (flagged_isolated d1 n \<or> n \<in> set ns))
    \<and> set (isolated_set d') = set (isolated_set d1) \<union> set ns"
    by (rule Cons.IH) (use Cons.prems a d1 in auto)
  then show ?case using d1 a f by auto
qed

section \<open>The components of the live nodes\<close>

definition live_nodes :: "detector \<Rightarrow> node_id set" where
  "live_nodes d = {n. node_alive d n}"

lemma live_ids: "node_alive d n \<Longrightarrow> n \<in> set (node_ids d)"
  by (cases "node_of d n") (auto simp: node_alive_def dest: node_of_ids)

lemma connected_sym: "are_nodes_connected now d a b = are_nodes_connected now d b a"
  by (auto simp: are_nodes_connected_def Let_def split: option.splits)

lemma live_searchable:
  assumes "distinct (node_ids d)"
  shows "searchable (node_ids d) (live_nodes d) (node_alive d) (are_nodes_connected now d)
    (\<lambda>c v. Some (node_alive d v \<and> are_nodes_connected now d c v))"
  using assms live_ids connected_sym [of now d]
  by (auto simp: searchable_def live_nodes_def)

lemma live_components:
  assumes "distinct (node_ids d)"
  obtains bs where "find_connected_components now d = Some bs" and "set (concat bs) = live_nodes d"
    and "distinct (concat bs)" and "[] \<notin> set bs"
    and "\<And>b u v. b \<in> set bs \<Longrightarrow> u \<in> set b \<Longrightarrow>
      v \<in> set b \<longleftrightarrow> (u, v) \<in> (links (live_nodes d) (are_nodes_connected now d))\<^sup>*"
proof (rule bfs_components_split [OF live_searchable [OF assms], of now], goal_cases)
  case (1 bs)
  then have "find_connected_components now d = Some bs" by (simp add: find_connected_components_def)
  from this 1(3-5) show ?case by (rule that) (rule 1(6))
qed

interpretation live: component_split
  "\<lambda>(now, d). distinct (node_ids d)" "\<lambda>(now, d). live_nodes d"
  "\<lambda>(now, d). are_nodes_connected now d" "\<lambda>(now, d). find_connected_components now d"
proof (unfold_locales, goal_cases)
  case (1 s)
  then show ?case by (cases s) (auto elim: live_components)
next
  case (2 s bs)
  obtain now d where s: "s = (now, d)" by (cases s)
  with 2 live_components [of d now] show ?case by (metis option.inject prod.case)
next
  case (3 s bs)
  obtain now d where s: "s = (now, d)" by (cases s)
  with 3 live_components [of d now] show ?case by (metis option.inject prod.case)
next
  case (4 s bs b u v)
  obtain now d where s: "s = (now, d)" by (cases s)
  then have "distinct (node_ids d)" "find_connected_components now d = Some bs" using 4 by simp_all
  with live_components [of d now] have "v \<in> set b \<longleftrightarrow>
      (u, v) \<in> (links (live_nodes d) (are_nodes_connected now d))\<^sup>*"
    using 4(3,4) by (metis option.inject)
  with s show ?case by simp
qed

text \<open>A node is heard when its last heartbeat is younger than two timeouts.\<close>

definition heard :: "time_point \<Rightarrow> detector \<Rightarrow> node_id \<Rightarrow> bool" where
  "heard now d n = are_nodes_connected now d n n"

lemma connected_heard: "are_nodes_connected now d a b \<longleftrightarrow> heard now d a \<and> heard now d b"
  by (auto simp: heard_def are_nodes_connected_def Let_def split: option.splits)

lemma live_reach:
  assumes "u \<in> live_nodes d"
  shows "(u, v) \<in> (links (live_nodes d) (are_nodes_connected now d))\<^sup>*
    \<longleftrightarrow> v = u \<or> v \<in> live_nodes d \<and> heard now d u \<and> heard now d v"
proof
  assume "(u, v) \<in> (links (live_nodes d) (are_nodes_connected now d))\<^sup>*"
  then show "v = u \<or> v \<in> live_nodes d \<and> heard now d u \<and> heard now d v"
    by (induction rule: rtrancl_induct) (auto simp: links_def connected_heard)
next
  assume "v = u \<or> v \<in> live_nodes d \<and> heard now d u \<and> heard now d v"
  then show "(u, v) \<in> (links (live_nodes d) (are_nodes_connected now d))\<^sup>*"
    using assms by (auto simp: links_def connected_heard)
qed

section \<open>The connectivity matrix\<close>

definition matrix_shape :: "nat \<Rightarrow> bool_matrix \<Rightarrow> bool" where
  "matrix_shape n m \<longleftrightarrow> length m = n \<and> (\<forall>r \<in> set m. length r = n)"

lemma matrix_shape_row: "matrix_shape n m \<Longrightarrow> i < n \<Longrightarrow> length (m ! i) = n"
  by (auto simp: matrix_shape_def)

lemma put_cell_shape [simp]: "matrix_shape n m \<Longrightarrow> i < n \<Longrightarrow> matrix_shape n (put_cell i j b m)"
  by (auto simp: matrix_shape_def put_cell_def dest!: set_update_subset_insert [THEN subsetD])

lemma put_cell_entry [simp]:
  "matrix_shape n m \<Longrightarrow> i < n \<Longrightarrow> j < n \<Longrightarrow> a < n \<Longrightarrow>
   put_cell i j b m ! a ! c = (if a = i \<and> c = j then b else m ! a ! c)"
  by (auto simp: put_cell_def matrix_shape_def nth_list_update)

definition wanted_cell :: "node_id list \<Rightarrow> (node_id \<Rightarrow> node_id \<Rightarrow> bool) \<Rightarrow> nat \<Rightarrow> nat \<Rightarrow> bool" where
  "wanted_cell nodes connected a c = (a = c \<or> connected (nodes ! min a c) (nodes ! max a c))"

lemma put_link_shape: "matrix_shape n m \<Longrightarrow> i < n \<Longrightarrow> j < n \<Longrightarrow> matrix_shape n (put_link nodes connected i j m)"
  by (simp add: put_link_def Let_def)

lemma put_link_entry:
  assumes "matrix_shape n m" and "i < j" and "j < n" and "a < n"
  shows "put_link nodes connected i j m ! a ! c
    = (if min a c = i \<and> max a c = j then wanted_cell nodes connected a c else m ! a ! c)"
proof -
  let ?b = "connected (nodes ! i) (nodes ! j)"
  have "put_link nodes connected i j m ! a ! c
      = (if a = j \<and> c = i then ?b else if a = i \<and> c = j then ?b else m ! a ! c)"
    using assms put_cell_entry [OF put_cell_shape [of n m i j ?b], of j i a ?b c] put_cell_entry [of n m i j a ?b c]
    by (simp add: put_link_def Let_def)
  moreover have "min a c = i \<and> max a c = j \<longleftrightarrow> a = j \<and> c = i \<or> a = i \<and> c = j"
    using assms(2) by auto
  ultimately show ?thesis using assms(2) by (auto simp: wanted_cell_def)
qed

lemma matrix_row_partial:
  assumes "matrix_shape n m" and "Suc k \<le> l" and "l \<le> n"
  shows "matrix_shape n (fold (put_link nodes connected k) [Suc k..<l] (put_cell k k True m))
    \<and> (\<forall>a < n. \<forall>c < n. fold (put_link nodes connected k) [Suc k..<l] (put_cell k k True m) ! a ! c
      = (if min a c = k \<and> max a c < l then wanted_cell nodes connected a c else m ! a ! c))"
  using assms(2,3)
proof (induction l rule: dec_induct)
  case base
  have "min a c = k \<and> max a c < Suc k \<longleftrightarrow> a = k \<and> c = k" for a c :: nat by auto
  with base assms(1) show ?case by (auto simp: wanted_cell_def)
next
  case (step l)
  let ?m = "fold (put_link nodes connected k) [Suc k..<l] (put_cell k k True m)"
  from step have shape: "matrix_shape n ?m" and
    ent: "\<And>a c. a < n \<Longrightarrow> c < n \<Longrightarrow> ?m ! a ! c
      = (if min a c = k \<and> max a c < l then wanted_cell nodes connected a c else m ! a ! c)"
    by simp_all
  have up: "[Suc k..<Suc l] = [Suc k..<l] @ [l]" using step.hyps by simp
  have l: "k < l" "l < n" "k < n" using step.hyps step.prems by simp_all
  have "put_link nodes connected k l ?m ! a ! c
      = (if min a c = k \<and> max a c < Suc l then wanted_cell nodes connected a c else m ! a ! c)"
    if "a < n" "c < n" for a c
    unfolding put_link_entry [OF shape l(1,2) that(1)] ent [OF that] less_Suc_eq by auto
  with put_link_shape [OF shape l(3,2)] show ?case unfolding up by simp
qed

lemma matrix_rows:
  assumes "k \<le> n" and "n = length nodes"
  shows "matrix_shape n (fold (matrix_row nodes connected) [0..<k] (replicate n (replicate n False)))
    \<and> (\<forall>a < n. \<forall>c < n. fold (matrix_row nodes connected) [0..<k] (replicate n (replicate n False)) ! a ! c
      = (min a c < k \<and> wanted_cell nodes connected a c))"
  using assms(1)
proof (induction k)
  case 0
  then show ?case by (simp add: matrix_shape_def)
next
  case (Suc k)
  let ?m = "fold (matrix_row nodes connected) [0..<k] (replicate n (replicate n False))"
  from Suc have shape: "matrix_shape n ?m" and ent: "\<And>a c. a < n \<Longrightarrow> c < n \<Longrightarrow>
      ?m ! a ! c = (min a c < k \<and> wanted_cell nodes connected a c)" by simp_all
  from matrix_row_partial [OF shape, of k n nodes connected] Suc.prems assms(2)
  have row: "matrix_shape n (matrix_row nodes connected k ?m)"
    "\<And>a c. a < n \<Longrightarrow> c < n \<Longrightarrow> matrix_row nodes connected k ?m ! a ! c
      = (if min a c = k \<and> max a c < n then wanted_cell nodes connected a c else ?m ! a ! c)"
    by (simp_all add: matrix_row_def)
  have "(if min a c = k \<and> max a c < n then wanted_cell nodes connected a c else ?m ! a ! c)
      = (min a c < Suc k \<and> wanted_cell nodes connected a c)" if "a < n" "c < n" for a c
    using that ent [OF that] by (auto simp: less_Suc_eq)
  with row show ?case by simp
qed

text \<open>The partitions of a symmetric matrix.\<close>

definition symmetric_matrix :: "nat \<times> bool_matrix \<Rightarrow> bool" where
  "symmetric_matrix nm \<longleftrightarrow> matrix_shape (fst nm) (snd nm)
    \<and> (\<forall>i < fst nm. \<forall>j < fst nm. snd nm ! i ! j \<longrightarrow> snd nm ! j ! i)"

lemma matrix_searchable:
  assumes "symmetric_matrix (n, m)"
  shows "searchable [0..<n] {..<n} (\<lambda>_. True) (\<lambda>i j. m ! i ! j) (cell m)"
proof -
  have shape: "matrix_shape n m" and sym: "\<forall>i < n. \<forall>j < n. m ! i ! j \<longrightarrow> m ! j ! i"
    using assms by (simp_all add: symmetric_matrix_def)
  have "cell m i j = Some (m ! i ! j)" if "i < n" "j < n" for i j
    using matrix_shape_row [OF shape that(1)] shape that by (simp add: cell_def matrix_shape_def)
  moreover have "{..<n} = {v \<in> set [0..<n]. True}" by auto
  ultimately show ?thesis using sym by (simp add: searchable_def)
qed

lemma index_partitions:
  assumes "symmetric_matrix (n, m)"
  obtains bs where "partition_indices (n, m) = Some bs" and "set (concat bs) = {..<n}"
    and "distinct (concat bs)" and "[] \<notin> set bs"
    and "\<And>b u v. b \<in> set bs \<Longrightarrow> u \<in> set b \<Longrightarrow>
      v \<in> set b \<longleftrightarrow> (u, v) \<in> (links {..<n} (\<lambda>i j. m ! i ! j))\<^sup>*"
proof (rule bfs_components_split [OF matrix_searchable [OF assms]], goal_cases)
  case (1 bs)
  then have "partition_indices (n, m) = Some bs" by (simp add: partition_indices_def)
  from this 1(3-5) show ?case by (rule that) (rule 1(6))
qed

interpretation matrix: component_split symmetric_matrix "\<lambda>(n, m). {..<n}" "\<lambda>(n, m) i j. m ! i ! j"
  partition_indices
proof (unfold_locales, goal_cases)
  case (1 s)
  then show ?case by (cases s) (auto elim: index_partitions)
next
  case (2 s bs)
  obtain n m where s: "s = (n, m)" by (cases s)
  with 2 index_partitions [of n m] show ?case by (metis option.inject prod.case)
next
  case (3 s bs)
  obtain n m where s: "s = (n, m)" by (cases s)
  with 3 index_partitions [of n m] show ?case by (metis option.inject)
next
  case (4 s bs b u v)
  obtain n m where s: "s = (n, m)" by (cases s)
  then have "symmetric_matrix (n, m)" "partition_indices (n, m) = Some bs" using 4 by simp_all
  with index_partitions [of n m] have "v \<in> set b \<longleftrightarrow> (u, v) \<in> (links {..<n} (\<lambda>i j. m ! i ! j))\<^sup>*"
    using 4(3,4) by (metis option.inject)
  with s show ?case by simp
qed

lemma connectivity_cell:
  assumes "i < length nodes" and "j < length nodes"
  shows "calculate_connectivity_matrix nodes connected ! i ! j = wanted_cell nodes connected i j"
proof -
  let ?n = "length nodes"
  let ?m = "fold (matrix_row nodes connected) [0..<?n] (replicate ?n (replicate ?n False))"
  have "?m ! i ! j = (min i j < ?n \<and> wanted_cell nodes connected i j)"
    using matrix_rows [of ?n ?n nodes connected] assms by blast
  moreover have "min i j < ?n" using assms by simp
  ultimately show ?thesis by (simp add: calculate_connectivity_matrix_def Let_def)
qed

lemma wanted_cell_sym: "wanted_cell nodes connected a c = wanted_cell nodes connected c a"
  unfolding wanted_cell_def by (metis max.commute min.commute)

lemma connectivity_symmetric:
  "symmetric_matrix (length nodes, calculate_connectivity_matrix nodes connected)"
proof -
  have "matrix_shape (length nodes) (calculate_connectivity_matrix nodes connected)"
    using matrix_rows [of "length nodes" "length nodes" nodes connected]
    by (simp add: calculate_connectivity_matrix_def Let_def)
  then show ?thesis
    by (simp add: symmetric_matrix_def connectivity_cell wanted_cell_sym [of nodes connected])
qed

section \<open>Checking a decision\<close>

lemma collect_fresh_iff:
  "collect_fresh ns seen = (if distinct ns \<and> set ns \<inter> set seen = {} then Some (rev ns @ seen) else None)"
  by (induction ns arbitrary: seen) auto

lemma validate_iff:
  "validate_quorum_decision q all_nodes \<longleftrightarrow>
    distinct (qd_active_nodes q @ qd_isolated_nodes q)
    \<and> length (qd_active_nodes q @ qd_isolated_nodes q) = length all_nodes"
  by (auto simp: validate_quorum_decision_def collect_fresh_iff)

end
