(* ===== verification/Cluster_Properties.thy ===== *)
theory Cluster_Properties
  imports Split_Brain
begin

text \<open>
  What the split brain detector promises: quorums of the majority strategy meet, and when those of
  the other strategies do; the searches find the connected components, a pass of the detection thread isolates the minority and
  keeps the vote, the bookkeeping of isolated nodes stays consistent; and where it fails.
\<close>

section \<open>Quorums\<close>

lemma alive_nodes_subset: "set (alive_nodes d) \<subseteq> set (node_ids d)"
  by (auto simp: alive_nodes_def)

lemma alive_nodes_distinct: "distinct (node_ids d) \<Longrightarrow> distinct (alive_nodes d)"
  by (simp add: alive_nodes_ids)

lemma large_subsets_meet:
  assumes "finite M" and "A \<subseteq> M" and "B \<subseteq> M" and "card M < card A + card B"
  shows "A \<inter> B \<noteq> {}"
proof
  assume "A \<inter> B = {}"
  moreover have "finite A" "finite B" using assms(1-3) finite_subset by blast+
  ultimately have "card A + card B = card (A \<union> B)" by (simp add: card_Un_disjoint)
  also have "\<dots> \<le> card M" using assms(1-3) by (intro card_mono) auto
  finally show False using assms(4) by simp
qed

lemma majority_alive_meet:
  assumes "distinct (node_ids d1)" and "distinct (node_ids d2)"
    and "set (node_ids d1) = set (node_ids d2)"
    and "quorum_strategy (sb_config d1) = MAJORITY" and "quorum_strategy (sb_config d2) = MAJORITY"
    and "qd_has_quorum (calculate_quorum d1)" and "qd_has_quorum (calculate_quorum d2)"
  shows "set (alive_nodes d1) \<inter> set (alive_nodes d2) \<noteq> {}"
proof -
  let ?M = "set (node_ids d1)"
  have size: "card ?M = length (sb_nodes d1)" "card ?M = length (sb_nodes d2)"
    using distinct_card [OF assms(1)] distinct_card [OF assms(2)] assms(3) by simp_all
  have "card (set (alive_nodes d1)) \<ge> card ?M div 2 + 1" "card (set (alive_nodes d2)) \<ge> card ?M div 2 + 1"
    using assms(4-7) size distinct_card [OF alive_nodes_distinct [OF assms(1)]]
      distinct_card [OF alive_nodes_distinct [OF assms(2)]]
    by (simp_all add: calculate_quorum_def)
  then have "set (alive_nodes d1) \<inter> set (alive_nodes d2) \<noteq> {}"
    using alive_nodes_subset [of d1] alive_nodes_subset [of d2] assms(3)
    by (intro large_subsets_meet [of ?M]) auto
  then show ?thesis .
qed

text \<open>C25: two detectors that watch the same nodes and both claim a majority quorum, whatever each
  has heard, have an active node in common: the majority strategy never lets two sides of a
  split go on.\<close>

theorem majority_quorums_meet:
  assumes "distinct (node_ids d1)" and "distinct (node_ids d2)"
    and "set (node_ids d1) = set (node_ids d2)"
    and "quorum_strategy (sb_config d1) = MAJORITY" and "quorum_strategy (sb_config d2) = MAJORITY"
    and "qd_has_quorum (calculate_quorum d1)" and "qd_has_quorum (calculate_quorum d2)"
  shows "set (qd_active_nodes (calculate_quorum d1)) \<inter> set (qd_active_nodes (calculate_quorum d2)) \<noteq> {}"
  using majority_alive_meet [OF assms] assms(4,5) by (simp add: calculate_quorum_def)

text \<open>Four nodes, of which \<open>up\<close> are alive in the eyes of the detector.\<close>

definition demo_nodes :: "node_id list" where "demo_nodes = [''a'', ''b'', ''c'', ''d'']"

definition demo_status :: "node_id list \<Rightarrow> node_id \<Rightarrow> node_status" where
  "demo_status up n = (NodeStatus n)\<lparr>ns_is_alive := n \<in> set up, last_heartbeat := (if n \<in> set up then 1000 else 0)\<rparr>"

definition demo_detector :: "quorum_strategy \<Rightarrow> node_id list \<Rightarrow> detector" where
  "demo_detector strategy up = SplitBrainDetector_new
     \<lparr>sb_config := SplitBrainConfig\<lparr>quorum_strategy := strategy, witness_nodes := [''a'', ''c'']\<rparr>,
      sb_nodes := map (\<lambda>n. (n, demo_status up n)) demo_nodes\<rparr>"

lemmas demo_defs = demo_detector_def SplitBrainDetector_new_def demo_nodes_def demo_status_def
  NodeStatus_def SplitBrainConfig_def

theorem majority_quorums_meet_witness:
  "set (qd_active_nodes (calculate_quorum (demo_detector MAJORITY [''a'', ''b'', ''c''])))
   \<inter> set (qd_active_nodes (calculate_quorum (demo_detector MAJORITY [''b'', ''c'', ''d'']))) \<noteq> {}"
  by (rule majority_quorums_meet)
    (simp_all add: demo_defs calculate_quorum_def alive_nodes_def counts_active_def)

text \<open>What makes a quorum, whatever the strategy.\<close>

lemma quorum_iff:
  "qd_has_quorum (calculate_quorum d) \<longleftrightarrow>
    (case quorum_strategy (sb_config d) of
       MAJORITY \<Rightarrow> length (sb_nodes d) div 2 + 1 \<le> length (alive_nodes d)
     | WITNESS_BASED \<Rightarrow> min_quorum_size (sb_config d) \<le> length (alive_nodes d)
         \<and> set (witness_nodes (sb_config d)) \<inter> set (alive_nodes d) \<noteq> {}
     | _ \<Rightarrow> min_quorum_size (sb_config d) \<le> length (alive_nodes d))"
proof -
  have "(length (alive_nodes d) + 1) div 2 \<le> length (alive_nodes d)" by linarith
  then show ?thesis
    by (auto simp: calculate_quorum_def static_quorum_def dynamic_quorum_def witness_based_quorum_def
        Let_def filter_empty_conv split: quorum_strategy.split)
qed

lemma quorum_active [simp]: "qd_active_nodes (calculate_quorum d) = alive_nodes d"
  by (cases "quorum_strategy (sb_config d)") (simp_all add: calculate_quorum_def static_quorum_def
      dynamic_quorum_def witness_based_quorum_def Let_def)

text \<open>A detector, in a reachable state, that watches the nodes \<open>ns\<close> with the configuration \<open>config\<close>.\<close>

definition watches :: "split_brain_config \<Rightarrow> node_id list \<Rightarrow> detector \<Rightarrow> bool" where
  "watches config ns d \<longleftrightarrow> sb_reachable d \<and> sb_config d = config \<and> set (node_ids d) = set ns"

text \<open>Such a detector can have heard from any of the nodes and from no other.\<close>

lemma watches_any:
  assumes "distinct ns"
  shows "\<exists>d. watches config ns d \<and> \<not> sb_held d \<and> node_ids d = ns \<and> (\<forall>n. active_in d n \<longleftrightarrow> n \<in> set ns \<and> n \<in> A)"
  using assms
proof (induction ns rule: rev_induct)
  case Nil
  let ?d = "SplitBrainDetector_new\<lparr>sb_config := config\<rparr>"
  have "unmerged_step SplitBrainDetector_new ?d"
    by (rule step_config [of config _ "()"])
      (simp add: update_config_def guarded_def sb_set_held_def SplitBrainDetector_new_def)
  then have "sb_reachable ?d" unfolding sb_reachable_def by (blast intro: step_other)
  then show ?case
    by (intro exI [of _ ?d]) (simp add: watches_def active_in_def SplitBrainDetector_new_def)
next
  case (snoc n ns)
  then obtain d where d: "watches config ns d" "\<not> sb_held d" "node_ids d = ns"
    "\<And>m. active_in d m \<longleftrightarrow> m \<in> set ns \<and> m \<in> A" by auto
  let ?d1 = "sb_set_held False (set_node n (NodeStatus n) (sb_set_held True d))"
  let ?st = "(NodeStatus n)\<lparr>last_heartbeat := 1, ns_is_alive := True, missed_heartbeats := 0\<rparr>"
  let ?d2 = "sb_set_held False (set_node n ?st (sb_set_held True ?d1))"
  have "add_node n d = Some ((), ?d1)" using d(2) by (simp add: add_node_def guarded_def)
  then have s1: "sb_step d ?d1" by (rule step_other [OF step_add])
  have "process_heartbeat n n 1 ?d1 = Some ((), ?d2)"
    by (simp add: process_heartbeat_def guarded_def)
  then have s2: "sb_step ?d1 ?d2" by (rule step_other [OF step_heartbeat])
  have r: "sb_step\<^sup>*\<^sup>* SplitBrainDetector_new d" using d(1) by (simp add: watches_def sb_reachable_def)
  let ?d = "if n \<in> A then ?d2 else ?d1"
  have "sb_reachable ?d"
    using r s1 s2 unfolding sb_reachable_def by (auto intro: rtranclp.rtrancl_into_rtrancl)
  moreover have "node_ids ?d = ns @ [n]" "sb_config ?d = config" "\<not> sb_held ?d"
    using d(1,3) snoc.prems by (auto simp: watches_def)
  moreover have "active_in ?d m \<longleftrightarrow> m \<in> set (ns @ [n]) \<and> m \<in> A" for m
    using d(4) [of m] by (auto simp: active_in_def NodeStatus_def)
  ultimately show ?case by (intro exI [of _ ?d]) (simp add: watches_def)
qed

text \<open>Two sides of a split, each as large as the minimum and, when witnesses count, with one of them.\<close>

lemma two_sides:
  assumes "finite N" and "2 * m \<le> card N" and "w1 \<in> N" and "w2 \<in> N" and "w1 \<noteq> w2"
  shows "\<exists>A B. A \<subseteq> N \<and> B \<subseteq> N \<and> A \<inter> B = {} \<and> m \<le> card A \<and> m \<le> card B \<and> w1 \<in> A \<and> w2 \<in> B"
proof -
  have c: "card (N - {w1, w2}) = card N - 2" using assms by (simp add: card_Diff_subset)
  have "m - 1 \<le> card (N - {w1, w2})" using assms(2) c by linarith
  then obtain A where A: "A \<subseteq> N - {w1, w2}" "card A = m - 1" by (meson obtain_subset_with_card_n)
  let ?A = "insert w1 A" and ?B = "N - insert w1 A"
  have fin: "finite A" using A(1) assms(1) by (meson finite_Diff finite_subset)
  have cA: "card ?A = Suc (m - 1)" using A fin by (subst card_insert_disjoint) auto
  have "card ?B = card N - card ?A" using A assms(3) fin by (intro card_Diff_subset) auto
  moreover have "2 \<le> card N"
    using card_mono [of N "{w1, w2}"] assms by simp
  ultimately have "m \<le> card ?A" "m \<le> card ?B" using cA assms(2) by linarith+
  with A assms(3-5) show ?thesis by (intro exI [of _ ?A] exI [of _ ?B]) auto
qed

lemma sides_exist:
  assumes "2 * m \<le> card (set ns)" and "wanted \<Longrightarrow> 2 \<le> card (W \<inter> set ns)"
  obtains A B where "A \<subseteq> set ns" and "B \<subseteq> set ns" and "A \<inter> B = {}" and "m \<le> card A" and "m \<le> card B"
    and "wanted \<Longrightarrow> W \<inter> A \<noteq> {} \<and> W \<inter> B \<noteq> {}"
proof (cases wanted)
  case True
  then obtain w1 w2 where "w1 \<in> W \<inter> set ns" "w2 \<in> W \<inter> set ns" "w1 \<noteq> w2"
    using assms(2) card_le_Suc0_iff_eq [of "W \<inter> set ns"] by (auto simp: not_le Suc_le_eq numeral_2_eq_2)
  then have w: "w1 \<in> set ns" "w2 \<in> set ns" "w1 \<noteq> w2" "w1 \<in> W" "w2 \<in> W" by auto
  obtain A B where "A \<subseteq> set ns" "B \<subseteq> set ns" "A \<inter> B = {}" "m \<le> card A" "m \<le> card B" "w1 \<in> A" "w2 \<in> B"
    using two_sides [OF _ assms(1) w(1-3)] by auto
  then show ?thesis using w(4,5) by (intro that [of A B]) auto
next
  case False
  obtain A where A: "A \<subseteq> set ns" "card A = m"
    using assms(1) obtain_subset_with_card_n [of m "set ns"] by (metis add_leE mult_2)
  then have "card (set ns - A) = card (set ns) - m" by (simp add: card_Diff_subset finite_subset)
  with A assms(1) False show ?thesis by (intro that [of A "set ns - A"]) auto
qed

lemma quorum_at:
  assumes "watches config ns d" and "distinct (node_ids d)" and "finite A" and "set (alive_nodes d) = A"
    and "quorum_strategy config \<noteq> MAJORITY" and "min_quorum_size config \<le> card A"
    and "quorum_strategy config = WITNESS_BASED \<Longrightarrow> set (witness_nodes config) \<inter> A \<noteq> {}"
  shows "qd_has_quorum (calculate_quorum d)"
proof -
  have "length (alive_nodes d) = card A"
    using distinct_card [OF alive_nodes_distinct [OF assms(2)]] assms(4) by simp
  with assms show ?thesis by (auto simp: quorum_iff watches_def split: quorum_strategy.split)
qed

lemma quorum_sides:
  assumes "watches config ns d1" and "watches config ns d2"
    and "qd_has_quorum (calculate_quorum d1)" and "qd_has_quorum (calculate_quorum d2)"
    and "set (alive_nodes d1) \<inter> set (alive_nodes d2) = {}" and "distinct ns"
    and "quorum_strategy config \<noteq> MAJORITY"
  shows "2 * min_quorum_size config \<le> length ns"
    and "quorum_strategy config = WITNESS_BASED \<Longrightarrow> 2 \<le> card (set (witness_nodes config) \<inter> set ns)"
proof -
  have dist: "distinct (node_ids d1)" "distinct (node_ids d2)"
    using assms(1,2) sb_reachable_wf by (auto simp: watches_def sb_wf_def)
  let ?A = "set (alive_nodes d1)" and ?B = "set (alive_nodes d2)"
  have sub: "?A \<subseteq> set ns" "?B \<subseteq> set ns"
    using alive_nodes_subset [of d1] alive_nodes_subset [of d2] assms(1,2) by (simp_all add: watches_def)
  have "min_quorum_size config \<le> card ?A" "min_quorum_size config \<le> card ?B"
    using assms(1-4,7) distinct_card [OF alive_nodes_distinct [OF dist(1)]]
      distinct_card [OF alive_nodes_distinct [OF dist(2)]]
    by (auto simp: quorum_iff watches_def split: quorum_strategy.splits)
  moreover have "card ?A + card ?B = card (?A \<union> ?B)"
    using assms(5) by (simp add: card_Un_disjoint)
  moreover have "card (?A \<union> ?B) \<le> card (set ns)" using sub by (intro card_mono) auto
  ultimately show "2 * min_quorum_size config \<le> length ns" using distinct_card [OF assms(6)] by linarith
  assume w: "quorum_strategy config = WITNESS_BASED"
  then obtain w1 w2 where "w1 \<in> set (witness_nodes config) \<inter> ?A" "w2 \<in> set (witness_nodes config) \<inter> ?B"
    using assms(1-4) by (auto simp: quorum_iff watches_def)
  moreover from this have "w1 \<noteq> w2" using assms(5) by auto
  ultimately show "2 \<le> card (set (witness_nodes config) \<inter> set ns)"
    using sub card_mono [of "set (witness_nodes config) \<inter> set ns" "{w1, w2}"]
    by (simp add: numeral_2_eq_2) blast
qed

text \<open>C26: when exactly a cluster is safe from two quorums. Two detectors that watch the same nodes with
  the same configuration, in any states they can reach, always share an active node when both have
  a quorum, if and only if the strategy is the majority, or the minimum size is more than half of
  the nodes, or the strategy asks for a witness and fewer than two of the nodes are witnesses. With
  the default minimum of two, static and dynamic quorums are unsafe from four nodes on.\<close>

theorem quorums_meet_iff:
  assumes "distinct ns"
  shows "(\<forall>d1 d2. watches config ns d1 \<longrightarrow> watches config ns d2 \<longrightarrow>
       qd_has_quorum (calculate_quorum d1) \<longrightarrow> qd_has_quorum (calculate_quorum d2) \<longrightarrow>
       set (qd_active_nodes (calculate_quorum d1)) \<inter> set (qd_active_nodes (calculate_quorum d2)) \<noteq> {})
    \<longleftrightarrow> quorum_strategy config = MAJORITY \<or> length ns < 2 * min_quorum_size config
      \<or> quorum_strategy config = WITNESS_BASED \<and> card (set (witness_nodes config) \<inter> set ns) < 2"
    (is "?safe \<longleftrightarrow> ?cond")
proof
  assume safe: ?safe
  show ?cond
  proof (rule ccontr)
    assume "\<not> ?cond"
    then have s: "quorum_strategy config \<noteq> MAJORITY" "2 * min_quorum_size config \<le> card (set ns)"
      "quorum_strategy config = WITNESS_BASED \<Longrightarrow> 2 \<le> card (set (witness_nodes config) \<inter> set ns)"
      using distinct_card [OF assms] by auto
    obtain A B where AB: "A \<subseteq> set ns" "B \<subseteq> set ns" "A \<inter> B = {}"
      "min_quorum_size config \<le> card A" "min_quorum_size config \<le> card B"
      "quorum_strategy config = WITNESS_BASED \<Longrightarrow>
        set (witness_nodes config) \<inter> A \<noteq> {} \<and> set (witness_nodes config) \<inter> B \<noteq> {}"
      using sides_exist [of "min_quorum_size config" ns "quorum_strategy config = WITNESS_BASED"
          "set (witness_nodes config)"] s(2,3) by (auto simp del: Int_Un_distrib)
    obtain d1 where d1: "watches config ns d1" "node_ids d1 = ns" "\<And>n. active_in d1 n \<longleftrightarrow> n \<in> set ns \<and> n \<in> A"
      using watches_any [OF assms] by metis
    obtain d2 where d2: "watches config ns d2" "node_ids d2 = ns" "\<And>n. active_in d2 n \<longleftrightarrow> n \<in> set ns \<and> n \<in> B"
      using watches_any [OF assms] by metis
    have a: "set (alive_nodes d1) = A" "set (alive_nodes d2) = B"
      using AB(1,2) d1(2,3) d2(2,3) assms by (auto simp: alive_nodes_ids)
    have "finite A" "finite B" using AB(1,2) finite_subset by auto
    then have "qd_has_quorum (calculate_quorum d1)" "qd_has_quorum (calculate_quorum d2)"
      using quorum_at [OF d1(1) _ _ a(1) s(1) AB(4)] quorum_at [OF d2(1) _ _ a(2) s(1) AB(5)] AB(6)
        d1(2) d2(2) assms by auto
    with safe d1(1) d2(1) AB(3) a show False by fastforce
  qed
next
  assume cond: ?cond
  show ?safe
  proof (intro allI impI)
    fix d1 d2
    assume w: "watches config ns d1" "watches config ns d2"
      and q: "qd_has_quorum (calculate_quorum d1)" "qd_has_quorum (calculate_quorum d2)"
    show "set (qd_active_nodes (calculate_quorum d1)) \<inter> set (qd_active_nodes (calculate_quorum d2)) \<noteq> {}"
    proof (cases "quorum_strategy config = MAJORITY")
      case True
      then show ?thesis
        using majority_alive_meet [of d1 d2] w q sb_reachable_wf by (auto simp: watches_def sb_wf_def)
    next
      case False
      with cond quorum_sides [OF w q _ assms] show ?thesis by fastforce
    qed
  qed
qed

definition pairs_config :: split_brain_config where
  "pairs_config = SplitBrainConfig\<lparr>quorum_strategy := DYNAMIC_QUORUM\<rparr>"

theorem quorums_meet_iff_witness:
  "\<exists>d1 d2. watches pairs_config demo_nodes d1 \<and> watches pairs_config demo_nodes d2
    \<and> qd_has_quorum (calculate_quorum d1) \<and> qd_has_quorum (calculate_quorum d2)
    \<and> set (qd_active_nodes (calculate_quorum d1)) \<inter> set (qd_active_nodes (calculate_quorum d2)) = {}"
proof -
  have "distinct demo_nodes" by (simp add: demo_nodes_def)
  from quorums_meet_iff [OF this, of pairs_config] show ?thesis
    by (simp add: pairs_config_def SplitBrainConfig_def demo_nodes_def)
qed

text \<open>The dynamic strategy never decides otherwise than the static one: its own bound, half
  of the nodes alive, always holds.\<close>

theorem dynamic_is_static:
  "qd_has_quorum (dynamic_quorum d) = qd_has_quorum (static_quorum d)
   \<and> qd_active_nodes (dynamic_quorum d) = qd_active_nodes (static_quorum d)"
proof -
  have "(length (alive_nodes d) + 1) div 2 \<le> length (alive_nodes d)" by linarith
  then show ?thesis by (simp add: dynamic_quorum_def static_quorum_def Let_def)
qed

text \<open>The decision of the majority strategy accounts for every node exactly once, so
  \<open>validate_quorum_decision\<close> accepts it; a decision of another strategy lists no isolated nodes
  and is accepted only when every node is active.\<close>

theorem quorum_decision_valid:
  assumes "distinct (node_ids d)"
  shows "validate_quorum_decision (calculate_quorum d) (node_ids d) \<longleftrightarrow>
    quorum_strategy (sb_config d) = MAJORITY \<or> set (alive_nodes d) = set (node_ids d)"
proof -
  have full: "length (alive_nodes d) = length (sb_nodes d) \<longleftrightarrow> set (alive_nodes d) = set (node_ids d)"
  proof
    assume "length (alive_nodes d) = length (sb_nodes d)"
    then have "card (set (alive_nodes d)) = card (set (node_ids d))"
      using distinct_card [OF alive_nodes_distinct [OF assms]] distinct_card [OF assms] by simp
    then show "set (alive_nodes d) = set (node_ids d)"
      using alive_nodes_subset by (intro card_subset_eq) auto
  next
    assume "set (alive_nodes d) = set (node_ids d)"
    then show "length (alive_nodes d) = length (sb_nodes d)"
      using distinct_card [OF alive_nodes_distinct [OF assms]] distinct_card [OF assms] by simp
  qed
  show ?thesis
  proof (cases "quorum_strategy (sb_config d) = MAJORITY")
    case True
    have "distinct (alive_nodes d @ qd_isolated_nodes (majority_quorum d))"
      using assms by (auto simp: alive_nodes_ids majority_isolated_ids)
    moreover have "length (alive_nodes d @ qd_isolated_nodes (majority_quorum d)) = length (node_ids d)"
      using sum_length_filter_compl [of "active_in d" "node_ids d"]
      by (simp add: alive_nodes_ids [OF assms] majority_isolated_ids [OF assms])
    ultimately show ?thesis using True by (simp add: validate_iff calculate_quorum_def)
  next
    case False
    then have "qd_isolated_nodes (calculate_quorum d) = []" "qd_active_nodes (calculate_quorum d) = alive_nodes d"
      by (cases "quorum_strategy (sb_config d)"; simp add: calculate_quorum_def static_quorum_def
          dynamic_quorum_def witness_based_quorum_def QuorumDecision_def Let_def)+
    with False full alive_nodes_distinct [OF assms] show ?thesis by (simp add: validate_iff)
  qed
qed

theorem quorum_decision_valid_witness:
  "\<not> validate_quorum_decision (calculate_quorum (demo_detector STATIC_QUORUM [''a'', ''b'']))
      (node_ids (demo_detector STATIC_QUORUM [''a'', ''b'']))"
proof -
  have "distinct (node_ids (demo_detector STATIC_QUORUM [''a'', ''b'']))" by (simp add: demo_defs)
  moreover have "''d'' \<in> set (node_ids (demo_detector STATIC_QUORUM [''a'', ''b'']))"
    "''d'' \<notin> set (alive_nodes (demo_detector STATIC_QUORUM [''a'', ''b'']))"
    "quorum_strategy (sb_config (demo_detector STATIC_QUORUM [''a'', ''b''])) = STATIC_QUORUM"
    by (simp_all add: demo_defs alive_nodes_def counts_active_def)
  ultimately show ?thesis using quorum_decision_valid by (metis quorum_strategy.distinct(1))
qed

section \<open>Partitions\<close>

text \<open>C27: the search for connected components of the live nodes ends with a partition of them, in
  which two nodes are together exactly when they are the same or both have been heard within two
  heartbeat timeouts. A live node that was not heard is a component of its own.\<close>

theorem live_components_correct:
  assumes "distinct (node_ids d)"
  shows "\<exists>bs. find_connected_components now d = Some bs \<and> distinct (concat bs)
    \<and> set (concat bs) = live_nodes d
    \<and> {(u, v). \<exists>b \<in> set bs. u \<in> set b \<and> v \<in> set b}
      = {(u, v). u \<in> live_nodes d \<and> v \<in> live_nodes d \<and> (u = v \<or> heard now d u \<and> heard now d v)}"
proof -
  have wf: "(\<lambda>(now, d). distinct (node_ids d)) (now, d)" using assms by simp
  from live.found_all [OF wf] obtain bs where bs: "find_connected_components now d = Some bs" by auto
  then have bs': "(\<lambda>(now, d). find_connected_components now d) (now, d) = Some bs" by simp
  have cov: "set (concat bs) = live_nodes d" using live.covers [OF wf bs'] by simp
  have "(\<exists>b \<in> set bs. u \<in> set b \<and> v \<in> set b) \<longleftrightarrow>
      u \<in> live_nodes d \<and> v \<in> live_nodes d \<and> (u = v \<or> heard now d u \<and> heard now d v)" for u v
  proof (cases "u \<in> live_nodes d")
    case True
    with live.same_block [OF wf bs', of u v] live_reach [OF True] show ?thesis by auto
  next
    case False
    with cov show ?thesis by auto
  qed
  with bs cov live.disjoint [OF wf bs'] show ?thesis by auto
qed

definition demo_parted :: detector where
  "demo_parted = (demo_detector MAJORITY [''a'', ''b'', ''c''])
     \<lparr>sb_nodes := [(''a'', demo_status [''a''] ''a''), (''b'', demo_status [''b''] ''b''),
        (''c'', (NodeStatus ''c'')\<lparr>ns_is_alive := True\<rparr>)]\<rparr>"

theorem live_components_correct_witness:
  "\<exists>bs. find_connected_components 2000000000 demo_parted = Some bs
    \<and> (\<exists>b \<in> set bs. ''a'' \<in> set b \<and> ''b'' \<in> set b) \<and> \<not> (\<exists>b \<in> set bs. ''a'' \<in> set b \<and> ''c'' \<in> set b)"
proof -
  have d: "distinct (node_ids demo_parted)" by (simp add: demo_parted_def)
  have "''a'' \<in> live_nodes demo_parted \<and> ''b'' \<in> live_nodes demo_parted
      \<and> heard 2000000000 demo_parted ''a'' \<and> heard 2000000000 demo_parted ''b''
      \<and> \<not> heard 2000000000 demo_parted ''c''"
    by (simp add: live_nodes_def node_alive_def heard_def are_nodes_connected_def demo_parted_def
        demo_defs millis_ns_def)
  moreover from live_components_correct [OF d, of 2000000000] obtain bs where
    bs: "find_connected_components 2000000000 demo_parted = Some bs" and
    same: "{(u, v). \<exists>b \<in> set bs. u \<in> set b \<and> v \<in> set b}
      = {(u, v). u \<in> live_nodes demo_parted \<and> v \<in> live_nodes demo_parted
          \<and> (u = v \<or> heard 2000000000 demo_parted u \<and> heard 2000000000 demo_parted v)}" by blast
  ultimately have "(''a'', ''b'') \<in> {(u, v). \<exists>b \<in> set bs. u \<in> set b \<and> v \<in> set b}"
    "(''a'', ''c'') \<notin> {(u, v). \<exists>b \<in> set bs. u \<in> set b \<and> v \<in> set b}"
    unfolding same by simp_all
  with bs show ?thesis by simp
qed

text \<open>Reachability among the indices of the matrix is reachability among the nodes.\<close>

abbreviation index_links :: "node_id list \<Rightarrow> (node_id \<Rightarrow> node_id \<Rightarrow> bool) \<Rightarrow> (nat \<times> nat) set" where
  "index_links nodes connected \<equiv>
     links {..<length nodes} (\<lambda>i j. calculate_connectivity_matrix nodes connected ! i ! j)"

lemma index_links_iff:
  assumes "\<And>u v. connected u v = connected v u"
  shows "(i, j) \<in> index_links nodes connected \<longleftrightarrow> i < length nodes \<and> j < length nodes
    \<and> (i = j \<or> connected (nodes ! i) (nodes ! j))"
proof (cases "i \<le> j")
  case True
  then show ?thesis by (auto simp: links_def connectivity_cell wanted_cell_def)
next
  case False
  then have "min i j = j" "max i j = i" by simp_all
  with False assms [of "nodes ! i" "nodes ! j"] show ?thesis
    by (auto simp: links_def connectivity_cell wanted_cell_def)
qed

lemma index_reach_lift:
  assumes "\<And>u v. connected u v = connected v u" and "(i, j) \<in> (index_links nodes connected)\<^sup>*"
  shows "(nodes ! i, nodes ! j) \<in> (links (set nodes) connected)\<^sup>*"
  using assms(2)
proof (induction rule: rtrancl_induct)
  case (step j k)
  then have "j = k \<or> (nodes ! j, nodes ! k) \<in> links (set nodes) connected"
    using index_links_iff [of connected, OF assms(1)] by (auto simp: links_def)
  with step.IH show ?case by auto
qed simp

lemma index_reach_lower:
  assumes "\<And>u v. connected u v = connected v u" and "i < length nodes"
    and "(nodes ! i, v) \<in> (links (set nodes) connected)\<^sup>*"
  shows "\<exists>j < length nodes. v = nodes ! j \<and> (i, j) \<in> (index_links nodes connected)\<^sup>*"
  using assms(3)
proof (induction rule: rtrancl_induct)
  case base
  then show ?case using assms(2) by auto
next
  case (step u v)
  then obtain j where j: "j < length nodes" "u = nodes ! j" "(i, j) \<in> (index_links nodes connected)\<^sup>*"
    by auto
  from step.hyps obtain k where k: "k < length nodes" "v = nodes ! k" "connected (nodes ! j) (nodes ! k)"
    using j(2) by (auto simp: links_def in_set_conv_nth)
  then have "(j, k) \<in> index_links nodes connected"
    using j(1) index_links_iff [of connected, OF assms(1)] by simp
  with j(3) have "(i, k) \<in> (index_links nodes connected)\<^sup>*" by (rule rtrancl_into_rtrancl)
  with k show ?case by blast
qed

text \<open>C28: the partitions of the matrix that \<open>calculate_connectivity_matrix\<close> builds are the connected
  components of the checker: every node is in one partition, and two nodes share it exactly
  when a chain of successful checks leads from one to the other.\<close>

theorem network_partitions_correct:
  assumes "distinct nodes" and "\<And>u v. connected u v = connected v u"
  shows "\<exists>ps. find_network_partitions nodes (calculate_connectivity_matrix nodes connected) = Some ps
    \<and> distinct (concat ps) \<and> set (concat ps) = set nodes
    \<and> {(u, v). \<exists>p \<in> set ps. u \<in> set p \<and> v \<in> set p}
      = {(u, v). u \<in> set nodes \<and> (u, v) \<in> (links (set nodes) connected)\<^sup>*}"
proof -
  from index_partitions [OF connectivity_symmetric [of nodes connected]] obtain bs where
    bs: "partition_indices (length nodes, calculate_connectivity_matrix nodes connected) = Some bs"
    "set (concat bs) = {..<length nodes}" "distinct (concat bs)" and
    reach: "\<And>b u v. b \<in> set bs \<Longrightarrow> u \<in> set b \<Longrightarrow> v \<in> set b \<longleftrightarrow> (u, v) \<in> (index_links nodes connected)\<^sup>*"
    by metis
  let ?ps = "map (map ((!) nodes)) bs"
  have c: "concat ?ps = map ((!) nodes) (concat bs)" by (simp add: map_concat)
  have "(\<exists>p \<in> set ?ps. u \<in> set p \<and> v \<in> set p) \<longleftrightarrow> u \<in> set nodes \<and> (u, v) \<in> (links (set nodes) connected)\<^sup>*"
    (is "?L \<longleftrightarrow> ?R") for u v
  proof
    assume ?L
    then obtain b i j where b: "b \<in> set bs" "i \<in> set b" "j \<in> set b" "u = nodes ! i" "v = nodes ! j"
      by auto
    with reach index_reach_lift [of connected, OF assms(2)]
    have "(u, v) \<in> (links (set nodes) connected)\<^sup>*" by blast
    moreover have "i < length nodes" using b bs(2) by auto
    ultimately show ?R using b by simp
  next
    assume ?R
    then obtain i where i: "i < length nodes" "u = nodes ! i" by (auto simp: in_set_conv_nth)
    with \<open>?R\<close> index_reach_lower [of connected, OF assms(2)] obtain j where
      "v = nodes ! j" "(i, j) \<in> (index_links nodes connected)\<^sup>*" by blast
    moreover from i bs(2) obtain b where "b \<in> set bs" "i \<in> set b" by auto
    ultimately have "j \<in> set b" using reach by blast
    with \<open>b \<in> set bs\<close> \<open>i \<in> set b\<close> \<open>v = nodes ! j\<close> i(2) show ?L by auto
  qed
  moreover have "distinct (concat ?ps)"
    unfolding c using bs(2,3) assms(1) by (simp add: distinct_map inj_on_nth)
  moreover have "set (concat ?ps) = set nodes"
    unfolding c set_map bs(2) by (auto simp: set_conv_nth)
  moreover have "find_network_partitions nodes (calculate_connectivity_matrix nodes connected) = Some ?ps"
    using bs(1) by (simp add: find_network_partitions_def)
  ultimately show ?thesis by (intro exI [of _ ?ps]) blast
qed

theorem network_partitions_correct_witness:
  "\<exists>ps. find_network_partitions demo_nodes
      (calculate_connectivity_matrix demo_nodes (\<lambda>u v. {u, v} = {''a'', ''c''})) = Some ps
    \<and> (\<exists>p \<in> set ps. ''a'' \<in> set p \<and> ''c'' \<in> set p)"
proof -
  have d: "distinct demo_nodes" by (simp add: demo_nodes_def)
  have "(''a'', ''c'') \<in> (links (set demo_nodes) (\<lambda>u v. {u, v} = {''a'', ''c''}))\<^sup>*"
    by (rule r_into_rtrancl) (simp add: links_def demo_nodes_def)
  moreover have "''a'' \<in> set demo_nodes" by (simp add: demo_nodes_def)
  ultimately show ?thesis
    using network_partitions_correct [OF d, of "\<lambda>u v. {u, v} = {''a'', ''c''}"]
    by (auto simp: insert_commute set_eq_iff)
qed

section \<open>Passes of the background threads\<close>

text \<open>C29: a pass of the detection thread that sees a split and has a majority isolates exactly the
  nodes that are not active in its decision, and keeps the vote: the same nodes are active
  afterwards and the quorum still holds.\<close>

theorem detection_isolates_minority:
  assumes "sb_wf d" and "\<not> sb_held d" and "quorum_strategy (sb_config d) = MAJORITY"
    and "detect_network_partitions now d = Some d1" and "detect_split_brain d1"
    and "qd_has_quorum (calculate_quorum d1)"
  shows "\<exists>d'. detection_pass now d = Some ((), d')
    \<and> {n \<in> set (node_ids d'). flagged_isolated d' n}
      = set (node_ids d) - set (qd_active_nodes (calculate_quorum d1))
    \<and> qd_active_nodes (calculate_quorum d') = qd_active_nodes (calculate_quorum d1)
    \<and> qd_has_quorum (calculate_quorum d')"
proof -
  note f = detect_fields [OF assms(4)]
  have wf: "sb_wf d1" using assms(4,1) by (rule detect_wf)
  have major: "calculate_quorum d1 = majority_quorum d1" using assms(3) f(3) by (simp add: calculate_quorum_def)
  have ids: "node_ids d1 = node_ids d" using f(1) by simp
  have dist: "distinct (node_ids d1)" using wf by (simp add: sb_wf_def)
  let ?min = "filter (\<lambda>n. \<not> active_in d1 n) (node_ids d1)"
  have free: "\<not> sb_held d1" using assms(2) f(5) by simp
  have "set ?min \<subseteq> set (node_ids d1)" "\<And>n. n \<in> set ?min \<Longrightarrow> \<not> active_in d1 n" by simp_all
  from isolate_each_effect [OF free this] obtain d' where d': "isolate_each ?min d1 = Some ((), d')" "node_ids d' = node_ids d1"
    "active_in d' = active_in d1" "sb_config d' = sb_config d1"
    "\<And>n. flagged_isolated d' n = (flagged_isolated d1 n \<or> n \<in> set ?min)"
    by blast
  have flag: "\<not> active_in d1 n" if "flagged_isolated d1 n" for n
    using that by (auto simp: active_in_def flagged_isolated_def split: option.splits)
  have alive: "alive_nodes d' = alive_nodes d1"
    using d'(2,3) dist by (simp add: alive_nodes_ids)
  have len: "length (sb_nodes d') = length (sb_nodes d1)"
    using arg_cong [OF d'(2), of length] by simp
  have "calculate_quorum d' = majority_quorum d'"
    using d'(4) assms(3) f(3) by (simp add: calculate_quorum_def)
  moreover have "detection_pass now d = Some ((), d')"
    using assms(4,5,6) d'(1) by (simp add: detection_pass_def major majority_isolated_ids [OF dist])
  moreover have "{n \<in> set (node_ids d'). flagged_isolated d' n} = set (node_ids d) - set (alive_nodes d1)"
    using d'(2,5) flag ids by (auto simp: alive_nodes_ids [OF dist] simp del: set_map)
  ultimately show ?thesis using alive len assms(6) major by (intro exI [of _ d']) simp
qed

text \<open>\<open>a\<close> and \<open>b\<close> are heard, \<open>c\<close> is alive and was not heard for two seconds: a minority of one.\<close>

definition demo_minority :: detector where
  "demo_minority = SplitBrainDetector_new
     \<lparr>sb_nodes := [(''a'', (NodeStatus ''a'')\<lparr>ns_is_alive := True, last_heartbeat := 2000000000\<rparr>),
        (''b'', (NodeStatus ''b'')\<lparr>ns_is_alive := True, last_heartbeat := 2000000000\<rparr>),
        (''c'', (NodeStatus ''c'')\<lparr>ns_is_alive := True, missed_heartbeats := 2\<rparr>)],
      detected_partitions := [NetworkPartition 0]\<rparr>"

definition demo_aged :: detector where
  "demo_aged = demo_minority\<lparr>sb_nodes :=
     [(''a'', (NodeStatus ''a'')\<lparr>ns_is_alive := True, last_heartbeat := 2000000000\<rparr>),
      (''b'', (NodeStatus ''b'')\<lparr>ns_is_alive := True, last_heartbeat := 2000000000\<rparr>),
      (''c'', (NodeStatus ''c'')\<lparr>missed_heartbeats := 3\<rparr>)]\<rparr>"

lemmas demo_minority_defs = demo_aged_def demo_minority_def SplitBrainDetector_new_def NodeStatus_def
  SplitBrainConfig_def NetworkPartition_def

lemma demo_minority_detect:
  "detect_network_partitions 2000000000 demo_minority = Some demo_aged"
  by (simp add: detect_network_partitions_def demo_minority_defs age_node_def millis_ns_def
      find_connected_components_def node_alive_def are_nodes_connected_def Let_def)

theorem detection_isolates_minority_witness:
  "\<exists>d'. detection_pass 2000000000 demo_minority = Some ((), d')
    \<and> {n \<in> set (node_ids d'). flagged_isolated d' n} = {''c''}"
proof -
  have start: "sb_wf demo_minority" "\<not> sb_held demo_minority"
    "quorum_strategy (sb_config demo_minority) = MAJORITY"
    by (auto simp: sb_wf_def demo_minority_defs flagged_isolated_def)
  have "alive_nodes demo_aged = [''a'', ''b'']"
    by (simp add: alive_nodes_def counts_active_def demo_minority_defs)
  then have split: "detect_split_brain demo_aged" "qd_has_quorum (calculate_quorum demo_aged)" and
    rest: "set (node_ids demo_minority) - set (qd_active_nodes (calculate_quorum demo_aged)) = {''c''}"
    by (auto simp: calculate_quorum_def detect_split_brain_def demo_minority_defs)
  from detection_isolates_minority [OF start demo_minority_detect split] show ?thesis
    unfolding rest by blast
qed

text \<open>C30: in every run the nodes stay distinct, every node that is marked as isolated is in the set
  of isolated nodes, and that set holds only nodes that the detector knows.\<close>

theorem detector_bookkeeping:
  assumes "sb_reachable d"
  shows "distinct (node_ids d) \<and> {n. flagged_isolated d n} \<subseteq> set (isolated_set d)
    \<and> set (isolated_set d) \<subseteq> set (node_ids d)"
  using sb_reachable_wf [OF assms] by (auto simp: sb_wf_def)

definition demo_rejoined :: detector where
  "demo_rejoined = SplitBrainDetector_new
     \<lparr>sb_nodes := [(''a'', (NodeStatus ''a'')\<lparr>ns_is_alive := True, last_heartbeat := 7\<rparr>)],
      isolated_set := [''a'']\<rparr>"

lemma demo_rejoined_reachable: "sb_reachable demo_rejoined"
proof -
  let ?d0 = SplitBrainDetector_new
  let ?d1 = "?d0\<lparr>sb_nodes := [(''a'', NodeStatus ''a'')]\<rparr>"
  let ?d2 = "?d0\<lparr>sb_nodes := [(''a'', (NodeStatus ''a'')\<lparr>ns_is_isolated := True, isolation_reason := ''x''\<rparr>)],
      isolated_set := [''a'']\<rparr>"
  let ?d3 = "?d0\<lparr>sb_nodes := [(''a'', NodeStatus ''a'')], isolated_set := [''a'']\<rparr>"
  have s1: "sb_step ?d0 ?d1"
    by (rule step_other [OF step_add [of "''a''" _ "()"]]) (simp add: add_node_def guarded_def sb_set_held_def set_node_def
        SplitBrainDetector_new_def)
  have s2: "sb_step ?d1 ?d2"
    by (rule step_other [OF step_isolate [of "''a''" "''x''" _ "Ok ()"]]) (simp add: isolate_node_def guarded_def
        sb_set_held_def set_node_def sb_notify_def SplitBrainDetector_new_def)
  have s3: "sb_step ?d2 ?d3"
    by (rule step_other [OF step_add [of "''a''" _ "()"]]) (simp add: add_node_def guarded_def sb_set_held_def set_node_def
        SplitBrainDetector_new_def)
  have s4: "sb_step ?d3 demo_rejoined"
    by (rule step_other [OF step_heartbeat [of "''a''" "''b''" 7 _ "()"]]) (simp add: process_heartbeat_def guarded_def
        sb_set_held_def set_node_def SplitBrainDetector_new_def demo_rejoined_def NodeStatus_def)
  show ?thesis
    unfolding sb_reachable_def
    by (rule converse_rtranclp_into_rtranclp [OF s1 converse_rtranclp_into_rtranclp [OF s2
        converse_rtranclp_into_rtranclp [OF s3 r_into_rtranclp [of sb_step, OF s4]]]])
qed

theorem detector_bookkeeping_witness:
  "set (isolated_set demo_rejoined) \<subseteq> set (node_ids demo_rejoined)"
  using detector_bookkeeping [OF demo_rejoined_reachable] by simp

text \<open>An isolated node that is added again and sends a heartbeat is at once counted as active
  and reported as isolated: \<open>add_node\<close> clears the mark and not the set.\<close>

theorem readded_node_active_and_isolated:
  "sb_reachable demo_rejoined \<and> ''a'' \<in> set (qd_active_nodes (calculate_quorum demo_rejoined))
   \<and> map_option fst (is_node_isolated ''a'' demo_rejoined) = Some True"
  using demo_rejoined_reachable
  by (simp add: demo_rejoined_def SplitBrainDetector_new_def SplitBrainConfig_def NodeStatus_def
      calculate_quorum_def alive_nodes_def counts_active_def is_node_isolated_def guarded_def sb_set_held_def)

text \<open>C31: whatever else happens, as long as nobody calls \<open>force_merge_partitions\<close>, every partition that
  was recorded stays in the list at its place, with its sides and the time of its detection; it can
  only be marked as resolved, and nothing marks it open again. So every later pass of the detection
  thread goes on as in a split, also when all are resolved. \<open>force_merge_partitions\<close> empties the list
  and sets the status to \<open>HEALTHY\<close>.\<close>

theorem split_brain_sticks:
  assumes "unmerged_step\<^sup>*\<^sup>* d d'"
  shows "length (detected_partitions d) \<le> length (detected_partitions d')
    \<and> (\<forall>i < length (detected_partitions d).
        let p = detected_partitions d ! i; q = detected_partitions d' ! i
        in partition_a q = partition_a p \<and> partition_b q = partition_b p
          \<and> detected_at q = detected_at p \<and> (resolved p \<longrightarrow> q = p))
    \<and> (detect_split_brain d \<longrightarrow> (\<forall>now d2. detect_network_partitions now d' = Some d2 \<longrightarrow> detect_split_brain d2))
    \<and> (\<not> sb_held d' \<longrightarrow> (\<exists>d2. force_merge_partitions d' = Some (Ok (), d2)
        \<and> detected_partitions d2 = [] \<and> sb_status d2 = HEALTHY))"
proof -
  from assms have k: "keeps_splits (detected_partitions d) (detected_partitions d')"
    by (induction rule: rtranclp_induct) (auto intro: keeps_splits_trans unmerged_step_partitions)
  have "detect_split_brain d2" if "detect_split_brain d" "detect_network_partitions now d' = Some d2" for now d2
    using detect_fields(6) [OF that(2)] that(1) k
    by (auto simp: detect_split_brain_def keeps_splits_def)
  moreover have "\<exists>d2. force_merge_partitions d' = Some (Ok (), d2) \<and> detected_partitions d2 = []
      \<and> sb_status d2 = HEALTHY" if "\<not> sb_held d'"
  proof -
    have "list_all resolved (fst (resolve_all ps e))" for ps e
      by (induction ps arbitrary: e) (simp_all add: Let_def split_beta)
    then have "filter (\<lambda>p. \<not> resolved p) (fst (resolve_all ps e)) = []" for ps e
      by (simp add: filter_empty_conv list_all_iff)
    with that show ?thesis by (simp add: force_merge_partitions_def guarded_def Let_def split_beta)
  qed
  ultimately show ?thesis using k by (simp add: keeps_splits_def keeps_split_def Let_def)
qed

text \<open>\<open>a\<close> and \<open>b\<close> are heard and \<open>c\<close> is not: the pass of the detection thread records the split. Then \<open>c\<close> is
  heard again and the recovery thread marks the partition as resolved.\<close>

definition demo_split :: detector where
  "demo_split = SplitBrainDetector_new
     \<lparr>sb_nodes := [(''a'', (NodeStatus ''a'')\<lparr>ns_is_alive := True, last_heartbeat := 2000000000\<rparr>),
        (''b'', (NodeStatus ''b'')\<lparr>ns_is_alive := True, last_heartbeat := 2000000000\<rparr>),
        (''c'', (NodeStatus ''c'')\<lparr>ns_is_alive := True, missed_heartbeats := 1\<rparr>)],
      detected_partitions :=
        [(NetworkPartition 2000000000)\<lparr>partition_a := [''a'', ''b''], partition_b := [''c'']\<rparr>]\<rparr>"

definition demo_resolved :: detector where
  "demo_resolved = demo_split\<lparr>sb_nodes := AList.update ''c''
       ((NodeStatus ''c'')\<lparr>ns_is_alive := True, last_heartbeat := 2000000000\<rparr>) (sb_nodes demo_split),
     detected_partitions := [(NetworkPartition 2000000000)\<lparr>partition_a := [''a'', ''b''],
       partition_b := [''c''], resolved := True, p_duration := Some 500\<rparr>]\<rparr>"

lemmas demo_split_defs = demo_split_def SplitBrainDetector_new_def NodeStatus_def NetworkPartition_def
  SplitBrainConfig_def

lemma demo_split_detected:
  "\<exists>d. detected_partitions d = [] \<and> detection_pass 2000000000 d = Some ((), demo_split)"
proof (rule exI, rule conjI)
  let ?d = "demo_split\<lparr>sb_nodes := AList.update ''c'' ((NodeStatus ''c'')\<lparr>ns_is_alive := True\<rparr>) (sb_nodes demo_split),
    detected_partitions := []\<rparr>"
  show "detected_partitions ?d = []" by simp
  show "detection_pass 2000000000 ?d = Some ((), demo_split)"
    by (simp add: detection_pass_def detect_network_partitions_def demo_split_defs age_node_def millis_ns_def
        find_connected_components_def node_alive_def are_nodes_connected_def record_partition_def
        sb_notify_def detect_split_brain_def calculate_quorum_def majority_quorum_def alive_nodes_def
        counts_active_def QuorumDecision_def word_le_nat_alt Let_def)
qed

lemma demo_split_run: "unmerged_step\<^sup>*\<^sup>* demo_split demo_resolved"
proof (rule rtranclp.rtrancl_into_rtrancl [OF rtranclp.rtrancl_into_rtrancl [OF rtranclp.rtrancl_refl]])
  let ?heard = "demo_resolved\<lparr>detected_partitions := detected_partitions demo_split\<rparr>"
  show "unmerged_step demo_split ?heard"
    by (rule step_heartbeat [of "''c''" "''a''" 2000000000 _ "()"])
      (simp add: process_heartbeat_def guarded_def sb_set_held_def set_node_def demo_resolved_def demo_split_defs)
  show "unmerged_step ?heard demo_resolved"
    by (rule step_recovery_finish [of 2500000000 _ "()"])
      (simp add: recovery_finish_def update_partition_status_def demo_resolved_def demo_split_defs
        are_nodes_connected_def millis_ns_def sb_notify_def Let_def)
qed

theorem split_brain_sticks_witness:
  "(\<exists>d. detected_partitions d = [] \<and> detection_pass 2000000000 d = Some ((), demo_split))
   \<and> list_all resolved (detected_partitions demo_resolved)
   \<and> partition_b (detected_partitions demo_resolved ! 0) = [''c'']
   \<and> (\<exists>d2. detect_network_partitions 2500000000 demo_resolved = Some d2 \<and> detect_split_brain d2)"
proof -
  obtain d2 where d2: "detect_network_partitions 2500000000 demo_resolved = Some d2"
    by (simp add: detect_network_partitions_def demo_resolved_def demo_split_defs age_node_def millis_ns_def
        find_connected_components_def node_alive_def are_nodes_connected_def Let_def)
  have "detect_split_brain demo_split" by (simp add: detect_split_brain_def demo_split_def)
  moreover have "partition_b (detected_partitions demo_split ! 0) = [''c'']"
    "length (detected_partitions demo_split) = 1" by (simp_all add: demo_split_def)
  moreover have "list_all resolved (detected_partitions demo_resolved)" by (simp add: demo_resolved_def)
  ultimately show ?thesis
    using split_brain_sticks [OF demo_split_run] demo_split_detected d2 by (auto simp: Let_def)
qed

lemma connected_notify [simp]: "are_nodes_connected now (sb_notify e d) = are_nodes_connected now d"
  by (simp add: are_nodes_connected_def fun_eq_iff cong: option.case_cong)

definition healed :: "time_point \<Rightarrow> detector \<Rightarrow> network_partition \<Rightarrow> bool" where
  "healed now d p \<longleftrightarrow> resolved p
     \<or> (\<exists>a \<in> set (partition_a p). \<exists>b \<in> set (partition_b p). are_nodes_connected now d a b)"

lemma healed_notify [simp]: "healed now (sb_notify e d) = healed now d"
  by (simp add: healed_def fun_eq_iff)

lemma update_partitions_healed:
  "list_all (healed now d) ps \<Longrightarrow> list_all resolved (fst (update_partitions now ps d))
    \<and> sb_config (snd (update_partitions now ps d)) = sb_config d"
proof (induction ps arbitrary: d)
  case (Cons p ps)
  then have "healed now d p" "list_all (healed now d) ps" by simp_all
  with Cons.IH [of d] Cons.IH [of "sb_notify e d" for e] show ?case
    by (simp add: healed_def [of now d p] Let_def split_beta) blast
qed simp

lemma quorum_cong:
  "sb_nodes d' = sb_nodes d \<Longrightarrow> sb_config d' = sb_config d \<Longrightarrow> calculate_quorum d' = calculate_quorum d"
  by (cases "quorum_strategy (sb_config d)")
    (simp_all add: calculate_quorum_def majority_quorum_def static_quorum_def dynamic_quorum_def
      witness_based_quorum_def alive_nodes_def Let_def)

text \<open>Once every partition has two nodes across it that are heard again, the recovery thread
  sets the status to \<open>HEALTHY\<close> and reports the quorum restored without looking at the quorum;
  a later pass of the detection thread that finds none confirms the split brain again.\<close>

theorem recovery_ignores_quorum:
  assumes "detected_partitions d \<noteq> []" and "list_all (healed now d) (detected_partitions d)"
  shows "\<exists>d'. recovery_finish now d = Some ((), d') \<and> sb_status d' = HEALTHY
    \<and> calculate_quorum d' = calculate_quorum d
    \<and> (\<forall>later d2. detect_network_partitions later d' = Some d2 \<longrightarrow> \<not> qd_has_quorum (calculate_quorum d2) \<longrightarrow>
        map_option (sb_status \<circ> snd) (detection_pass later d') = Some CONFIRMED)"
proof -
  let ?u = "update_partitions now (detected_partitions d) d"
  let ?d = "sb_notify QuorumRestored
    ((snd ?u)\<lparr>detected_partitions := fst ?u, sb_status := HEALTHY\<rparr>)"
  note healed = update_partitions_healed [OF assms(2)]
  have same: "sb_nodes ?d = sb_nodes d" "sb_config ?d = sb_config d"
    using update_partitions_fields healed by simp_all
  have "fst ?u \<noteq> []" by (metis assms(1) length_0_conv update_partitions_length)
  then have nonempty: "detected_partitions ?d \<noteq> []" by simp
  have "recovery_finish now d = Some ((), ?d)"
    using healed by (simp add: recovery_finish_def update_partition_status_def Let_def split_beta)
  moreover have "map_option (sb_status \<circ> snd) (detection_pass later ?d) = Some CONFIRMED"
    if "detect_network_partitions later ?d = Some d2" "\<not> qd_has_quorum (calculate_quorum d2)" for later d2
  proof -
    have "detect_split_brain d2"
      using detect_fields(6) [OF that(1)] nonempty by (auto simp: detect_split_brain_def)
    with that show ?thesis by (simp add: detection_pass_def Let_def)
  qed
  ultimately show ?thesis using quorum_cong [OF same] by (intro exI [of _ ?d]) simp
qed

definition demo_healed :: detector where
  "demo_healed = demo_minority\<lparr>detected_partitions :=
     [(NetworkPartition 0)\<lparr>partition_a := [''a''], partition_b := [''b'']\<rparr>]\<rparr>"

theorem recovery_ignores_quorum_witness:
  "map_option (sb_status \<circ> snd) (recovery_finish 2000000000 demo_healed) = Some HEALTHY"
proof -
  have "detected_partitions demo_healed \<noteq> []"
    "list_all (healed 2000000000 demo_healed) (detected_partitions demo_healed)"
    by (simp_all add: demo_healed_def healed_def demo_minority_defs are_nodes_connected_def millis_ns_def)
  from recovery_ignores_quorum [OF this] show ?thesis by auto
qed

end
