(* ===== verification/Hybrid_Clock.thy ===== *)
theory Hybrid_Clock
  imports Common_Types Text_Numbers
begin

text \<open>
  \<open>HybridLogicalClock\<close> (\<open>include/cache/time/time_sync.h\<close>, \<open>src/time/time_sync.cpp\<close>): a pair of
  a physical and a logical time with its order and its text form, and the contract of a
  source of timestamps that never runs backwards.
\<close>

datatype hlc = HLC (physical_time: time_point) (logical_time: u64)

definition HybridLogicalClock :: "time_point \<Rightarrow> hlc" where
  "HybridLogicalClock now = HLC now 0"

definition hlc_less :: "hlc \<Rightarrow> hlc \<Rightarrow> bool" where
  "hlc_less a b =
     (if physical_time a \<noteq> physical_time b then physical_time a < physical_time b
      else logical_time a < logical_time b)"

definition hlc_less_eq :: "hlc \<Rightarrow> hlc \<Rightarrow> bool" where
  "hlc_less_eq a b = (hlc_less a b \<or> a = b)"

instantiation hlc :: linorder
begin

definition less_hlc :: "hlc \<Rightarrow> hlc \<Rightarrow> bool" where
  "less_hlc = hlc_less"

definition less_eq_hlc :: "hlc \<Rightarrow> hlc \<Rightarrow> bool" where
  "less_eq_hlc = hlc_less_eq"

instance
proof
  fix a b c :: hlc
  show "(a < b) = (a \<le> b \<and> \<not> b \<le> a)" "a \<le> a"
    by (auto simp: less_hlc_def hlc_less_def less_eq_hlc_def hlc_less_eq_def split: if_splits)
  show "a \<le> b \<Longrightarrow> b \<le> c \<Longrightarrow> a \<le> c" "a \<le> b \<Longrightarrow> b \<le> a \<Longrightarrow> a = b"
    by (auto simp: less_hlc_def hlc_less_def less_eq_hlc_def hlc_less_eq_def split: if_splits)
  show "a \<le> b \<or> b \<le> a"
    by (cases a; cases b) (auto simp: less_hlc_def hlc_less_def less_eq_hlc_def hlc_less_eq_def)
qed

end

lemma hlc_less [simp]: "HLC p l < HLC p' l' \<longleftrightarrow> p < p' \<or> p = p' \<and> l < l'"
  by (auto simp: less_hlc_def hlc_less_def)

text \<open>\<open>operator>=\<close> is the negation of \<open>operator<\<close>.\<close>

lemma hlc_ge_iff: "(b :: hlc) \<le> a \<longleftrightarrow> \<not> a < b"
  by auto

section \<open>Text form\<close>

text \<open>
  \<open>std::put_time\<close> with \<open>std::gmtime\<close> (\<open>fmt\<close>, on the seconds of \<open>to_time_t\<close>) and
  \<open>std::get_time\<close> with \<open>std::mktime\<close> (\<open>parse\<close>) are parameters: the first works in UTC, the
  second in the local time zone. \<open>None\<close> is the exception of \<open>std::stoull\<close>.
\<close>

definition to_time_t :: "time_point \<Rightarrow> int" where
  "to_time_t t = cxx_div t 1000000000"

definition from_time_t :: "int \<Rightarrow> time_point" where
  "from_time_t secs = secs * 1000000000"

definition hlc_to_string :: "(int \<Rightarrow> string) \<Rightarrow> hlc \<Rightarrow> string" where
  "hlc_to_string fmt c = fmt (to_time_t (physical_time c)) @ ''_'' @ to_string (unat (logical_time c))"

text \<open>The text before and after the last underscore.\<close>

definition split_last_underscore :: "string \<Rightarrow> (string \<times> string) option" where
  "split_last_underscore s =
     (let after = rev (takeWhile (\<lambda>c. c \<noteq> CHR ''_'') (rev s))
      in if length after = length s then None
         else Some (take (length s - length after - 1) s, after))"

definition hlc_from_string :: "(string \<Rightarrow> int) \<Rightarrow> time_point \<Rightarrow> string \<Rightarrow> hlc option" where
  "hlc_from_string parse now s =
     (case split_last_underscore s of
        None \<Rightarrow> Some (HybridLogicalClock now)
      | Some (time_str, logical_str) \<Rightarrow>
          do { l \<leftarrow> stoull logical_str; Some (HLC (from_time_t (parse time_str)) l) })"

lemma split_last_underscore_append:
  assumes "CHR ''_'' \<notin> set after"
  shows "split_last_underscore (before @ CHR ''_'' # after) = Some (before, after)"
proof -
  have "takeWhile (\<lambda>c. c \<noteq> CHR ''_'') (rev (before @ CHR ''_'' # after)) = rev after"
    using assms by (simp add: takeWhile_append)
  then show ?thesis by (simp add: split_last_underscore_def Let_def)
qed

lemma hlc_text:
  "hlc_from_string parse now (hlc_to_string fmt (HLC p l))
    = Some (HLC (from_time_t (parse (fmt (to_time_t p)))) l)"
proof -
  have "CHR ''_'' \<notin> set (to_string (unat l))" using to_string_digits by blast
  moreover have "stoull (to_string (unat l)) = Some l"
    using stoull_to_string [of "unat l"] unsigned_less [of l, where ?'a = nat] by simp
  ultimately show ?thesis
    by (simp add: hlc_from_string_def hlc_to_string_def split_last_underscore_append)
qed

section \<open>Sources of timestamps\<close>

text \<open>
  What a caller relies on: a timestamp is later than every timestamp before it. \<open>input\<close> is what
  a call reads (the clock), \<open>room n s\<close> says that the logical counter can be incremented \<open>n\<close>
  times before it wraps.
\<close>

locale stamp_source =
  fixes give :: "'i \<Rightarrow> 's \<Rightarrow> ('a :: linorder \<times> 's) option" and latest :: "'s \<Rightarrow> 'a"
    and room :: "nat \<Rightarrow> 's \<Rightarrow> bool"
  assumes later: "give i s = Some (t, s') \<Longrightarrow> room (Suc n) s \<Longrightarrow> latest s < t \<and> latest s' = t \<and> room n s'"

fun stamps :: "('i \<Rightarrow> 's \<Rightarrow> ('a \<times> 's) option) \<Rightarrow> 'i list \<Rightarrow> 's \<Rightarrow> ('a list \<times> 's) option" where
  "stamps give [] s = Some ([], s)"
| "stamps give (i # is) s =
     do { (t, s) \<leftarrow> give i s; (ts, s) \<leftarrow> stamps give is s; Some (t # ts, s) }"

context stamp_source
begin

lemma increasing:
  "stamps give is s = Some (ts, s') \<Longrightarrow> room (length is) s \<Longrightarrow>
   sorted_wrt (<) (latest s # ts) \<and> latest s' = last (latest s # ts)"
proof (induction "is" arbitrary: s ts)
  case (Cons i "is")
  from Cons.prems(1) obtain t s1 ts' where
    g: "give i s = Some (t, s1)" "stamps give is s1 = Some (ts', s')" "ts = t # ts'"
    by (auto simp: bind_eq_Some_conv)
  with later [OF g(1), of "length is"] Cons.prems(2)
  have t: "latest s < t" "latest s1 = t" "room (length is) s1" by simp_all
  from Cons.IH [OF g(2) t(3)] t g(3) show ?case by (auto intro: less_trans)
qed simp

end

end
