(* ===== verification/Time_Sync.thy ===== *)
theory Time_Sync
  imports Complex_Main Hybrid_Clock
begin

text \<open>
  \<open>DefaultTimeService\<close>, \<open>TimestampOrdering\<close> and \<open>time_utils\<close> (\<open>src/time/time_sync.cpp\<close>): clock
  offsets of the other nodes, the hybrid logical clock, the two synchronisation threads, and
  the source of transaction timestamps.

  Every reading of a clock is an argument. A \<open>double\<close> is a real number, so rounding is not
  modelled; \<open>static_cast<int64_t>\<close> cuts the fraction off. Counts of milliseconds are unbounded.
  The value of \<open>std::rand\<close> is an argument of the simulated NTP query. The event handler is code
  of the client; the model records the calls to it.

  The mutex is a \<open>std::shared_mutex\<close>: a method that calls another locking method while it holds it
  ends with an exception (\<open>relock\<close>, \<open>attempt\<close>). Where the code runs without the mutex, other calls
  come between; an operation with such a place has an argument \<open>interleaving\<close>, what the other
  threads do to the object there.
\<close>

type_synonym 's interleaving = "'s \<Rightarrow> 's"

definition cut :: "real \<Rightarrow> int" where
  "cut x = (if 0 \<le> x then \<lfloor>x\<rfloor> else \<lceil>x\<rceil>)"

definition to_millis :: "int \<Rightarrow> millis" where
  "to_millis ns = cxx_div ns 1000000"

section \<open>Data\<close>

datatype sync_message_type = TIME_REQUEST | TIME_RESPONSE | OFFSET_UPDATE | SYNC_HEARTBEAT

record sync_message =
  sm_type :: sync_message_type
  sm_from :: node_id
  sm_to :: node_id
  send_time :: time_point
  receive_time :: time_point
  response_time :: time_point
  estimated_offset :: millis
  round_trip_time :: millis

record offset_info =
  oi_node :: node_id
  oi_offset :: millis
  oi_uncertainty :: millis
  last_sync :: time_point
  sync_count :: u32
  confidence :: real

definition ClockOffsetInfo :: "time_point \<Rightarrow> offset_info" where
  "ClockOffsetInfo now = \<lparr>oi_node = [], oi_offset = 0, oi_uncertainty = 0, last_sync = now,
     sync_count = 0, confidence = 0\<rparr>"

definition offset_is_expired :: "time_point \<Rightarrow> millis \<Rightarrow> offset_info \<Rightarrow> bool" where
  "offset_is_expired now max_age info = (now - last_sync info > millis_ns max_age)"

record time_config =
  sync_interval :: millis
  max_clock_drift :: millis
  sync_timeout :: millis
  min_samples :: u32
  enable_ntp_sync :: bool
  ntp_servers :: "string list"
  ntp_sync_interval :: millis
  offset_filter_alpha :: real
  max_offset_age :: millis
  enable_hybrid_logical_clock :: bool

definition TimeSyncConfig :: time_config where
  "TimeSyncConfig = \<lparr>sync_interval = 5000, max_clock_drift = 100, sync_timeout = 1000,
     min_samples = 3, enable_ntp_sync = False, ntp_servers = [''pool.ntp.org'', ''time.google.com''],
     ntp_sync_interval = 300000, offset_filter_alpha = 0.125, max_offset_age = 60000,
     enable_hybrid_logical_clock = True\<rparr>"

datatype time_event =
    DriftDetected node_id millis | SyncCompleted node_id millis | SyncFailed node_id string
  | NtpCompleted millis

record time_service =
  ts_config :: time_config
  ts_handler :: bool
  ts_events :: "time_event list"
  node_offsets :: "(node_id \<times> offset_info) list"
  sync_nodes :: "node_id list"
  local_offset :: millis
  logical_counter :: u64
  last_physical_time :: time_point
  ts_is_running :: bool
  ts_stop_threads :: bool
  sync_attempts :: u64
  sync_successes :: u64
  sync_failures :: u64
  ts_held :: bool

definition TimeService_new :: "time_point \<Rightarrow> time_service" where
  "TimeService_new now = \<lparr>ts_config = TimeSyncConfig, ts_handler = False, ts_events = [],
     node_offsets = [], sync_nodes = [], local_offset = 0, logical_counter = 0,
     last_physical_time = now, ts_is_running = False, ts_stop_threads = False, sync_attempts = 0,
     sync_successes = 0, sync_failures = 0, ts_held = False\<rparr>"

definition ts_set_held :: "bool \<Rightarrow> time_service \<Rightarrow> time_service" where
  "ts_set_held b s = s\<lparr>ts_held := b\<rparr>"

interpretation ts_mx: mutex_class ts_held ts_set_held
  by unfold_locales (auto simp: ts_set_held_def)

abbreviation ts_locked :: "(time_service, 'a) op \<Rightarrow> (time_service, 'a) op" where
  "ts_locked \<equiv> guarded ts_held ts_set_held"

definition ts_notify :: "time_event \<Rightarrow> time_service \<Rightarrow> time_service" where
  "ts_notify e s = (if ts_handler s then s\<lparr>ts_events := ts_events s @ [e]\<rparr> else s)"

abbreviation offset_of :: "time_service \<Rightarrow> node_id \<Rightarrow> offset_info option" where
  "offset_of s \<equiv> map_of (node_offsets s)"

definition set_offset_info :: "node_id \<Rightarrow> offset_info \<Rightarrow> time_service \<Rightarrow> time_service" where
  "set_offset_info n info s = s\<lparr>node_offsets := AList.update n info (node_offsets s)\<rparr>"

section \<open>Life cycle, nodes, configuration\<close>

definition ts_start :: "time_config \<Rightarrow> (time_service, unit result) op" where
  "ts_start config = ts_locked (\<lambda>s.
     if ts_is_running s then Some (Ok (), s)
     else Some (Ok (), s\<lparr>ts_config := config, ts_stop_threads := False, ts_is_running := True\<rparr>))"

text \<open>
  \<open>stop\<close> joins the threads while it holds the mutex; if the synchronisation thread is waiting for
  the mutex at that moment (\<open>sync_waiting\<close>), neither goes on.
\<close>

definition ts_stop :: "bool \<Rightarrow> (time_service, unit result) op" where
  "ts_stop sync_waiting = ts_locked (\<lambda>s.
     if \<not> ts_is_running s then Some (Ok (), s)
     else if sync_waiting then None
     else Some (Ok (), s\<lparr>ts_stop_threads := True, ts_is_running := False\<rparr>))"

definition ts_delete :: "bool \<Rightarrow> (time_service, unit) op" where
  "ts_delete sync_waiting = destructor ts_is_running (ts_stop sync_waiting)"

definition ts_add_node :: "node_id \<Rightarrow> (time_service, unit) op" where
  "ts_add_node n = ts_locked (\<lambda>s. Some ((), s\<lparr>sync_nodes := List.insert n (sync_nodes s)\<rparr>))"

definition ts_remove_node :: "node_id \<Rightarrow> (time_service, unit) op" where
  "ts_remove_node n = ts_locked (\<lambda>s. Some ((), s\<lparr>sync_nodes := removeAll n (sync_nodes s),
     node_offsets := AList.delete n (node_offsets s)\<rparr>))"

definition get_sync_nodes :: "(time_service, node_id list) op" where
  "get_sync_nodes = ts_locked (\<lambda>s. Some (sync_nodes s, s))"

definition ts_set_event_handler :: "bool \<Rightarrow> (time_service, unit) op" where
  "ts_set_event_handler present = ts_locked (\<lambda>s. Some ((), s\<lparr>ts_handler := present\<rparr>))"

definition ts_update_config :: "time_config \<Rightarrow> (time_service, unit) op" where
  "ts_update_config config = ts_locked (\<lambda>s. Some ((), s\<lparr>ts_config := config\<rparr>))"

definition ts_get_config :: "(time_service, time_config) op" where
  "ts_get_config = ts_locked (\<lambda>s. Some (ts_config s, s))"

section \<open>The hybrid logical clock\<close>

definition now_synchronized :: "time_point \<Rightarrow> time_service \<Rightarrow> time_point" where
  "now_synchronized now s = now + millis_ns (local_offset s)"

definition increment_logical_clock :: "time_point \<Rightarrow> time_service \<Rightarrow> hlc \<times> time_service" where
  "increment_logical_clock now s =
     (let current = now_synchronized now s;
          r = (if current > last_physical_time s then HLC current 0
               else HLC (last_physical_time s) (logical_counter s + 1))
      in (r, s\<lparr>logical_counter := logical_time r, last_physical_time := physical_time r\<rparr>))"

definition update_logical_clock_from_physical :: "time_point \<Rightarrow> time_service \<Rightarrow> time_service" where
  "update_logical_clock_from_physical now s =
     (let current = now_synchronized now s
      in if current > last_physical_time s
         then s\<lparr>last_physical_time := current, logical_counter := 0\<rparr> else s)"

definition now_logical :: "time_point \<Rightarrow> (time_service, hlc) op" where
  "now_logical now = ts_locked (\<lambda>s.
     if enable_hybrid_logical_clock (ts_config s) then Some (increment_logical_clock now s)
     else Some (HLC (now_synchronized now s) 0, s))"

definition update_logical_clock :: "time_point \<Rightarrow> hlc \<Rightarrow> (time_service, hlc attempt) op" where
  "update_logical_clock now received = ts_locked (\<lambda>s.
     if \<not> enable_hybrid_logical_clock (ts_config s) then relock ts_held (returning (now_logical now)) s
     else
       let current = now_synchronized now s;
           logical = logical_counter s;
           r = (if current > physical_time received
                then HLC current (max logical (logical_time received) + 1)
                else if current = physical_time received
                then HLC current (max logical (logical_time received) + 1)
                else HLC (if to_millis (physical_time received - current) > max_clock_drift (ts_config s)
                          then current else physical_time received)
                       (logical_time received + 1))
       in Some (Returns r, s\<lparr>logical_counter := logical_time r, last_physical_time := physical_time r\<rparr>))"

section \<open>Offsets\<close>

definition get_offset :: "node_id \<Rightarrow> (time_service, millis) op" where
  "get_offset n = ts_locked (\<lambda>s.
     Some (case offset_of s n of Some info \<Rightarrow> oi_offset info | None \<Rightarrow> 0, s))"

definition set_offset :: "time_point \<Rightarrow> node_id \<Rightarrow> millis \<Rightarrow> (time_service, unit result) op" where
  "set_offset now n offset = ts_locked (\<lambda>s.
     let info = (case offset_of s n of
           Some info \<Rightarrow> info\<lparr>oi_offset := offset, last_sync := now, sync_count := sync_count info + 1\<rparr>
         | None \<Rightarrow> (ClockOffsetInfo now)\<lparr>oi_node := n, oi_offset := offset, last_sync := now,
             sync_count := 1\<rparr>)
     in Some (Ok (), set_offset_info n info s))"

definition get_all_offsets :: "(time_service, offset_info list) op" where
  "get_all_offsets = ts_locked (\<lambda>s. Some (map snd (node_offsets s), s))"

definition filter_offset :: "real \<Rightarrow> millis \<Rightarrow> millis \<Rightarrow> millis" where
  "filter_offset alpha current sample = cut ((1 - alpha) * of_int current + alpha * of_int sample)"

definition update_offset_with_sample ::
    "time_point \<Rightarrow> node_id \<Rightarrow> millis \<Rightarrow> millis \<Rightarrow> (time_service, unit) op" where
  "update_offset_with_sample now n sample uncertainty = ts_locked (\<lambda>s.
     let info = (case offset_of s n of
           Some info \<Rightarrow> info\<lparr>oi_offset := filter_offset (offset_filter_alpha (ts_config s)) (oi_offset info) sample,
               oi_uncertainty := uncertainty, last_sync := now, sync_count := sync_count info + 1,
               confidence := min 1 (of_nat (unat (sync_count info + 1)) / 10)\<rparr>
         | None \<Rightarrow> (ClockOffsetInfo now)\<lparr>oi_node := n, oi_offset := sample, oi_uncertainty := uncertainty,
             last_sync := now, sync_count := 1, confidence := 0.1\<rparr>)
     in Some ((), set_offset_info n info s))"

text \<open>
  \<open>measure_offset_with_node\<close> sends nothing: it sleeps and computes with its own readings, before
  the sleep (\<open>t0\<close>), after it (\<open>t1\<close>) and at the end (\<open>t2\<close>).
\<close>

definition measure_offset_with_node :: "time_point \<Rightarrow> time_point \<Rightarrow> time_point \<Rightarrow> millis result" where
  "measure_offset_with_node t0 t1 t2 =
     (let received = t0 + millis_ns 5;
          rtt = t1 - t0;
          remote = received + cxx_div rtt 2
      in Ok (to_millis (remote - t2)))"

text \<open>
  \<open>sync_with_node\<close> takes the mutex only to enter the sample. The attempt is counted before the
  measurement sleeps, the success after the mutex is free again, and other calls run in both places:
  during the sleep (\<open>sleep_window\<close>) and before the success is counted (\<open>count_window\<close>).
\<close>

definition sync_begin :: "time_service \<Rightarrow> time_service" where
  "sync_begin s = s\<lparr>sync_attempts := sync_attempts s + 1\<rparr>"

definition sync_success :: "node_id \<Rightarrow> millis \<Rightarrow> time_service \<Rightarrow> time_service" where
  "sync_success n offset s =
     ts_notify (SyncCompleted n offset) (s\<lparr>sync_successes := sync_successes s + 1\<rparr>)"

record sync_conditions =
  sleep_window :: "time_service interleaving"
  count_window :: "time_service interleaving"
  sync_clock :: "time_point \<times> time_point \<times> time_point \<times> time_point"

definition sync_with_node :: "sync_conditions \<Rightarrow> node_id \<Rightarrow> (time_service, unit result) op" where
  "sync_with_node env n s =
     (let (t0, t1, t2, t3) = sync_clock env;
          s = sleep_window env (sync_begin s)
      in case measure_offset_with_node t0 t1 t2 of
           Error st m \<Rightarrow> Some (Error st m, s\<lparr>sync_failures := sync_failures s + 1\<rparr>)
         | Ok offset \<Rightarrow>
             do { (_, s) \<leftarrow> update_offset_with_sample t3 n offset 50 s;
                  Some (Ok (), sync_success n offset (count_window env s)) })"

definition query_ntp_server :: "nat \<Rightarrow> string \<Rightarrow> millis result" where
  "query_ntp_server random server = Ok (int (random mod 100) - 50)"

definition sync_with_ntp_server :: "nat \<Rightarrow> string \<Rightarrow> time_service \<Rightarrow> millis result \<times> time_service" where
  "sync_with_ntp_server random server s =
     (case query_ntp_server random server of
        Error st m \<Rightarrow> (Error st m, s)
      | Ok v \<Rightarrow> (Ok v, s\<lparr>local_offset := filter_offset (offset_filter_alpha (ts_config s)) (local_offset s) v\<rparr>))"

fun try_ntp_servers :: "nat \<Rightarrow> string list \<Rightarrow> time_service \<Rightarrow> unit result \<times> time_service" where
  "try_ntp_servers random [] s = (Error NETWORK_ERROR ''Failed to sync with any NTP server'', s)"
| "try_ntp_servers random (server # servers) s =
     (case sync_with_ntp_server random server s of
        (Ok v, s) \<Rightarrow> (Ok (), ts_notify (NtpCompleted v) s)
      | (Error _ _, s) \<Rightarrow> try_ntp_servers random servers s)"

definition sync_with_ntp :: "nat \<Rightarrow> time_service \<Rightarrow> unit result \<times> time_service" where
  "sync_with_ntp random s =
     (if \<not> enable_ntp_sync (ts_config s) \<or> ntp_servers (ts_config s) = []
      then (Error INVALID_ARGUMENT ''NTP sync is not enabled or no servers configured'', s)
      else try_ntp_servers random (ntp_servers (ts_config s)) s)"

section \<open>Statistics\<close>

definition mean_of :: "int list \<Rightarrow> real" where
  "mean_of xs = of_int (sum_list xs) / of_nat (length xs)"

definition sample_variance :: "int list \<Rightarrow> real" where
  "sample_variance xs =
     sum_list (map (\<lambda>x. (of_int x - mean_of xs) * (of_int x - mean_of xs)) xs) / of_nat (length xs - 1)"

definition get_estimated_uncertainty :: "(time_service, millis) op" where
  "get_estimated_uncertainty = ts_locked (\<lambda>s.
     let offsets = map (oi_offset \<circ> snd) (node_offsets s)
     in Some (if node_offsets s = [] then 1000
              else if length offsets < 2 then 100
              else cut (sqrt (sample_variance offsets)), s))"

text \<open>
  \<open>get_sync_quality\<close> reads the offsets under the mutex, then one counter, then the other, without it;
  \<open>w1\<close> and \<open>w2\<close> are what comes between the three.
\<close>

definition get_sync_quality ::
    "time_service interleaving \<Rightarrow> time_service interleaving \<Rightarrow> (time_service, real) op" where
  "get_sync_quality w1 w2 s =
     do { (uncertainty, s) \<leftarrow> get_estimated_uncertainty s;
          let s = w1 s;
          let attempts = sync_attempts s;
          let s = w2 s;
          let successes = sync_successes s;
          Some (if attempts = 0 then 0
                else (of_nat (unat successes) / of_nat (unat attempts))
                     * (1 / (1 + of_int uncertainty / 100)), s) }"

text \<open>\<open>calculate_median_offset\<close>, whose steps \<open>berkeley_algorithm\<close> repeats.\<close>

definition middle_offset :: "millis list \<Rightarrow> millis" where
  "middle_offset sorted_offsets =
     (let n = length sorted_offsets
      in if n mod 2 = 0
         then cxx_div (sorted_offsets ! (n div 2 - 1) + sorted_offsets ! (n div 2)) 2
         else sorted_offsets ! (n div 2))"

definition calculate_median_offset :: "millis list \<Rightarrow> millis" where
  "calculate_median_offset offsets = (if offsets = [] then 0 else middle_offset (sort offsets))"

definition berkeley_algorithm :: "(time_service, millis result) op" where
  "berkeley_algorithm = ts_locked (\<lambda>s.
     if length (node_offsets s) < unat (min_samples (ts_config s))
     then Some (Error INSUFFICIENT_DATA ''Not enough offset samples'', s)
     else
       let offsets = map (oi_offset \<circ> snd) (filter (\<lambda>e. confidence (snd e) > 0.5) (node_offsets s))
       in if offsets = []
          then Some (Error INSUFFICIENT_DATA ''No high-confidence offset samples'', s)
          else Some (Ok (middle_offset (sort offsets)), s))"

definition calculate_offset_stddev :: "millis list \<Rightarrow> millis" where
  "calculate_offset_stddev offsets =
     (if length offsets < 2 then 0 else cut (sqrt (sample_variance offsets)))"

text \<open>A division by a \<open>max_uncertainty\<close> of zero has no finite result; it is \<open>None\<close>.\<close>

definition calculate_sync_quality :: "offset_info list \<Rightarrow> millis \<Rightarrow> real option" where
  "calculate_sync_quality offsets max_uncertainty =
     (if offsets = [] then Some 0
      else if max_uncertainty = 0 then None
      else
        let total_confidence = sum_list (map confidence offsets);
            total_factor = sum_list (map (\<lambda>info. max 0 (1 - of_int (oi_uncertainty info) / of_int max_uncertainty)) offsets);
            n = of_nat (length offsets)
        in Some ((total_confidence / n + total_factor / n) / 2))"

section \<open>The background threads\<close>

fun report_drift :: "(node_id \<times> offset_info) list \<Rightarrow> time_service \<Rightarrow> time_service" where
  "report_drift [] s = s"
| "report_drift ((n, info) # es) s =
     report_drift es (if \<bar>oi_offset info\<bar> > max_clock_drift (ts_config s)
                      then ts_notify (DriftDetected n (oi_offset info)) s else s)"

definition detect_clock_drift :: "(time_service, unit) op" where
  "detect_clock_drift = ts_locked (\<lambda>s. Some ((), report_drift (node_offsets s) s))"

definition cleanup_expired_offsets :: "time_point \<Rightarrow> (time_service, unit) op" where
  "cleanup_expired_offsets now = ts_locked (\<lambda>s. Some ((), s\<lparr>node_offsets :=
     filter (\<lambda>e. \<not> offset_is_expired now (max_offset_age (ts_config s)) (snd e)) (node_offsets s)\<rparr>))"

fun sync_each :: "(node_id \<Rightarrow> sync_conditions) \<Rightarrow> node_id list \<Rightarrow> (time_service, unit) op" where
  "sync_each env [] s = Some ((), s)"
| "sync_each env (n # ns) s =
     do { (_, s) \<leftarrow> sync_with_node (env n) n s; sync_each env ns s }"

text \<open>
  One turn of \<open>sync_loop\<close> and of \<open>ntp_sync_loop\<close>. Each call of a turn takes the mutex for itself; in
  the runs of \<open>Time_Runs\<close> the parts of a turn are separate steps.
\<close>

definition sync_pass :: "(node_id \<Rightarrow> sync_conditions) \<Rightarrow> time_point \<Rightarrow> (time_service, unit) op" where
  "sync_pass env now s =
     do { (nodes, s) \<leftarrow> get_sync_nodes s;
          (_, s) \<leftarrow> sync_each env nodes s;
          s \<leftarrow> (if length nodes \<ge> unat (min_samples (ts_config s))
               then do { (r, s) \<leftarrow> berkeley_algorithm s;
                         Some (case r of Ok v \<Rightarrow> s\<lparr>local_offset := v\<rparr> | Error _ _ \<Rightarrow> s) }
               else Some s);
          (_, s) \<leftarrow> detect_clock_drift s;
          cleanup_expired_offsets now s }"

definition ntp_sync_pass :: "nat \<Rightarrow> time_service \<Rightarrow> time_service" where
  "ntp_sync_pass random s = snd (sync_with_ntp random s)"

section \<open>Messages\<close>

text \<open>\<open>handle_time_request\<close> builds a response and drops it.\<close>

definition handle_time_request :: "sync_message \<Rightarrow> (time_service, unit) op" where
  "handle_time_request msg s = Some ((), s)"

definition handle_time_response :: "time_point \<Rightarrow> sync_message \<Rightarrow> (time_service, unit attempt) op" where
  "handle_time_response now msg s =
     (let rtt = response_time msg - send_time msg;
          remote = receive_time msg + cxx_div rtt 2;
          offset = to_millis (remote - now_synchronized now s);
          uncertainty = to_millis (cxx_div rtt 4)
      in relock ts_held (returning (update_offset_with_sample now (sm_from msg) offset uncertainty)) s)"

definition handle_offset_update :: "time_point \<Rightarrow> sync_message \<Rightarrow> (time_service, unit attempt) op" where
  "handle_offset_update now msg = relock ts_held
     (returning (update_offset_with_sample now (sm_from msg) (estimated_offset msg) 50))"

definition handle_sync_message :: "time_point \<Rightarrow> sync_message \<Rightarrow> (time_service, unit result attempt) op" where
  "handle_sync_message now msg = ts_locked (and_then
     (case sm_type msg of
        TIME_REQUEST \<Rightarrow> returning (handle_time_request msg)
      | TIME_RESPONSE \<Rightarrow> handle_time_response now msg
      | OFFSET_UPDATE \<Rightarrow> handle_offset_update now msg
      | SYNC_HEARTBEAT \<Rightarrow> (\<lambda>s. Some (Returns (), s)))
     (\<lambda>_ s. Some (Returns (Ok ()), s)))"

section \<open>\<open>TimestampOrdering\<close>\<close>

text \<open>The state is the last timestamp, with the mutex, and the time service it draws from.\<close>

record ts_ordering =
  latest_timestamp :: hlc
  to_held :: bool
  to_service :: time_service

definition to_set_held :: "bool \<Rightarrow> ts_ordering \<Rightarrow> ts_ordering" where
  "to_set_held b o' = o'\<lparr>to_held := b\<rparr>"

interpretation to_mx: mutex_class to_held to_set_held
  by unfold_locales (auto simp: to_set_held_def)

definition TimestampOrdering :: "time_point \<Rightarrow> time_service \<Rightarrow> ts_ordering option" where
  "TimestampOrdering now s =
     do { (t, s) \<leftarrow> now_logical now s;
          Some \<lparr>latest_timestamp = t, to_held = False, to_service = s\<rparr> }"

definition generate_timestamp :: "time_point \<Rightarrow> (ts_ordering, hlc) op" where
  "generate_timestamp now = guarded to_held to_set_held (\<lambda>ts.
     do { (t, s) \<leftarrow> now_logical now (to_service ts);
          let t = (if t \<le> latest_timestamp ts
                   then HLC (physical_time (latest_timestamp ts)) (logical_time (latest_timestamp ts) + 1)
                   else t);
          Some (t, ts\<lparr>latest_timestamp := t, to_service := s\<rparr>) })"

definition is_before :: "hlc \<Rightarrow> hlc \<Rightarrow> bool" where
  "is_before a b = (a < b)"

text \<open>
  The difference of the logical times wraps and is read as signed. (For \<open>-2^63\<close>, whose
  absolute value is not an \<open>int64_t\<close>, \<open>std::abs\<close> is undefined.)
\<close>

definition is_concurrent :: "hlc \<Rightarrow> hlc \<Rightarrow> bool" where
  "is_concurrent a b =
     (\<bar>to_millis (physical_time a - physical_time b)\<bar> < 100
      \<and> \<bar>sint (logical_time a - logical_time b)\<bar> < 10)"

text \<open>
  \<open>wait_for_timestamp\<close> returns when it sees a late enough timestamp, or the deadline passes;
  \<open>seen\<close> holds the values of \<open>latest_timestamp_\<close> at its checks, the last of them at the deadline.
\<close>

fun wait_for_timestamp :: "hlc \<Rightarrow> hlc list \<Rightarrow> unit result" where
  "wait_for_timestamp target [] = Error TIMEOUT ''Timeout waiting for timestamp''"
| "wait_for_timestamp target (t # seen) =
     (if \<not> t < target then Ok () else wait_for_timestamp target seen)"

section \<open>\<open>time_utils\<close>\<close>

definition timestamp_to_string :: "(int \<Rightarrow> string) \<Rightarrow> time_point \<Rightarrow> string" where
  "timestamp_to_string fmt t =
     (let all_ms = to_millis t;
          ms = all_ms - 1000 * cxx_div all_ms 1000;
          digits = (if ms < 0 then ''-'' else []) @ to_string (nat \<bar>ms\<bar>)
      in fmt (to_time_t t) @ ''.'' @ replicate (3 - length digits) CHR ''0'' @ digits)"

text \<open>\<open>parse\<close> gives the result of \<open>std::mktime\<close> and the characters that \<open>std::get_time\<close> left.\<close>

definition timestamp_from_string :: "(string \<Rightarrow> int \<times> string) \<Rightarrow> string \<Rightarrow> time_point" where
  "timestamp_from_string parse s =
     (case parse s of (secs, rest) \<Rightarrow>
        from_time_t secs
        + (case rest of c # cs \<Rightarrow> if c = CHR ''.'' then millis_ns (stream_int cs) else 0 | [] \<Rightarrow> 0))"

definition time_difference :: "time_point \<Rightarrow> time_point \<Rightarrow> millis" where
  "time_difference t1 t2 = to_millis (t1 - t2)"

definition ntp_unix_offset :: int where "ntp_unix_offset = 2208988800"

text \<open>Conversion to unsigned 64 bits happens where the code stores a count in a \<open>uint64_t\<close>.\<close>

definition physical_to_ntp_timestamp :: "time_point \<Rightarrow> u64" where
  "physical_to_ntp_timestamp t =
     (let since = t + ntp_unix_offset * 1000000000;
          secs = cxx_div since 1000000000;
          fraction = since - secs * 1000000000;
          ntp_seconds = (word_of_int secs :: u64);
          ntp_fraction = (word_of_int fraction * word_of_int (2 ^ 32)) div (1000000000 :: u64)
      in push_bit 32 ntp_seconds OR ntp_fraction)"

definition ntp_to_physical_timestamp :: "u64 \<Rightarrow> time_point" where
  "ntp_to_physical_timestamp ntp =
     (let secs = (ucast (drop_bit 32 ntp AND 0xFFFFFFFF) :: u32);
          fraction = (ucast (ntp AND 0xFFFFFFFF) :: u32);
          unix_seconds = (ucast secs :: u64) - word_of_int ntp_unix_offset;
          nanos = drop_bit 32 ((ucast fraction :: u64) * 1000000000)
      in from_time_t (sint unix_seconds) + sint nanos)"

end
