(* ===== verification/Time_Properties.thy ===== *)
theory Time_Properties
  imports Time_Sync
begin

text \<open>
  What the time service promises: timestamps that only grow, from the service and from
  \<open>TimestampOrdering\<close>; clock offsets that a minority of wrong nodes cannot move; conversions that
  read back what they wrote; and where the hybrid clock and the message handlers fail.
\<close>

section \<open>Timestamps\<close>

lemma counter_step: "unat (l :: u64) + Suc n < 2 ^ 64 \<Longrightarrow> l < l + 1 \<and> unat (l + 1) = unat l + 1"
  by (simp add: word_less_nat_alt unat_word_ariths)

definition clock_room :: "nat \<Rightarrow> time_service \<Rightarrow> bool" where
  "clock_room n s \<longleftrightarrow> enable_hybrid_logical_clock (ts_config s) \<and> unat (logical_counter s) + n < 2 ^ 64"

definition clock_latest :: "time_service \<Rightarrow> hlc" where
  "clock_latest s = HLC (last_physical_time s) (logical_counter s)"

lemma ts_set_held_fields [simp]:
  "ts_config (ts_set_held b s) = ts_config s" "logical_counter (ts_set_held b s) = logical_counter s"
  "last_physical_time (ts_set_held b s) = last_physical_time s" "local_offset (ts_set_held b s) = local_offset s"
  "node_offsets (ts_set_held b s) = node_offsets s" "ts_held (ts_set_held b s) = b"
  by (simp_all add: ts_set_held_def)

lemma now_logical_cases:
  assumes "now_logical now s = Some (t, s')"
  shows "if enable_hybrid_logical_clock (ts_config s)
    then t = fst (increment_logical_clock now s) \<and> ts_config s' = ts_config s
      \<and> logical_counter s' = logical_time t \<and> last_physical_time s' = physical_time t
    else t = HLC (now_synchronized now s) 0 \<and> ts_config s' = ts_config s
      \<and> logical_counter s' = logical_counter s"
proof -
  from assms obtain u where u: "s' = ts_set_held False u"
    "(if enable_hybrid_logical_clock (ts_config (ts_set_held True s))
      then Some (increment_logical_clock now (ts_set_held True s))
      else Some (HLC (now_synchronized now (ts_set_held True s)) 0, ts_set_held True s)) = Some (t, u)"
    unfolding now_logical_def by (elim guarded_SomeE) auto
  then show ?thesis
    by (auto simp: increment_logical_clock_def now_synchronized_def Let_def split: if_splits)
qed

lemma now_logical_later:
  assumes "now_logical now s = Some (t, s')" and "clock_room (Suc n) s"
  shows "clock_latest s < t \<and> clock_latest s' = t \<and> clock_room n s'"
proof -
  have on: "enable_hybrid_logical_clock (ts_config s)" and room: "unat (logical_counter s) + Suc n < 2 ^ 64"
    using assms(2) by (simp_all add: clock_room_def)
  with now_logical_cases [OF assms(1)] counter_step [OF room] show ?thesis
    by (cases t) (auto simp: clock_latest_def clock_room_def increment_logical_clock_def Let_def
        split: if_splits)
qed

interpretation service_clock: stamp_source now_logical clock_latest clock_room
  by unfold_locales (rule now_logical_later)

definition ordering_room :: "nat \<Rightarrow> ts_ordering \<Rightarrow> bool" where
  "ordering_room n ts \<longleftrightarrow> unat (logical_time (latest_timestamp ts)) + n < 2 ^ 64
    \<and> unat (logical_counter (to_service ts)) + n < 2 ^ 64"

lemma now_logical_counter:
  assumes "now_logical now s = Some (t, s')" and "unat (logical_counter s) + Suc n < 2 ^ 64"
  shows "unat (logical_time t) + n < 2 ^ 64 \<and> unat (logical_counter s') + n < 2 ^ 64"
  using now_logical_cases [OF assms(1)] counter_step [OF assms(2)] assms(2)
  by (auto simp: increment_logical_clock_def Let_def split: if_splits)

lemma generate_later:
  assumes "generate_timestamp now ts = Some (t, ts')" and "ordering_room (Suc n) ts"
  shows "latest_timestamp ts < t \<and> latest_timestamp ts' = t \<and> ordering_room n ts'"
proof -
  let ?next = "\<lambda>t. if t \<le> latest_timestamp ts
    then HLC (physical_time (latest_timestamp ts)) (logical_time (latest_timestamp ts) + 1) else t"
  from assms(1) obtain t0 s where g: "now_logical now (to_service ts) = Some (t0, s)" "t = ?next t0"
    "latest_timestamp ts' = t" "to_service ts' = s"
    unfolding generate_timestamp_def
    by (elim guarded_SomeE) (auto simp: bind_eq_Some_conv Let_def to_set_held_def)
  have room: "unat (logical_time (latest_timestamp ts)) + Suc n < 2 ^ 64"
    "unat (logical_counter (to_service ts)) + Suc n < 2 ^ 64"
    using assms(2) by (simp_all add: ordering_room_def)
  have "latest_timestamp ts < t"
    using g(2) counter_step [OF room(1)] by (cases "latest_timestamp ts") auto
  moreover have "unat (logical_time t) + n < 2 ^ 64"
    using g(2) counter_step [OF room(1)] now_logical_counter [OF g(1) room(2)] room(1) by auto
  ultimately show ?thesis
    using g(3,4) now_logical_counter [OF g(1) room(2)] by (simp add: ordering_room_def)
qed

interpretation ordering_clock: stamp_source generate_timestamp latest_timestamp ordering_room
  by unfold_locales (rule generate_later)

text \<open>Whatever the system clock shows, also when it steps back, the timestamps of successive
  calls of \<open>now_logical\<close> strictly increase while the hybrid clock is enabled and its logical
  counter does not wrap.\<close>

theorem now_logical_increasing:
  assumes "stamps now_logical clocks s = Some (ts, s')"
    and "enable_hybrid_logical_clock (ts_config s)"
    and "unat (logical_counter s) + length clocks < 2 ^ 64"
  shows "sorted_wrt (<) ts"
  using service_clock.increasing [OF assms(1)] assms(2,3) by (simp add: clock_room_def)

theorem now_logical_increasing_witness:
  "sorted_wrt (<) [HLC 10 0, HLC 10 1, HLC 10 2]"
proof -
  have "stamps now_logical [10, 5, 7] (TimeService_new 0)
      = Some ([HLC 10 0, HLC 10 1, HLC 10 2], (TimeService_new 0)\<lparr>logical_counter := 2, last_physical_time := 10\<rparr>)"
    by (simp add: now_logical_def guarded_def TimeService_new_def TimeSyncConfig_def ts_set_held_def
        increment_logical_clock_def now_synchronized_def millis_ns_def)
  then show ?thesis
    by (rule now_logical_increasing) (simp_all add: TimeService_new_def TimeSyncConfig_def)
qed

text \<open>C32: the timestamps of \<open>TimestampOrdering\<close> strictly increase as well, even when the service it
  draws from repeats itself or goes back (with the hybrid clock disabled it may).\<close>

theorem generate_timestamp_increasing:
  assumes "stamps generate_timestamp clocks o1 = Some (ts, o2)"
    and "unat (logical_time (latest_timestamp o1)) + length clocks < 2 ^ 64"
    and "unat (logical_counter (to_service o1)) + length clocks < 2 ^ 64"
  shows "sorted_wrt (<) (latest_timestamp o1 # ts)"
  using ordering_clock.increasing [OF assms(1)] assms(2,3) by (simp add: ordering_room_def)

definition demo_ordering :: ts_ordering where
  "demo_ordering = \<lparr>latest_timestamp = HLC 20 0, to_held = False,
     to_service = (TimeService_new 0)\<lparr>ts_config := TimeSyncConfig\<lparr>enable_hybrid_logical_clock := False\<rparr>\<rparr>\<rparr>"

theorem generate_timestamp_increasing_witness:
  "sorted_wrt (<) [HLC 20 0, HLC 20 1, HLC 30 0, HLC 30 1]"
proof -
  have "stamps generate_timestamp [10, 30, 25] demo_ordering
      = Some ([HLC 20 1, HLC 30 0, HLC 30 1], demo_ordering\<lparr>latest_timestamp := HLC 30 1\<rparr>)"
    by (simp add: generate_timestamp_def demo_ordering_def guarded_def to_set_held_def now_logical_def
        TimeService_new_def TimeSyncConfig_def ts_set_held_def now_synchronized_def millis_ns_def
        less_eq_hlc_def hlc_less_eq_def hlc_less_def Let_def)
  from generate_timestamp_increasing [OF this] show ?thesis
    by (simp add: demo_ordering_def TimeService_new_def)
qed

text \<open>C33: merging a received timestamp gives a later one exactly when the received physical time
  is not further ahead than the allowed drift; beyond it the result is earlier than what was
  received, so the order of the two events is lost.\<close>

theorem update_clock_exceeds_received:
  assumes "update_logical_clock now r s = Some (Returns c, s')" and "enable_hybrid_logical_clock (ts_config s)"
    and "logical_counter s \<noteq> - 1" and "logical_time r \<noteq> - 1" and "0 \<le> max_clock_drift (ts_config s)"
  shows "r < c \<longleftrightarrow>
    to_millis (physical_time r - now_synchronized now s) \<le> max_clock_drift (ts_config s)"
proof -
  let ?cur = "now_synchronized now s"
  have c: "c = (if ?cur \<ge> physical_time r then HLC ?cur (max (logical_counter s) (logical_time r) + 1)
      else HLC (if to_millis (physical_time r - ?cur) > max_clock_drift (ts_config s)
                then ?cur else physical_time r) (logical_time r + 1))"
    using assms(1,2) unfolding update_logical_clock_def
    by (elim guarded_SomeE) (auto simp: now_synchronized_def Let_def split: if_splits)
  have "max (logical_counter s) (logical_time r) \<noteq> - 1"
    using assms(3,4) by (simp add: max_def)
  note le_less_trans [OF max.cobounded2 word_step_less [OF this]]
  then have m: "logical_time r < max (logical_counter s) (logical_time r) + 1" .
  show ?thesis
  proof (cases "?cur \<ge> physical_time r")
    case True
    then have "to_millis (physical_time r - ?cur) \<le> 0"
      by (simp add: to_millis_def cxx_div_def pos_imp_zdiv_nonneg_iff)
    moreover have "r < c" using True m by (cases r) (auto simp: c)
    ultimately show ?thesis using assms(5) by simp
  next
    case False
    then show ?thesis using word_step_less [OF assms(4)] by (cases r) (auto simp: c)
  qed
qed

lemma demo_update:
  "update_logical_clock 0 (HLC 90000000 0) (TimeService_new 0)
    = Some (Returns (HLC 90000000 1), (TimeService_new 0)\<lparr>logical_counter := 1, last_physical_time := 90000000\<rparr>)"
  by (simp add: update_logical_clock_def guarded_def TimeService_new_def TimeSyncConfig_def ts_set_held_def
      now_synchronized_def millis_ns_def to_millis_def Let_def)

theorem update_clock_exceeds_received_witness: "HLC 90000000 0 < HLC 90000000 1"
  using update_clock_exceeds_received [OF demo_update]
  by (simp add: TimeService_new_def TimeSyncConfig_def now_synchronized_def millis_ns_def to_millis_def)

text \<open>The merged timestamp takes no account of the last one given out: after merging a timestamp
  from 90 ms ahead, merging an old one gives a timestamp before the first, with no clock
  stepping back.\<close>

theorem update_clock_goes_back:
  "\<exists>c1 s1 c2 s2. update_logical_clock 0 (HLC 90000000 0) (TimeService_new 0) = Some (Returns c1, s1)
    \<and> update_logical_clock 1 (HLC 0 0) s1 = Some (Returns c2, s2) \<and> c2 < c1"
proof -
  have "update_logical_clock 1 (HLC 0 0) ((TimeService_new 0)\<lparr>logical_counter := 1, last_physical_time := 90000000\<rparr>)
      = Some (Returns (HLC 1 2), (TimeService_new 0)\<lparr>logical_counter := 2, last_physical_time := 1\<rparr>)"
    by (simp add: update_logical_clock_def guarded_def TimeService_new_def TimeSyncConfig_def ts_set_held_def
        now_synchronized_def millis_ns_def to_millis_def Let_def max_def)
  moreover have "HLC 1 2 < HLC 90000000 1" by simp
  ultimately show ?thesis using demo_update by blast
qed

text \<open>Handling a time response or an offset update ends with an exception and changes nothing: the
  handler holds the mutex and updates the offset through a function that locks it again; requests
  and heartbeats are accepted and change nothing.\<close>

theorem sync_message_outcome:
  assumes "\<not> ts_held s"
  shows "handle_sync_message now msg s =
    Some (if sm_type msg = TIME_RESPONSE \<or> sm_type msg = OFFSET_UPDATE then Raises
          else Returns (Ok ()), s)"
  using assms
  by (cases "sm_type msg") (simp_all add: handle_sync_message_def guarded_def handle_time_request_def
      handle_time_response_def handle_offset_update_def and_then_def returning_def ts_mx.set_set
      ts_mx.set_same Let_def)

theorem sync_message_outcome_witness:
  "handle_sync_message 5 \<lparr>sm_type = OFFSET_UPDATE, sm_from = ''n'', sm_to = [], send_time = 0,
     receive_time = 0, response_time = 0, estimated_offset = 3, round_trip_time = 0\<rparr> (TimeService_new 0) = Some (Raises, TimeService_new 0)"
proof -
  have "\<not> ts_held (TimeService_new 0)" by (simp add: TimeService_new_def)
  from sync_message_outcome [OF this] show ?thesis by simp
qed

section \<open>Offsets\<close>

lemma cut_bounds: "of_int a \<le> x \<Longrightarrow> x \<le> of_int b \<Longrightarrow> a \<le> cut x \<and> cut x \<le> b"
  unfolding cut_def by (auto simp: le_floor_iff floor_le_iff ceiling_le_iff) linarith+

text \<open>The exponential filter keeps the offset between the old value and the sample, for any
  weight between 0 and 1.\<close>

theorem filter_offset_between:
  assumes "0 \<le> alpha" and "alpha \<le> 1"
  shows "min current sample \<le> filter_offset alpha current sample
    \<and> filter_offset alpha current sample \<le> max current sample"
  unfolding filter_offset_def
proof (rule cut_bounds)
  let ?x = "(1 - alpha) * of_int current + alpha * of_int sample"
  have "(1 - alpha) * of_int (min current sample) + alpha * of_int (min current sample) \<le> ?x"
    using assms by (intro add_mono mult_left_mono) auto
  then show "of_int (min current sample) \<le> ?x" by (simp add: algebra_simps)
  have "?x \<le> (1 - alpha) * of_int (max current sample) + alpha * of_int (max current sample)"
    using assms by (intro add_mono mult_left_mono) auto
  then show "?x \<le> of_int (max current sample)" by (simp add: algebra_simps)
qed

theorem filter_offset_between_witness: "- 7 \<le> filter_offset 0.125 80 (- 7) \<and> filter_offset 0.125 80 (- 7) \<le> 80"
  using filter_offset_between [of "0.125" 80 "- 7"] by simp

lemma sorted_prefix_count:
  assumes "i < length ys" and "\<And>j. j \<le> i \<Longrightarrow> P (ys ! j)"
  shows "Suc i \<le> length (filter P ys)"
proof -
  have "\<forall>x \<in> set (take (Suc i) ys). P x"
    using assms by (auto simp: in_set_conv_nth less_Suc_eq_le)
  then have "length (filter P (take (Suc i) ys)) = Suc i" using assms(1) by simp
  moreover have "length (filter P ys) = length (filter P (take (Suc i) ys)) + length (filter P (drop (Suc i) ys))"
    by (metis append_take_drop_id filter_append length_append)
  ultimately show ?thesis by simp
qed

lemma sorted_suffix_count:
  assumes "i < length ys" and "\<And>j. i \<le> j \<Longrightarrow> j < length ys \<Longrightarrow> P (ys ! j)"
  shows "length ys - i \<le> length (filter P ys)"
proof -
  have "\<forall>x \<in> set (drop i ys). P x" using assms by (auto simp: in_set_conv_nth)
  then have "length (filter P (drop i ys)) = length ys - i" by simp
  moreover have "length (filter P ys) = length (filter P (take i ys)) + length (filter P (drop i ys))"
    by (metis append_take_drop_id filter_append length_append)
  ultimately show ?thesis by simp
qed

lemma sorted_middle:
  assumes "sorted (ys :: int list)" and "2 * length (filter (\<lambda>x. x < a \<or> b < x) ys) < length ys"
    and "length ys \<le> 2 * i + 2" and "2 * i \<le> length ys" and "i < length ys"
  shows "a \<le> ys ! i \<and> ys ! i \<le> b"
proof (rule ccontr)
  let ?bad = "\<lambda>x. x < a \<or> b < x"
  assume "\<not> (a \<le> ys ! i \<and> ys ! i \<le> b)"
  then consider "ys ! i < a" | "b < ys ! i" by linarith
  then have "Suc i \<le> length (filter ?bad ys) \<or> length ys - i \<le> length (filter ?bad ys)"
  proof cases
    case 1
    then have "?bad (ys ! j)" if "j \<le> i" for j
      using sorted_nth_mono [OF assms(1) that assms(5)] by simp
    with sorted_prefix_count [of i ys ?bad] assms(5) show ?thesis by blast
  next
    case 2
    then have "?bad (ys ! j)" if "i \<le> j" "j < length ys" for j
      using sorted_nth_mono [OF assms(1) that] by simp
    with sorted_suffix_count [of i ys ?bad] assms(5) show ?thesis by blast
  qed
  with assms(2-4) show False by linarith
qed

lemma half_between: "a \<le> m1 \<Longrightarrow> m1 \<le> b \<Longrightarrow> a \<le> m2 \<Longrightarrow> m2 \<le> b \<Longrightarrow>
    a \<le> cxx_div (m1 + m2) 2 \<and> cxx_div (m1 + m2) 2 \<le> (b :: int)"
  by (auto simp: cxx_div_def)

text \<open>C34: the median offset withstands a minority of wrong nodes: when fewer than half of the
  offsets lie outside an interval, the median lies in it.\<close>

theorem median_offset_robust:
  assumes "2 * length (filter (\<lambda>x. x < a \<or> b < x) offsets) < length offsets"
  shows "a \<le> calculate_median_offset offsets \<and> calculate_median_offset offsets \<le> b"
proof -
  let ?ys = "sort offsets" and ?n = "length offsets"
  have ne: "0 < ?n" by (rule le_less_trans [OF _ assms]) simp
  have few: "2 * length (filter (\<lambda>x. x < a \<or> b < x) ?ys) < length ?ys"
    using assms by (simp add: filter_sort)
  note mid = sorted_middle [OF sorted_sort few]
  have hi: "a \<le> ?ys ! (?n div 2) \<and> ?ys ! (?n div 2) \<le> b"
    by (rule mid) (use ne in auto)
  show ?thesis
  proof (cases "?n mod 2 = 0")
    case True
    then have "2 * (?n div 2) = ?n" by presburger
    then have "length ?ys \<le> 2 * (?n div 2 - 1) + 2" "2 * (?n div 2 - 1) \<le> length ?ys"
      "?n div 2 - 1 < length ?ys" using ne by (simp_all only: length_sort)
    then have "a \<le> ?ys ! (?n div 2 - 1) \<and> ?ys ! (?n div 2 - 1) \<le> b" by (rule mid)
    with hi half_between True ne show ?thesis
      by (auto simp: calculate_median_offset_def middle_offset_def Let_def)
  next
    case False
    with hi ne show ?thesis by (auto simp: calculate_median_offset_def middle_offset_def Let_def)
  qed
qed

theorem median_offset_robust_witness:
  "- 5 \<le> calculate_median_offset [90000, 3, - 5] \<and> calculate_median_offset [90000, 3, - 5] \<le> 4"
  by (rule median_offset_robust) simp

text \<open>A pass of the Berkeley algorithm over enough samples answers with the median of the offsets
  whose confidence exceeds one half, and reports \<open>INSUFFICIENT_DATA\<close> when there are none.\<close>

theorem berkeley_is_median:
  assumes "\<not> ts_held s"
  shows "\<exists>r. berkeley_algorithm s = Some (r, s)
    \<and> (let offsets = map (oi_offset \<circ> snd) (filter (\<lambda>e. confidence (snd e) > 0.5) (node_offsets s))
       in if length (node_offsets s) < unat (min_samples (ts_config s)) \<or> offsets = []
          then result_status r = INSUFFICIENT_DATA
          else r = Ok (calculate_median_offset offsets))"
  using assms
  by (auto simp: berkeley_algorithm_def guarded_def calculate_median_offset_def Let_def
      ts_mx.set_set ts_mx.set_same)

theorem berkeley_is_median_witness:
  "map_option (result_status \<circ> fst) (berkeley_algorithm (TimeService_new 0)) = Some INSUFFICIENT_DATA"
proof -
  have "\<not> ts_held (TimeService_new 0)" by (simp add: TimeService_new_def)
  from berkeley_is_median [OF this] show ?thesis by (auto simp: TimeService_new_def)
qed

section \<open>Conversions\<close>

text \<open>Reading back the text of a hybrid timestamp gives its logical time, and its physical time
  cut to the second, where the two time zones of the conversion agree.\<close>

theorem hlc_text_roundtrip:
  assumes "parse (fmt (to_time_t p)) = to_time_t p" and "0 \<le> p"
  shows "\<exists>q. hlc_from_string parse now (hlc_to_string fmt (HLC p l)) = Some (HLC q l)
    \<and> q \<le> p \<and> p < q + 1000000000"
proof -
  have "from_time_t (to_time_t p) = p - p mod 1000000000"
    using assms(2) by (simp add: from_time_t_def to_time_t_def minus_mod_eq_div_mult)
  moreover have "0 \<le> p mod 1000000000" "p mod 1000000000 < 1000000000" by simp_all
  ultimately show ?thesis using assms(1) by (simp add: hlc_text)
qed

theorem hlc_text_roundtrip_witness:
  "\<exists>q. hlc_from_string (\<lambda>s. int (length s)) 0 (hlc_to_string (\<lambda>n. replicate (nat n) CHR ''x'') (HLC 2500000000 7))
    = Some (HLC q 7) \<and> q \<le> 2500000000 \<and> 2500000000 < q + 1000000000"
  by (rule hlc_text_roundtrip) (simp_all add: to_time_t_def)

text \<open>The two halves of an NTP timestamp.\<close>

lemma ntp_pack:
  assumes "0 \<le> s" and "s < 2 ^ 32" and "0 \<le> f" and "f < (2 :: int) ^ 32"
  shows "uint (push_bit 32 (word_of_int s :: u64) OR word_of_int f) = s * 2 ^ 32 + f"
proof -
  have s: "take_bit 64 (s * 2 ^ 32) = s * 2 ^ 32" 
    using assms(1,2) by (intro take_bit_int_eq_self) simp_all
  have "uint (push_bit 32 (word_of_int s :: u64)) = push_bit 32 s"
    using assms(1,2) by (simp add: push_bit_eq_mult uint_word_ariths unsigned_of_int take_bit_int_eq_self)
  moreover have "uint (word_of_int f :: u64) = f"
    using assms(3,4) by (simp add: unsigned_of_int take_bit_int_eq_self)
  ultimately have "uint (push_bit 32 (word_of_int s :: u64) OR word_of_int f) = concat_bit 32 f s"
    using assms(3,4) by (simp add: unsigned_or_eq concat_bit_def take_bit_int_eq_self or.commute)
  also have "\<dots> = s * 2 ^ 32 + f"
    using assms(3,4) by (simp add: concat_bit_eq take_bit_int_eq_self push_bit_eq_mult)
  finally show ?thesis .
qed

lemma ntp_unpack:
  assumes "uint (w :: u64) = s * 2 ^ 32 + f" and "0 \<le> s" and "s < 2 ^ 32" and "0 \<le> f" and "f < (2 :: int) ^ 32"
  shows "uint (ucast (drop_bit 32 w AND 0xFFFFFFFF) :: u32) = s"
    and "uint (ucast (w AND 0xFFFFFFFF) :: u32) = f"
proof -
  have m: "(0xFFFFFFFF :: u64) = mask 32" by (simp add: mask_eq_exp_minus_1)
  have "uint (drop_bit 32 w) = s" 
    using assms by (simp add: drop_bit_eq_div uint_div)
  then show "uint (ucast (drop_bit 32 w AND 0xFFFFFFFF) :: u32) = s"
    using assms(2,3) unfolding m by (simp add: unsigned_ucast_eq unsigned_take_bit_eq take_bit_int_eq_self flip: take_bit_eq_mask)
  show "uint (ucast (w AND 0xFFFFFFFF) :: u32) = f"
    using assms unfolding m by (simp add: unsigned_ucast_eq take_bit_eq_mod uint_mod flip: take_bit_eq_mask)
qed

lemma sint_small: "- (2 ^ 63) \<le> x \<Longrightarrow> x < 2 ^ 63 \<Longrightarrow> sint (word_of_int x :: u64) = x"
  by (simp add: signed_of_int signed_take_bit_int_eq_self)

lemma ucast_int: "uint (w :: u32) = x \<Longrightarrow> (ucast w :: u64) = word_of_int x"
  by (auto simp: ucast_eq)

lemma uint_small: "0 \<le> x \<Longrightarrow> x < 2 ^ 64 \<Longrightarrow> uint (word_of_int x :: u64) = x"
  by (simp add: unsigned_of_int take_bit_int_eq_self)

lemma ntp_fraction_bounds:
  assumes "0 \<le> f" and "f < (1000000000 :: int)"
  shows "0 \<le> f * 2 ^ 32 div 1000000000" "f * 2 ^ 32 div 1000000000 < 2 ^ 32"
    and "f * 2 ^ 32 div 1000000000 * 1000000000 div 2 ^ 32 \<le> f"
    and "f - 1 \<le> f * 2 ^ 32 div 1000000000 * 1000000000 div 2 ^ 32"
proof -
  let ?F = "f * 2 ^ 32 div 1000000000"
  have F: "1000000000 * ?F \<le> f * 2 ^ 32" "f * 2 ^ 32 < 1000000000 * ?F + 1000000000"
    by linarith+
  show "0 \<le> ?F" using assms by simp
  have "1000000000 * ?F < 1000000000 * 2 ^ 32" using F(1) assms(2) by simp
  then show "?F < 2 ^ 32" by simp
  have "?F * 1000000000 div 2 ^ 32 \<le> f * 2 ^ 32 div 2 ^ 32"
    by (rule zdiv_mono1) (use F(1) in linarith, simp)
  then show "?F * 1000000000 div 2 ^ 32 \<le> f" by simp
  have "(f - 1) * 2 ^ 32 div 2 ^ 32 \<le> ?F * 1000000000 div 2 ^ 32"
  proof (rule zdiv_mono1)
    have "(f - 1) * 2 ^ 32 = f * 2 ^ 32 - 2 ^ 32" by (simp add: algebra_simps)
    also have "\<dots> < 1000000000 * ?F + 1000000000 - 2 ^ 32" using F(2) by linarith
    also have "\<dots> \<le> ?F * 1000000000" by simp
    finally show "(f - 1) * 2 ^ 32 \<le> ?F * 1000000000" by simp
  qed simp
  then show "f - 1 \<le> ?F * 1000000000 div 2 ^ 32" by simp
qed

lemma ntp_encoded:
  assumes "0 \<le> since" and "since < 2 ^ 32 * 1000000000" and "since = t + ntp_unix_offset * 1000000000"
  shows "uint (physical_to_ntp_timestamp t)
    = since div 1000000000 * 2 ^ 32 + since mod 1000000000 * 2 ^ 32 div 1000000000"
proof -
  let ?S = "since div 1000000000" and ?f = "since mod 1000000000"
  have S: "0 \<le> ?S" "?S < 2 ^ 32" using assms(1,2) by simp_all
  have f: "0 \<le> ?f" "?f < 1000000000" by simp_all
  note F = ntp_fraction_bounds [OF f]
  have fr: "since - cxx_div since 1000000000 * 1000000000 = ?f"
    using assms(1) by (simp add: minus_div_mult_eq_mod)
  have "uint (word_of_int ?f * word_of_int (2 ^ 32) :: u64) = ?f * 2 ^ 32"
    using f by (simp add: uint_word_ariths uint_small)
  then have "uint ((word_of_int ?f * word_of_int (2 ^ 32)) div (1000000000 :: u64)) = ?f * 2 ^ 32 div 1000000000"
    by (simp add: uint_div)
  then have "(word_of_int ?f * word_of_int (2 ^ 32)) div (1000000000 :: u64) = word_of_int (?f * 2 ^ 32 div 1000000000)"
    by (metis word_of_int_uint)
  moreover have "cxx_div since 1000000000 = ?S" using assms(1) by simp
  ultimately have "physical_to_ntp_timestamp t
      = push_bit 32 (word_of_int ?S) OR word_of_int (?f * 2 ^ 32 div 1000000000)"
    unfolding physical_to_ntp_timestamp_def Let_def assms(3) [symmetric] fr by simp
  then show ?thesis using ntp_pack [OF S F(1,2)] by simp
qed

text \<open>C36: a time between 1900 and 2036 comes back from its NTP timestamp exactly or one nanosecond
  early; later times wrap into the next era.\<close>

theorem ntp_roundtrip:
  assumes "- ntp_unix_offset * 1000000000 \<le> t" and "t < (2 ^ 32 - ntp_unix_offset) * 1000000000"
  shows "t - 1 \<le> ntp_to_physical_timestamp (physical_to_ntp_timestamp t)
    \<and> ntp_to_physical_timestamp (physical_to_ntp_timestamp t) \<le> t"
proof -
  define since where "since = t + ntp_unix_offset * 1000000000"
  let ?S = "since div 1000000000" and ?f = "since mod 1000000000"
  let ?F = "?f * 2 ^ 32 div 1000000000" and ?w = "physical_to_ntp_timestamp t"
  have since: "0 \<le> since" "since < 2 ^ 32 * 1000000000"
    using assms by (simp_all add: since_def algebra_simps)
  then have S: "0 \<le> ?S" "?S < 2 ^ 32" by simp_all
  have f: "0 \<le> ?f" "?f < 1000000000" by simp_all
  note F = ntp_fraction_bounds [OF f]
  note parts = ntp_unpack [OF ntp_encoded [OF since since_def] S F(1,2)]
  have sec: "sint ((ucast (ucast (drop_bit 32 ?w AND 0xFFFFFFFF) :: u32) :: u64) - word_of_int ntp_unix_offset)
      = ?S - ntp_unix_offset"
    unfolding ucast_int [OF parts(1)] wi_hom_sub
    by (rule sint_small) (use S in \<open>simp_all add: ntp_unix_offset_def\<close>)
  have "uint ((ucast (ucast (?w AND 0xFFFFFFFF) :: u32) :: u64) * 1000000000) = ?F * 1000000000"
    unfolding ucast_int [OF parts(2)] using F(1,2) by (simp add: uint_word_ariths uint_small)
  then have "uint (drop_bit 32 ((ucast (ucast (?w AND 0xFFFFFFFF) :: u32) :: u64) * 1000000000))
      = ?F * 1000000000 div 2 ^ 32"
    by (simp add: drop_bit_eq_div uint_div)
  then have "drop_bit 32 ((ucast (ucast (?w AND 0xFFFFFFFF) :: u32) :: u64) * 1000000000)
      = word_of_int (?F * 1000000000 div 2 ^ 32)"
    by (metis word_of_int_uint)
  moreover have "sint (word_of_int (?F * 1000000000 div 2 ^ 32) :: u64) = ?F * 1000000000 div 2 ^ 32"
  proof (rule sint_small)
    have "- (2 ^ 63) \<le> ?f - 1" using f(1) by simp
    also note F(4)
    finally show "- (2 ^ 63) \<le> ?F * 1000000000 div 2 ^ 32" .
    note F(3)
    also have "?f < 2 ^ 63" by (rule less_trans [OF f(2)]) simp
    finally show "?F * 1000000000 div 2 ^ 32 < 2 ^ 63" .
  qed
  ultimately have "sint (drop_bit 32 ((ucast (ucast (?w AND 0xFFFFFFFF) :: u32) :: u64) * 1000000000))
      = ?F * 1000000000 div 2 ^ 32"
    by (simp only:)
  with sec have "ntp_to_physical_timestamp ?w
      = (?S - ntp_unix_offset) * 1000000000 + ?F * 1000000000 div 2 ^ 32"
    by (simp only: ntp_to_physical_timestamp_def from_time_t_def Let_def)
  also have "\<dots> = t - ?f + ?F * 1000000000 div 2 ^ 32"
    using div_mult_mod_eq [of since 1000000000] since_def
    by (simp only: left_diff_distrib)
  finally have "ntp_to_physical_timestamp ?w = t - ?f + ?F * 1000000000 div 2 ^ 32" .
  with F(3,4) show ?thesis by (simp only:) linarith
qed

theorem ntp_roundtrip_witness:
  "1699999999999999999 \<le> ntp_to_physical_timestamp (physical_to_ntp_timestamp 1700000000000000000)"
  using ntp_roundtrip [of 1700000000000000000] by (simp add: ntp_unix_offset_def)

end
