(* ===== verification/Time_Runs.thy ===== *)
theory Time_Runs
  imports Time_Properties
begin

text \<open>
  The time service over whole runs: any sequence of its calls, of messages and of the parts of the
  turns of its two threads. An attempt to synchronise with a node is three steps (\<open>sync_begin\<close>, the
  sample, \<open>sync_success\<close>), and every other call, also of other attempts, can come between them.
  \<open>offsets_ok\<close> is the invariant of the table of offsets; the statistics count the attempts that were
  begun and those that are through. From them come the bounds of the quality of the synchronisation.
\<close>

section \<open>Invariants\<close>

definition offset_ok :: "node_id \<times> offset_info \<Rightarrow> bool" where
  "offset_ok = (\<lambda>(n, info). oi_node info = n \<and> 0 \<le> confidence info \<and> confidence info \<le> 1
     \<and> 0 \<le> oi_uncertainty info \<and> oi_uncertainty info \<le> 50)"

definition offsets_ok :: "time_service \<Rightarrow> bool" where
  "offsets_ok s \<longleftrightarrow> distinct (map fst (node_offsets s)) \<and> list_all offset_ok (node_offsets s)"

text \<open>The statistics: attempts, successes, failures.\<close>

definition statistics :: "time_service \<Rightarrow> u64 \<times> u64 \<times> u64" where
  "statistics s = (sync_attempts s, sync_successes s, sync_failures s)"

definition ts_inv :: "u64 \<times> u64 \<times> u64 \<Rightarrow> time_service \<Rightarrow> bool" where
  "ts_inv c s \<longleftrightarrow> offsets_ok s \<and> statistics s = c"

lemma ts_inv_held [simp]: "ts_inv c (ts_set_held b s) = ts_inv c s"
  by (simp add: ts_inv_def offsets_ok_def statistics_def ts_set_held_def)

lemma ts_inv_fields [simp]:
  "ts_inv d (s\<lparr>ts_config := c\<rparr>) = ts_inv d s" "ts_inv d (s\<lparr>ts_handler := h\<rparr>) = ts_inv d s"
  "ts_inv d (s\<lparr>local_offset := v\<rparr>) = ts_inv d s" "ts_inv d (s\<lparr>sync_nodes := ns\<rparr>) = ts_inv d s"
  "ts_inv d (s\<lparr>logical_counter := l, last_physical_time := p\<rparr>) = ts_inv d s"
  "ts_inv d (s\<lparr>ts_stop_threads := b, ts_is_running := r\<rparr>) = ts_inv d s"
  "ts_inv d (s\<lparr>ts_config := c, ts_stop_threads := b, ts_is_running := r\<rparr>) = ts_inv d s"
  "ts_inv d (ts_notify e s) = ts_inv d s"
  by (simp_all add: ts_inv_def offsets_ok_def statistics_def ts_notify_def)

lemma ts_held_notify [simp]: "ts_held (ts_notify e s) = ts_held s"
  by (simp add: ts_notify_def)

lemma list_all_update: "list_all P xs \<Longrightarrow> P (k, v) \<Longrightarrow> list_all P (AList.update k v xs)"
  by (induction xs) auto

lemma ts_inv_set_offset:
  assumes "ts_inv c s" and "offset_ok (n, info)"
  shows "ts_inv c (set_offset_info n info s)"
  using assms by (simp add: ts_inv_def offsets_ok_def statistics_def set_offset_info_def
      distinct_update list_all_update)

lemma offset_ok_of: "ts_inv c s \<Longrightarrow> offset_of s n = Some info \<Longrightarrow> offset_ok (n, info)"
  by (auto simp: ts_inv_def offsets_ok_def list_all_iff dest: map_of_SomeD)

section \<open>Operations\<close>

abbreviation ts_keeps :: "u64 \<times> u64 \<times> u64 \<Rightarrow> (time_service, 'a) op \<Rightarrow> bool" where
  "ts_keeps c \<equiv> op_keeps (\<lambda>s. ts_inv c s \<and> \<not> ts_held s)"

lemma ts_keeps_locked:
  assumes "\<And>s r t. ts_inv c s \<Longrightarrow> body s = Some (r, t) \<Longrightarrow> ts_inv c t"
  shows "ts_keeps c (ts_locked body)"
  by (intro op_keeps_conj ts_mx.keeps_guarded ts_mx.keeps_free ts_inv_held) (rule assms)

lemma ts_keeps_start: "ts_keeps c (ts_start config)" and ts_keeps_stop: "ts_keeps c (ts_stop w)"
  and ts_keeps_handler: "ts_keeps c (ts_set_event_handler h)"
  and ts_keeps_config: "ts_keeps c (ts_update_config config)"
  and ts_keeps_add: "ts_keeps c (ts_add_node n)"
  unfolding ts_start_def ts_stop_def ts_set_event_handler_def ts_update_config_def ts_add_node_def
  by (intro ts_keeps_locked; auto split: if_splits)+

lemma ts_inv_filter: "ts_inv c s \<Longrightarrow> ts_inv c (s\<lparr>node_offsets := filter P (node_offsets s)\<rparr>)"
  by (auto simp: ts_inv_def offsets_ok_def statistics_def list_all_iff distinct_map_filter)

lemma ts_keeps_remove: "ts_keeps c (ts_remove_node n)"
  unfolding ts_remove_node_def
proof (rule ts_keeps_locked, goal_cases)
  case (1 s r t)
  from ts_inv_filter [of c "s\<lparr>sync_nodes := removeAll n (sync_nodes s)\<rparr>" "\<lambda>(n', _). n \<noteq> n'"] 1
  show ?case by (auto simp: AList.delete_eq)
qed

lemma ts_keeps_cleanup: "ts_keeps c (cleanup_expired_offsets now)"
  unfolding cleanup_expired_offsets_def by (rule ts_keeps_locked) (auto intro: ts_inv_filter)

lemma report_drift_inv [simp]: "ts_inv c (report_drift es s) = ts_inv c s"
  by (induction es s rule: report_drift.induct) auto

lemma ts_keeps_drift: "ts_keeps c detect_clock_drift"
  unfolding detect_clock_drift_def by (rule ts_keeps_locked) auto

lemma ts_keeps_now_logical: "ts_keeps c (now_logical now)"
  unfolding now_logical_def
  by (rule ts_keeps_locked) (auto simp: increment_logical_clock_def Let_def split: if_splits)

lemma ts_keeps_update_logical: "ts_keeps c (update_logical_clock now received)"
  unfolding update_logical_clock_def
proof (rule ts_keeps_locked, goal_cases)
  case (1 s r t)
  have "ts_inv c t" if "relock ts_held (returning (now_logical now)) s = Some (r, t)"
  proof (cases "ts_held s")
    case False
    with that op_keepsD [OF ts_keeps_now_logical [of c]] 1(1) show ?thesis by fastforce
  qed (use that 1(1) in simp)
  with 1 show ?case by (auto simp: Let_def split: if_splits)
qed

lemma ts_keeps_set_offset: "ts_keeps c (set_offset now n offset)"
  unfolding set_offset_def
proof (rule ts_keeps_locked, goal_cases)
  case (1 s r t)
  then show ?case
    using offset_ok_of [OF 1(1), of n]
    by (auto simp: offset_ok_def ClockOffsetInfo_def intro!: ts_inv_set_offset split: option.splits)
qed

lemma real_of_u32: "0 \<le> (unsigned (w :: u32) :: real)"
  using of_nat_0_le_iff [of "unat w", where ?'a = real] by (metis of_nat_unat)

lemma ts_keeps_sample:
  assumes "0 \<le> uncertainty" and "uncertainty \<le> 50"
  shows "ts_keeps c (update_offset_with_sample now n sample uncertainty)"
  unfolding update_offset_with_sample_def
proof (rule ts_keeps_locked, goal_cases)
  case (1 s r t)
  then show ?case
    using offset_ok_of [OF 1(1), of n] assms
    by (auto simp: real_of_u32 offset_ok_def ClockOffsetInfo_def intro!: ts_inv_set_offset split: option.splits)
qed

lemma ts_keeps_berkeley: "ts_keeps c berkeley_algorithm"
  unfolding berkeley_algorithm_def by (rule ts_keeps_locked) (auto simp: Let_def split: if_splits)

lemma ts_keeps_get_nodes: "ts_keeps c get_sync_nodes"
  unfolding get_sync_nodes_def by (rule ts_keeps_locked) auto

lemma try_ntp_inv:
  "try_ntp_servers random servers s = (r, t) \<Longrightarrow> ts_inv c s \<and> \<not> ts_held s \<Longrightarrow> ts_inv c t \<and> \<not> ts_held t"
  by (induction random servers s rule: try_ntp_servers.induct)
    (auto simp: sync_with_ntp_server_def query_ntp_server_def)

lemma sync_with_ntp_inv:
  "sync_with_ntp random s = (r, t) \<Longrightarrow> ts_inv c s \<and> \<not> ts_held s \<Longrightarrow> ts_inv c t \<and> \<not> ts_held t"
  by (auto simp: sync_with_ntp_def split: if_splits dest: try_ntp_inv)

text \<open>A message never changes the service: it is ignored, or its handler throws.\<close>

lemma message_same: "handle_sync_message now msg s = Some (r, t) \<Longrightarrow> t = s"
  by (cases "sm_type msg") (auto simp: handle_sync_message_def handle_time_request_def
      handle_time_response_def handle_offset_update_def returning_def and_then_def Let_def
      ts_mx.set_set ts_mx.set_same elim!: guarded_SomeE)

lemma ts_keeps_message: "ts_keeps c (handle_sync_message now msg)"
  by (rule op_keepsI) (auto dest: message_same)

section \<open>Runs\<close>

text \<open>
  The calls of the service that are one critical section, or touch nothing that another step reads.
  A turn of \<open>sync_loop\<close> is a sequence of such steps and of attempts; it stores a new local offset in a
  step of its own, with any value.
\<close>

inductive ts_call :: "time_service \<Rightarrow> time_service \<Rightarrow> bool" where
  ts_call_start: "ts_start config s = Some (r, t) \<Longrightarrow> ts_call s t"
| ts_call_stop: "ts_stop waiting s = Some (r, t) \<Longrightarrow> ts_call s t"
| ts_call_add: "ts_add_node n s = Some (v, t) \<Longrightarrow> ts_call s t"
| ts_call_remove: "ts_remove_node n s = Some (v, t) \<Longrightarrow> ts_call s t"
| ts_call_handler: "ts_set_event_handler present s = Some (v, t) \<Longrightarrow> ts_call s t"
| ts_call_config: "ts_update_config config s = Some (v, t) \<Longrightarrow> ts_call s t"
| ts_call_now: "now_logical now s = Some (c, t) \<Longrightarrow> ts_call s t"
| ts_call_received: "update_logical_clock now received s = Some (c, t) \<Longrightarrow> ts_call s t"
| ts_call_offset: "set_offset now n offset s = Some (r, t) \<Longrightarrow> ts_call s t"
| ts_call_ntp: "sync_with_ntp random s = (r, t) \<Longrightarrow> ts_call s t"
| ts_call_message: "handle_sync_message now msg s = Some (a, t) \<Longrightarrow> ts_call s t"
| ts_call_nodes: "get_sync_nodes s = Some (ns, t) \<Longrightarrow> ts_call s t"
| ts_call_berkeley: "berkeley_algorithm s = Some (b, t) \<Longrightarrow> ts_call s t"
| ts_call_adjust: "ts_call s (s\<lparr>local_offset := v\<rparr>)"
| ts_call_drift: "detect_clock_drift s = Some (v, t) \<Longrightarrow> ts_call s t"
| ts_call_cleanup: "cleanup_expired_offsets now s = Some (v, t) \<Longrightarrow> ts_call s t"

lemmas ts_keep_rules = ts_keeps_start ts_keeps_stop ts_keeps_add ts_keeps_remove ts_keeps_handler
  ts_keeps_config ts_keeps_now_logical ts_keeps_update_logical ts_keeps_set_offset ts_keeps_message
  ts_keeps_get_nodes ts_keeps_berkeley ts_keeps_drift ts_keeps_cleanup

lemma ts_call_inv: "ts_call s t \<Longrightarrow> ts_inv c s \<and> \<not> ts_held s \<Longrightarrow> ts_inv c t \<and> \<not> ts_held t"
  by (induction rule: ts_call.induct) (blast dest: ts_keep_rules [THEN op_keepsD] sync_with_ntp_inv | simp)+

text \<open>
  The service with its attempts in progress: the nodes whose measurement sleeps, and those whose
  sample is entered but not yet counted. \<open>made\<close> is the number of attempts begun so far, which the
  64-bit counter holds modulo \<open>2^64\<close>.
\<close>

record sync_run =
  service :: time_service
  measuring :: "node_id list"
  entered :: "(node_id \<times> millis) list"
  made :: nat

inductive sync_step :: "sync_run \<Rightarrow> sync_run \<Rightarrow> bool" where
  sync_call: "ts_call (service r) t \<Longrightarrow> sync_step r (r\<lparr>service := t\<rparr>)"
| sync_begins: "sync_step r (r\<lparr>service := sync_begin (service r), measuring := n # measuring r,
     made := Suc (made r)\<rparr>)"
| sync_enters: "n \<in> set (measuring r) \<Longrightarrow> measure_offset_with_node t0 t1 t2 = Ok offset \<Longrightarrow>
     update_offset_with_sample now n offset 50 (service r) = Some (v, t) \<Longrightarrow>
     sync_step r (r\<lparr>service := t, measuring := remove1 n (measuring r), entered := (n, offset) # entered r\<rparr>)"
| sync_counts: "(n, offset) \<in> set (entered r) \<Longrightarrow>
     sync_step r (r\<lparr>service := sync_success n offset (service r), entered := remove1 (n, offset) (entered r)\<rparr>)"

definition new_run :: "time_point \<Rightarrow> sync_run" where
  "new_run now = \<lparr>service = TimeService_new now, measuring = [], entered = [], made = 0\<rparr>"

definition sync_reachable :: "sync_run \<Rightarrow> bool" where
  "sync_reachable r \<longleftrightarrow> (\<exists>now. sync_step\<^sup>*\<^sup>* (new_run now) r)"

definition in_progress :: "sync_run \<Rightarrow> nat" where
  "in_progress r = length (measuring r) + length (entered r)"

definition through :: "sync_run \<Rightarrow> nat" where
  "through r = made r - in_progress r"

lemma progress_service [simp]:
  "in_progress (r\<lparr>service := s\<rparr>) = in_progress r" "through (r\<lparr>service := s\<rparr>) = through r"
  by (simp_all add: in_progress_def through_def)

text \<open>No attempt fails, because the measurement sends nothing: each one is through or in progress.\<close>

definition run_inv :: "sync_run \<Rightarrow> bool" where
  "run_inv r \<longleftrightarrow> in_progress r \<le> made r \<and> \<not> ts_held (service r)
     \<and> ts_inv (of_nat (made r), of_nat (through r), 0) (service r)"

lemma success_inv:
  "ts_inv (a, of_nat k, f) s \<Longrightarrow> ts_inv (a, of_nat (Suc k), f) (sync_success n offset s)"
  "ts_held (sync_success n offset s) = ts_held s"
  by (simp_all add: sync_success_def ts_inv_def offsets_ok_def statistics_def ts_notify_def add.commute)

lemma sync_step_inv:
  assumes "sync_step r r'" and "run_inv r"
  shows "run_inv r' \<and> made r \<le> made r'"
  using assms
proof (induction rule: sync_step.induct)
  case (sync_call r t)
  then show ?case using ts_call_inv [OF sync_call(1), of "(of_nat (made r), of_nat (through r), 0)"]
    by (simp add: run_inv_def)
next
  case (sync_begins r n)
  then show ?case
    by (auto simp: run_inv_def in_progress_def through_def sync_begin_def ts_inv_def offsets_ok_def statistics_def)
next
  case (sync_enters n r t0 t1 t2 offset now v t)
  have "ts_inv (of_nat (made r), of_nat (through r), 0) t \<and> \<not> ts_held t"
    using op_keepsD [OF ts_keeps_sample [of 50 "(of_nat (made r), of_nat (through r), 0)"] sync_enters(3)]
      sync_enters(4)
    by (simp add: run_inv_def)
  moreover
  let ?r = "r\<lparr>service := t, measuring := remove1 n (measuring r), entered := (n, offset) # entered r\<rparr>"
  have "0 < length (measuring r)" using sync_enters(1) by (cases "measuring r") auto
  then have same: "in_progress ?r = in_progress r"
    using sync_enters(1) by (simp add: in_progress_def length_remove1)
  then have "through ?r = through r" by (simp add: through_def)
  ultimately show ?case
    using same sync_enters(4) by (simp add: run_inv_def)
next
  case (sync_counts n offset r)
  let ?r = "r\<lparr>service := sync_success n offset (service r), entered := remove1 (n, offset) (entered r)\<rparr>"
  have "0 < length (entered r)" using sync_counts(1) by (cases "entered r") auto
  then have one: "in_progress r = Suc (in_progress ?r)"
    using sync_counts(1) by (simp add: in_progress_def length_remove1)
  moreover have "in_progress r \<le> made r" using sync_counts(2) by (simp add: run_inv_def)
  moreover have "made ?r = made r" by simp
  ultimately have "through ?r = Suc (through r)" "in_progress ?r \<le> made r"
    unfolding through_def by arith+
  then show ?case
    using sync_counts(2) success_inv(1) [of "of_nat (made r)" "through r" 0 "service r" n offset] success_inv(2)
    by (simp add: run_inv_def)
qed

lemma sync_run_inv: "sync_step\<^sup>*\<^sup>* r r' \<Longrightarrow> run_inv r \<Longrightarrow> run_inv r' \<and> made r \<le> made r'"
  by (induction rule: rtranclp_induct) (auto dest: sync_step_inv)

lemma sync_reachable_inv: "sync_reachable r \<Longrightarrow> run_inv r"
proof -
  assume "sync_reachable r"
  then obtain now where "sync_step\<^sup>*\<^sup>* (new_run now) r" by (auto simp: sync_reachable_def)
  moreover have "run_inv (new_run now)"
    by (simp add: run_inv_def in_progress_def through_def ts_inv_def offsets_ok_def statistics_def new_run_def
        TimeService_new_def)
  ultimately show ?thesis using sync_run_inv by blast
qed

section \<open>The quality of the synchronisation\<close>

lemma estimated_uncertainty_nonneg:
  assumes "\<not> ts_held s"
  shows "\<exists>u. get_estimated_uncertainty s = Some (u, s) \<and> 0 \<le> u"
proof -
  have "0 \<le> sample_variance xs" for xs
    unfolding sample_variance_def by (intro divide_nonneg_nonneg sum_list_nonneg) auto
  then have "0 \<le> cut (sqrt (sample_variance xs))" for xs by (simp add: cut_def)
  with assms show ?thesis
    by (auto simp: get_estimated_uncertainty_def guarded_def Let_def ts_mx.set_set ts_mx.set_same)
qed

lemma real_of_u64_zero: "(unsigned (w :: u64) :: real) = 0 \<longleftrightarrow> w = 0"
  by (metis of_nat_eq_0_iff of_nat_unat unat_eq_zero)

lemma sum_list_unit:
  "(\<And>x. x \<in> set xs \<Longrightarrow> 0 \<le> x \<and> x \<le> (1 :: real)) \<Longrightarrow> 0 \<le> sum_list xs \<and> sum_list xs \<le> real (length xs)"
  by (induction xs) (auto, fastforce+)

lemma mean_unit:
  assumes "xs \<noteq> []" and "\<And>x. x \<in> set xs \<Longrightarrow> 0 \<le> x \<and> x \<le> (1 :: real)"
  shows "0 \<le> sum_list xs / real (length xs) \<and> sum_list xs / real (length xs) \<le> 1"
  using sum_list_unit [OF assms(2)] assms(1) by (simp add: divide_le_eq_1)

lemma sync_quality_function:
  assumes "offsets_ok s" and "0 < max_uncertainty"
  shows "\<exists>q. calculate_sync_quality (map snd (node_offsets s)) max_uncertainty = Some q \<and> 0 \<le> q \<and> q \<le> 1"
proof (cases "node_offsets s = []")
  case True
  then show ?thesis by (simp add: calculate_sync_quality_def)
next
  case False
  let ?os = "map snd (node_offsets s)"
  let ?c = "map confidence ?os"
  let ?f = "map (\<lambda>info. max 0 (1 - of_int (oi_uncertainty info) / of_int max_uncertainty)) ?os :: real list"
  have ok: "0 \<le> confidence info \<and> confidence info \<le> 1 \<and> 0 \<le> oi_uncertainty info" if "(n, info) \<in> set (node_offsets s)" for n info
    using that assms(1) by (auto simp: offsets_ok_def list_all_iff offset_ok_def)
  define a b where "a = sum_list ?c / real (length ?c)" and "b = sum_list ?f / real (length ?f)"
  have "0 \<le> a \<and> a \<le> 1"
    unfolding a_def b_def using False by (intro mean_unit) (auto dest: ok)
  moreover have "0 \<le> b \<and> b \<le> 1"
    unfolding a_def b_def using False assms(2) by (intro mean_unit) (auto dest: ok intro!: divide_nonneg_pos)
  moreover have "calculate_sync_quality ?os max_uncertainty = Some ((a + b) / 2)"
    using False assms(2) by (simp add: calculate_sync_quality_def a_def b_def Let_def)
  ultimately show ?thesis by (intro exI [of _ "(a + b) / 2"]) auto
qed

text \<open>A whole attempt, and a whole turn of \<open>sync_loop\<close>, undisturbed.\<close>

definition quiet :: "time_point \<times> time_point \<times> time_point \<times> time_point \<Rightarrow> sync_conditions" where
  "quiet clock = \<lparr>sleep_window = id, count_window = id, sync_clock = clock\<rparr>"

lemma sync_with_node_runs:
  assumes "sync_with_node (quiet clock) n (service r) = Some (v, t)"
  shows "sync_step\<^sup>*\<^sup>* r (r\<lparr>service := t, made := Suc (made r)\<rparr>)"
proof -
  obtain t0 t1 t2 t3 where clock: "clock = (t0, t1, t2, t3)" by (cases clock) auto
  obtain offset where m: "measure_offset_with_node t0 t1 t2 = Ok offset"
    by (simp add: measure_offset_with_node_def Let_def)
  let ?r1 = "r\<lparr>service := sync_begin (service r), measuring := n # measuring r, made := Suc (made r)\<rparr>"
  obtain q u where u: "update_offset_with_sample t3 n offset 50 (service ?r1) = Some (q, u)"
    "t = sync_success n offset u"
    using assms m clock by (auto simp: sync_with_node_def quiet_def bind_eq_Some_conv)
  let ?r2 = "?r1\<lparr>service := u, measuring := remove1 n (measuring ?r1), entered := (n, offset) # entered ?r1\<rparr>"
  have "sync_step r ?r1" by (rule sync_begins)
  moreover have "sync_step ?r1 ?r2" by (rule sync_enters [OF _ m u(1)]) simp
  moreover have "sync_step ?r2 (?r2\<lparr>service := sync_success n offset (service ?r2),
      entered := remove1 (n, offset) (entered ?r2)\<rparr>)"
    by (rule sync_counts) simp
  ultimately have "sync_step\<^sup>*\<^sup>* r (?r2\<lparr>service := sync_success n offset (service ?r2),
      entered := remove1 (n, offset) (entered ?r2)\<rparr>)"
    by (blast intro: rtranclp_trans)
  then show ?thesis by (cases r) (simp add: u(2))
qed

lemma sync_each_runs:
  assumes "sync_each (\<lambda>n. quiet (clock n)) ns (service r) = Some (v, t)"
  shows "sync_step\<^sup>*\<^sup>* r (r\<lparr>service := t, made := made r + length ns\<rparr>)"
  using assms
proof (induction ns arbitrary: r)
  case (Cons n ns)
  then obtain q u where u: "sync_with_node (quiet (clock n)) n (service r) = Some (q, u)"
    "sync_each (\<lambda>n. quiet (clock n)) ns u = Some (v, t)"
    by (auto simp: bind_eq_Some_conv)
  with sync_with_node_runs [OF u(1)] Cons.IH [of "r\<lparr>service := u, made := Suc (made r)\<rparr>"] show ?case
    by (auto intro: rtranclp_trans)
next
  case Nil
  then show ?case by (cases r) simp
qed

lemma sync_calls: "ts_call\<^sup>*\<^sup>* (service r) t \<Longrightarrow> sync_step\<^sup>*\<^sup>* r (r\<lparr>service := t\<rparr>)"
proof (induction rule: rtranclp_induct)
  case base
  then show ?case by (cases r) simp
next
  case (step t u)
  have "sync_step (r\<lparr>service := t\<rparr>) (r\<lparr>service := t\<rparr>\<lparr>service := u\<rparr>)"
    by (rule sync_call) (simp add: step)
  with step.IH show ?case by simp
qed

lemma sync_pass_runs:
  assumes "sync_pass (\<lambda>n. quiet (clock n)) now (service r) = Some (v, t)"
  shows "\<exists>k. sync_step\<^sup>*\<^sup>* r (r\<lparr>service := t, made := made r + k\<rparr>)"
proof -
  from assms obtain ns s1 s2 s3 s4 where
      "get_sync_nodes (service r) = Some (ns, s1)"
    and each: "sync_each (\<lambda>n. quiet (clock n)) ns s1 = Some ((), s2)"
    and adj: "(if length ns \<ge> unat (min_samples (ts_config s2))
               then do { (q, s) \<leftarrow> berkeley_algorithm s2;
                         Some (case q of Ok v \<Rightarrow> s\<lparr>local_offset := v\<rparr> | Error _ _ \<Rightarrow> s) }
               else Some s2) = Some s3"
    and rest: "detect_clock_drift s3 = Some ((), s4)" "cleanup_expired_offsets now s4 = Some (v, t)"
    by (auto simp: sync_pass_def bind_eq_Some_conv)
  then have "ts_call\<^sup>*\<^sup>* (service r) s1" by (blast intro: ts_call_nodes)
  from sync_calls [OF this] sync_each_runs [of clock ns "r\<lparr>service := s1\<rparr>"] each
  have "sync_step\<^sup>*\<^sup>* r (r\<lparr>service := s2, made := made r + length ns\<rparr>)"
    by (auto intro: rtranclp_trans)
  moreover have "ts_call\<^sup>*\<^sup>* s2 s3"
  proof (cases "length ns \<ge> unat (min_samples (ts_config s2))")
    case True
    with adj obtain q s where b: "berkeley_algorithm s2 = Some (q, s)"
      "s3 = (case q of Ok v \<Rightarrow> s\<lparr>local_offset := v\<rparr> | Error _ _ \<Rightarrow> s)"
      by (auto simp: bind_eq_Some_conv)
    have "ts_call s2 s" by (rule ts_call_berkeley [OF b(1)])
    then show ?thesis
      using ts_call_adjust [of s] by (cases q) (auto simp: b(2) intro: rtranclp.intros)
  qed (use adj in simp)
  then have "ts_call\<^sup>*\<^sup>* s2 t"
    using ts_call_drift [OF rest(1)] ts_call_cleanup [OF rest(2)] by (blast intro: rtranclp_trans)
  from sync_calls [of "r\<lparr>service := s2, made := made r + length ns\<rparr>" t] this
  have "sync_step\<^sup>*\<^sup>* (r\<lparr>service := s2, made := made r + length ns\<rparr>)
      (r\<lparr>service := t, made := made r + length ns\<rparr>)" by (cases r) simp
  ultimately show ?thesis by (blast intro: rtranclp_trans)
qed

text \<open>C35: the service counts every attempt to synchronise as through or in progress, none as failed.
  Let \<open>get_sync_quality\<close> read the offsets, the attempts and the successes at three moments of any run
  in which fewer than \<open>2^64\<close> attempts begin. The quality it reports (a real number here, rounding is
  not modelled) is not negative; it is 0 exactly when no attempt had begun at the second moment or
  none was through at the third; and it is at most 1 when no attempt began between these two. The
  quality that \<open>time_utils\<close> computes of the offsets is from 0 to 1, and every node has at most one
  offset, under its own name.\<close>

theorem sync_quality_bounds:
  assumes "sync_reachable r0" and "sync_step\<^sup>*\<^sup>* r0 r1" and "sync_step\<^sup>*\<^sup>* r1 r2"
    and "w1 (service r0) = service r1" and "w2 (service r1) = service r2"
    and "made r2 < 2 ^ 64" and "0 < max_uncertainty"
  shows "(\<exists>q. get_sync_quality w1 w2 (service r0) = Some (q, service r2) \<and> 0 \<le> q
      \<and> (q = 0 \<longleftrightarrow> sync_attempts (service r1) = 0 \<or> sync_successes (service r2) = 0)
      \<and> (sync_attempts (service r2) = sync_attempts (service r1) \<longrightarrow> q \<le> 1))
    \<and> unat (sync_successes (service r2)) + length (measuring r2) + length (entered r2)
        = unat (sync_attempts (service r2))
    \<and> sync_failures (service r2) = 0
    \<and> (\<exists>q. calculate_sync_quality (map snd (node_offsets (service r2))) max_uncertainty = Some q
        \<and> 0 \<le> q \<and> q \<le> 1)
    \<and> distinct (map fst (node_offsets (service r2)))
    \<and> list_all (\<lambda>(n, info). oi_node info = n) (node_offsets (service r2))"
proof -
  let ?s0 = "service r0" and ?s1 = "service r1" and ?s2 = "service r2"
  note i0 = sync_reachable_inv [OF assms(1)]
  note i1 = sync_run_inv [OF assms(2) i0]
  note i2 = sync_run_inv [OF assms(3) conjunct1 [OF i1]]
  have free: "\<not> ts_held ?s0" using i0 by (simp add: run_inv_def)
  have offs: "offsets_ok ?s2" and "sync_failures ?s2 = 0"
    using i2 by (simp_all add: run_inv_def ts_inv_def statistics_def)
  have a2: "unat (sync_attempts ?s2) = made r2" and s2: "unat (sync_successes ?s2) = through r2"
    and le: "in_progress r2 \<le> made r2"
    using i2 assms(6)
    by (simp_all add: run_inv_def ts_inv_def statistics_def unat_of_nat take_bit_nat_eq_self through_def
        del: of_nat_diff)
  obtain u where u: "get_estimated_uncertainty ?s0 = Some (u, ?s0)" "0 \<le> u"
    using estimated_uncertainty_nonneg [OF free] by blast
  define k where "k = 1 / (1 + of_int u / 100 :: real)"
  define x y where "x = real (unat (sync_successes ?s2))" and "y = real (unat (sync_attempts ?s1))"
  let ?q = "if sync_attempts ?s1 = 0 then 0 else x / y * k"
  have k: "0 < k" "k \<le> 1" using u(2) by (simp_all add: k_def divide_le_eq_1)
  have x: "0 \<le> x" "x = 0 \<longleftrightarrow> sync_successes ?s2 = 0"
    and y: "0 \<le> y" "y = 0 \<longleftrightarrow> sync_attempts ?s1 = 0"
    unfolding x_def y_def by (simp_all only: of_nat_0_le_iff of_nat_eq_0_iff unat_eq_zero)
  have "get_sync_quality w1 w2 ?s0 = Some (?q, ?s2)"
    by (simp add: get_sync_quality_def u(1) assms(4,5) Let_def x_def y_def k_def)
  moreover have "0 \<le> ?q" using k x y by simp
  moreover have "?q = 0 \<longleftrightarrow> sync_attempts ?s1 = 0 \<or> sync_successes ?s2 = 0"
    using k x y by auto
  moreover have "?q \<le> 1" if "sync_attempts ?s2 = sync_attempts ?s1"
  proof (cases "sync_attempts ?s1 = 0")
    case False
    have "unat (sync_successes ?s2) \<le> unat (sync_attempts ?s1)"
      using a2 s2 that by (simp add: through_def)
    then have "x \<le> y" unfolding x_def y_def by (simp only: of_nat_le_iff)
    moreover have "0 < y" using y False by simp
    ultimately have "x / y \<le> 1" by simp
    then have "x / y * k \<le> 1 * 1" using k x y by (intro mult_mono) auto
    then show ?thesis by simp
  qed simp
  moreover have "through r2 + length (measuring r2) + length (entered r2) = made r2"
    using le by (simp add: through_def in_progress_def)
  moreover have "distinct (map fst (node_offsets ?s2))" "list_all (\<lambda>(n, info). oi_node info = n) (node_offsets ?s2)"
    using offs by (auto simp: offsets_ok_def offset_ok_def list_all_iff)
  ultimately show ?thesis
    using sync_quality_function [OF offs assms(7)] \<open>sync_failures ?s2 = 0\<close> a2 s2 by auto
qed

definition first_attempt :: sync_run where
  "first_attempt = (new_run 0)\<lparr>service := sync_begin (TimeService_new 0), measuring := [''n''], made := 1\<rparr>"

definition run_service :: time_service where
  "run_service = snd (the (sync_with_node (quiet (0, 10000000, 10000000, 10000000)) ''n'' (TimeService_new 0)))"

lemmas sync_attempt_defs = sync_with_node_def quiet_def sync_begin_def sync_success_def
  measure_offset_with_node_def update_offset_with_sample_def guarded_def ts_set_held_def
  TimeService_new_def ts_notify_def set_offset_info_def ClockOffsetInfo_def TimeSyncConfig_def
  millis_ns_def to_millis_def Let_def

lemma run_service:
  "sync_with_node (quiet (0, 10000000, 10000000, 10000000)) ''n'' (TimeService_new 0)
    = Some (Ok (), run_service)"
  "sync_attempts run_service = 1" "sync_successes run_service = 1"
  by (simp_all add: run_service_def sync_attempt_defs)

theorem sync_quality_bounds_witness:
  "(\<exists>s. sync_attempts s = 1 \<and> get_sync_quality id id s = Some (0, s))
    \<and> (\<exists>q. get_sync_quality id id run_service = Some (q, run_service) \<and> 0 < q \<and> q \<le> 1)"
proof -
  have "sync_step (new_run 0) first_attempt"
    using sync_begins [of "new_run 0" "''n''"] by (simp add: first_attempt_def new_run_def)
  then have "sync_reachable first_attempt" unfolding sync_reachable_def by blast
  from sync_quality_bounds [OF this rtranclp.rtrancl_refl rtranclp.rtrancl_refl, of id id 1]
  have "get_sync_quality id id (service first_attempt) = Some (0, service first_attempt)"
    "sync_attempts (service first_attempt) = 1"
    by (auto simp: first_attempt_def sync_begin_def TimeService_new_def)
  moreover
  let ?r = "(new_run 0)\<lparr>service := run_service, made := 1\<rparr>"
  have "sync_step\<^sup>*\<^sup>* (new_run 0) ?r"
    using sync_with_node_runs [of _ "''n''" "new_run 0"] run_service(1) by (simp add: new_run_def)
  then have "sync_reachable ?r" unfolding sync_reachable_def by blast
  from sync_quality_bounds [OF this rtranclp.rtrancl_refl rtranclp.rtrancl_refl, of id id 1]
  have "\<exists>q. get_sync_quality id id run_service = Some (q, run_service) \<and> 0 < q \<and> q \<le> 1"
    using run_service(2,3) by auto
  ultimately show ?thesis by blast
qed

text \<open>The declaration of \<open>get_sync_quality\<close> says that the quality is from 0 to 1. An attempt that runs
  while another query has read the number of attempts takes it further: here one attempt is in
  progress at that moment, two more run, and the quality is 2.\<close>

definition two_offsets :: sync_run where
  "two_offsets = (new_run 0)\<lparr>service := (TimeService_new 0)\<lparr>node_offsets :=
     [(n, (ClockOffsetInfo 0)\<lparr>oi_node := n, last_sync := 0, sync_count := 1\<rparr>). n \<leftarrow> [''a'', ''b'']]\<rparr>\<rparr>"

theorem sync_quality_exceeds_one:
  "\<exists>r0 r1 r2 w1 w2. sync_reachable r0 \<and> sync_step\<^sup>*\<^sup>* r0 r1 \<and> sync_step\<^sup>*\<^sup>* r1 r2
    \<and> w1 (service r0) = service r1 \<and> w2 (service r1) = service r2
    \<and> get_sync_quality w1 w2 (service r0) = Some (2, service r2)"
proof -
  let ?s = "service two_offsets"
  let ?r1 = "two_offsets\<lparr>service := sync_begin ?s, measuring := [''n''], made := 1\<rparr>"
  let ?clock = "(0, 10000000, 10000000, 10000000)"
  obtain v t where t: "sync_each (\<lambda>n. quiet ?clock) [''a'', ''a''] (sync_begin ?s) = Some (v, t)"
    "sync_successes t = 2"
    by (simp add: two_offsets_def new_run_def sync_attempt_defs)
  let ?r2 = "?r1\<lparr>service := t, made := 3\<rparr>"
  have "ts_call\<^sup>*\<^sup>* (TimeService_new 0) ?s"
  proof (rule rtranclp.rtrancl_into_rtrancl [OF r_into_rtranclp])
    show "ts_call (TimeService_new 0) (snd (the (set_offset 0 ''a'' 0 (TimeService_new 0))))"
      by (rule ts_call_offset [of 0 "''a''" 0 _ "Ok ()"]) (simp add: set_offset_def sync_attempt_defs)
    show "ts_call (snd (the (set_offset 0 ''a'' 0 (TimeService_new 0)))) ?s"
      by (rule ts_call_offset [of 0 "''b''" 0 _ "Ok ()"])
        (simp add: two_offsets_def new_run_def set_offset_def sync_attempt_defs)
  qed
  then have "sync_reachable two_offsets"
    using sync_calls [of "new_run 0" ?s] by (auto simp: sync_reachable_def two_offsets_def new_run_def)
  moreover have "sync_step\<^sup>*\<^sup>* two_offsets ?r1"
    using sync_begins [of two_offsets "''n''"] by (auto simp: two_offsets_def new_run_def)
  moreover have "sync_step\<^sup>*\<^sup>* ?r1 ?r2"
    using sync_each_runs [of "\<lambda>_. ?clock" "[''a'', ''a'']" ?r1] t(1) by (simp add: numeral_eq_Suc)
  moreover have "get_sync_quality sync_begin (\<lambda>_. t) ?s = Some (2, t)"
    using t(2)
    by (simp add: get_sync_quality_def get_estimated_uncertainty_def sample_variance_def mean_of_def
        cut_def two_offsets_def new_run_def sync_attempt_defs)
  ultimately show ?thesis by fastforce
qed

end
