(* ===== verification/Hotspot.thy ===== *)
theory Hotspot
  imports Complex_Main Common_Types
begin

text \<open>
  The hotspot manager: \<open>include/cache/hotspot/hotspot_manager.h\<close> and
  \<open>src/hotspot/hotspot_manager.cpp\<close>. The access recorder is declared in the header and defined
  nowhere in the repository: its state and its two queries (\<open>get_top_keys\<close> and
  \<open>get_key_stats\<close>) are parameters. A shared lock of the manager's mutex is modelled like an
  exclusive one, since every section it protects is one atomic step. Doubles are reals. The
  mutex is a \<open>std::shared_mutex\<close>: a second lock by its holder throws (\<open>relock\<close>, \<open>Raises\<close>), and the
  loops of the threads catch the exception.
\<close>

section \<open>Data\<close>

datatype hotspot_level = NORMAL | WARM | HOT | CRITICAL

datatype hotspot_strategy =
    REPLICATION | PARTITIONING | CACHING | LOAD_BALANCING | RATE_LIMITING

datatype access_pattern = READ_HEAVY | WRITE_HEAVY | MIXED | BURST | PERIODIC

text \<open>The order of the enumeration, which \<open>hotspot.level >= HotspotLevel::HOT\<close> uses.\<close>

definition level_rank :: "hotspot_level \<Rightarrow> nat" where
  "level_rank l = (case l of NORMAL \<Rightarrow> 0 | WARM \<Rightarrow> 1 | HOT \<Rightarrow> 2 | CRITICAL \<Rightarrow> 3)"

instantiation hotspot_level :: linorder
begin

definition less_eq_hotspot_level :: "hotspot_level \<Rightarrow> hotspot_level \<Rightarrow> bool" where
  "less_eq_hotspot_level a b = (level_rank a \<le> level_rank b)"

definition less_hotspot_level :: "hotspot_level \<Rightarrow> hotspot_level \<Rightarrow> bool" where
  "less_hotspot_level a b = (level_rank a < level_rank b)"

instance
proof
  fix a b c :: hotspot_level
  show "a \<le> b \<Longrightarrow> b \<le> a \<Longrightarrow> a = b"
    by (cases a; cases b) (simp_all add: less_eq_hotspot_level_def level_rank_def)
qed (auto simp: less_eq_hotspot_level_def less_hotspot_level_def)

end

record hotspot_info =
  hi_key :: multi_level_key
  hi_level :: hotspot_level
  hi_pattern :: access_pattern
  total_access_count :: u64
  read_count :: u64
  write_count :: u64
  access_rate :: real
  first_detected :: time_point
  last_access :: time_point
  hi_window :: millis
  node_access_counts :: "(node_id \<times> u64) list"
  applied_strategies :: "hotspot_strategy list"

definition HotspotKeyInfo :: "time_point \<Rightarrow> hotspot_info" where
  "HotspotKeyInfo now = \<lparr>hi_key = MultiLevelKey [] [], hi_level = NORMAL, hi_pattern = MIXED,
     total_access_count = 0, read_count = 0, write_count = 0, access_rate = 0,
     first_detected = now, last_access = now, hi_window = 60000, node_access_counts = [],
     applied_strategies = []\<rparr>"

definition real_u64 :: "u64 \<Rightarrow> real" where "real_u64 w = real (unat w)"

definition get_read_ratio :: "hotspot_info \<Rightarrow> real" where
  "get_read_ratio h = (if total_access_count h > 0
     then real_u64 (read_count h) / real_u64 (total_access_count h) else 0)"

definition get_write_ratio :: "hotspot_info \<Rightarrow> real" where
  "get_write_ratio h = (if total_access_count h > 0
     then real_u64 (write_count h) / real_u64 (total_access_count h) else 0)"

definition is_read_heavy :: "hotspot_info \<Rightarrow> bool" where
  "is_read_heavy h = (get_read_ratio h > 0.8)"

definition is_write_heavy :: "hotspot_info \<Rightarrow> bool" where
  "is_write_heavy h = (get_write_ratio h > 0.5)"

record detection_config =
  warm_threshold :: u64
  hot_threshold :: u64
  critical_threshold :: u64
  detection_window :: millis
  cooling_period :: millis
  max_node_access_ratio :: real
  min_nodes_for_distribution :: nat
  enable_pattern_detection :: bool
  burst_detection_window :: millis
  burst_multiplier :: real

definition HotspotDetectionConfig :: detection_config where
  "HotspotDetectionConfig = \<lparr>warm_threshold = 1000, hot_threshold = 5000,
     critical_threshold = 20000, detection_window = 60000, cooling_period = 300000,
     max_node_access_ratio = 0.7, min_nodes_for_distribution = 2,
     enable_pattern_detection = True, burst_detection_window = 10000, burst_multiplier = 5\<rparr>"

record handling_config =
  max_replicas :: nat
  min_replicas_for_hot :: nat
  local_cache_size :: nat
  cache_ttl :: millis
  max_qps_per_key :: u64
  rate_limit_window :: millis
  enable_key_partitioning :: bool
  max_partitions_per_key :: nat
  auto_handle_hotspots :: bool
  preferred_strategies :: "hotspot_strategy list"

definition HotspotHandlingConfig :: handling_config where
  "HotspotHandlingConfig = \<lparr>max_replicas = 5, min_replicas_for_hot = 3,
     local_cache_size = 10000, cache_ttl = 300000, max_qps_per_key = 10000,
     rate_limit_window = 1000, enable_key_partitioning = True, max_partitions_per_key = 4,
     auto_handle_hotspots = True, preferred_strategies = [REPLICATION, CACHING]\<rparr>"

datatype hotspot_event_type =
    HOTSPOT_DETECTED | HOTSPOT_RESOLVED | STRATEGY_APPLIED | STRATEGY_REMOVED

record hotspot_event =
  he_type :: hotspot_event_type
  he_key :: multi_level_key
  he_level :: hotspot_level
  he_strategy :: hotspot_strategy
  he_timestamp :: time_point
  he_details :: string

definition HotspotEvent :: "time_point \<Rightarrow> hotspot_event" where
  "HotspotEvent now = \<lparr>he_type = HOTSPOT_DETECTED, he_key = MultiLevelKey [] [],
     he_level = NORMAL, he_strategy = REPLICATION, he_timestamp = now, he_details = []\<rparr>"

text \<open>The calls of the registered event handler, in their order.\<close>

datatype handler_call =
    OnDetected hotspot_info
  | OnResolved multi_level_key
  | OnApplied multi_level_key hotspot_strategy
  | OnFailed multi_level_key hotspot_strategy string

section \<open>The manager\<close>

record 'r hotspot_manager =
  hm_detection :: detection_config
  hm_handling :: handling_config
  recorder :: 'r
  hm_handler :: bool
  hm_calls :: "handler_call list"
  current_hotspots :: "(multi_level_key \<times> hotspot_info) list"
  recent_events :: "hotspot_event list"
  hm_running :: bool
  hm_stop_threads :: bool
  hm_held :: bool

definition HotspotManager_new :: "'r \<Rightarrow> 'r hotspot_manager" where
  "HotspotManager_new r = \<lparr>hm_detection = HotspotDetectionConfig,
     hm_handling = HotspotHandlingConfig, recorder = r, hm_handler = False, hm_calls = [],
     current_hotspots = [], recent_events = [], hm_running = False, hm_stop_threads = False,
     hm_held = False\<rparr>"

definition hm_set_held :: "bool \<Rightarrow> 'r hotspot_manager \<Rightarrow> 'r hotspot_manager" where
  "hm_set_held b s = s\<lparr>hm_held := b\<rparr>"

interpretation hm_mx: mutex_class hm_held hm_set_held
  by unfold_locales (auto simp: hm_set_held_def)

abbreviation hm_locked :: "('r hotspot_manager, 'a) op \<Rightarrow> ('r hotspot_manager, 'a) op" where
  "hm_locked \<equiv> guarded hm_held hm_set_held"

text \<open>
  \<open>stop\<close> joins the three threads while it holds the mutex; if one of them is waiting for the mutex
  at that moment (\<open>thread_waiting\<close>), neither goes on.
\<close>

definition hm_start ::
    "detection_config \<Rightarrow> handling_config \<Rightarrow> ('r hotspot_manager, unit result) op" where
  "hm_start detection handling = hm_locked (\<lambda>s.
     if hm_running s then Some (Ok (), s)
     else Some (Ok (), s\<lparr>hm_detection := detection, hm_handling := handling,
       hm_stop_threads := False, hm_running := True\<rparr>))"

definition hm_stop :: "bool \<Rightarrow> ('r hotspot_manager, unit result) op" where
  "hm_stop thread_waiting = hm_locked (\<lambda>s.
     if \<not> hm_running s then Some (Ok (), s)
     else if thread_waiting then None
     else Some (Ok (), s\<lparr>hm_stop_threads := True, hm_running := False\<rparr>))"

definition hm_delete :: "bool \<Rightarrow> ('r hotspot_manager, unit) op" where
  "hm_delete thread_waiting = destructor hm_running (hm_stop thread_waiting)"

text \<open>\<open>record\<close> is the recorder's own operation; the manager forwards only while it runs.\<close>

definition hm_record_access ::
    "(multi_level_key \<Rightarrow> 'o \<Rightarrow> node_id \<Rightarrow> 'r \<Rightarrow> 'r) \<Rightarrow> multi_level_key \<Rightarrow> 'o \<Rightarrow> node_id
      \<Rightarrow> 'r hotspot_manager \<Rightarrow> 'r hotspot_manager" where
  "hm_record_access recording key op_type node s =
     (if \<not> hm_running s then s else s\<lparr>recorder := recording key op_type node (recorder s)\<rparr>)"

definition calculate_hotspot_level :: "detection_config \<Rightarrow> hotspot_info \<Rightarrow> hotspot_level" where
  "calculate_hotspot_level config h =
     (if total_access_count h \<ge> critical_threshold config then CRITICAL
      else if total_access_count h \<ge> hot_threshold config then HOT
      else if total_access_count h \<ge> warm_threshold config then WARM
      else NORMAL)"

definition detect_access_pattern :: "hotspot_info \<Rightarrow> access_pattern" where
  "detect_access_pattern h = BURST"

definition select_strategies :: "hotspot_info \<Rightarrow> hotspot_strategy list" where
  "select_strategies h = (case hi_level h of
     CRITICAL \<Rightarrow> [REPLICATION, PARTITIONING, LOAD_BALANCING]
   | HOT \<Rightarrow> [REPLICATION, LOAD_BALANCING]
   | WARM \<Rightarrow> [LOAD_BALANCING]
   | NORMAL \<Rightarrow> [])"

fun classify_keys ::
    "detection_config \<Rightarrow> (multi_level_key \<Rightarrow> hotspot_info) \<Rightarrow> multi_level_key list
      \<Rightarrow> hotspot_info list" where
  "classify_keys config stats [] = []"
| "classify_keys config stats (key # keys) =
     (let info = stats key;
          info = info\<lparr>hi_level := calculate_hotspot_level config info\<rparr>
      in if hi_level info \<noteq> NORMAL then info # classify_keys config stats keys
         else classify_keys config stats keys)"

text \<open>\<open>tops r n\<close> are the recorder's \<open>n\<close> most accessed keys and \<open>stats r k\<close> what it knows of \<open>k\<close>.\<close>

definition detect_hotspots ::
    "('r \<Rightarrow> nat \<Rightarrow> multi_level_key list) \<Rightarrow> ('r \<Rightarrow> multi_level_key \<Rightarrow> hotspot_info)
      \<Rightarrow> ('r hotspot_manager, hotspot_info list) op" where
  "detect_hotspots tops stats = hm_locked (\<lambda>s.
     Some (classify_keys (hm_detection s) (stats (recorder s)) (tops (recorder s) 1000), s))"

definition get_current_hotspots :: "('r hotspot_manager, hotspot_info list) op" where
  "get_current_hotspots = hm_locked (\<lambda>s. Some (map snd (current_hotspots s), s))"

definition get_hotspot_level :: "multi_level_key \<Rightarrow> ('r hotspot_manager, hotspot_level) op" where
  "get_hotspot_level key = hm_locked (\<lambda>s. Some (case map_of (current_hotspots s) key of
     Some h \<Rightarrow> hi_level h | None \<Rightarrow> NORMAL, s))"

definition get_top_accessed_keys ::
    "('r \<Rightarrow> nat \<Rightarrow> multi_level_key list) \<Rightarrow> nat \<Rightarrow> 'r hotspot_manager \<Rightarrow> multi_level_key list" where
  "get_top_accessed_keys tops n s = tops (recorder s) n"

definition get_key_info ::
    "('r \<Rightarrow> multi_level_key \<Rightarrow> hotspot_info) \<Rightarrow> multi_level_key
      \<Rightarrow> ('r hotspot_manager, hotspot_info) op" where
  "get_key_info stats key = hm_locked (\<lambda>s. Some (case map_of (current_hotspots s) key of
     Some h \<Rightarrow> h | None \<Rightarrow> stats (recorder s) key, s))"

fun pop_events :: "nat \<Rightarrow> nat \<Rightarrow> hotspot_event list \<Rightarrow> hotspot_event list" where
  "pop_events count n [] = []"
| "pop_events count n (e # events) =
     (if count < n then e # pop_events (Suc count) n events else [])"

definition get_recent_events :: "nat \<Rightarrow> ('r hotspot_manager, hotspot_event list) op" where
  "get_recent_events n = hm_locked (\<lambda>s. Some (pop_events 0 n (recent_events s), s))"

section \<open>Events\<close>

definition call_handler :: "handler_call \<Rightarrow> 'r hotspot_manager \<Rightarrow> 'r hotspot_manager" where
  "call_handler c s = (if hm_handler s then s\<lparr>hm_calls := hm_calls s @ [c]\<rparr> else s)"

text \<open>\<open>add_event\<close> locks the mutex, which some of its callers hold: it throws there.\<close>

definition add_event :: "hotspot_event \<Rightarrow> ('r hotspot_manager, unit attempt) op" where
  "add_event e = relock hm_held (returning (hm_locked (\<lambda>s.
     let s = s\<lparr>recent_events := recent_events s @ [e]\<rparr>
     in Some ((), case he_type e of
          HOTSPOT_DETECTED \<Rightarrow> s
        | HOTSPOT_RESOLVED \<Rightarrow> call_handler (OnResolved (he_key e)) s
        | STRATEGY_APPLIED \<Rightarrow> call_handler (OnApplied (he_key e) (he_strategy e)) s
        | STRATEGY_REMOVED \<Rightarrow> s))))"

definition notify_hotspot_detected ::
    "time_point \<Rightarrow> hotspot_info \<Rightarrow> ('r hotspot_manager, unit attempt) op" where
  "notify_hotspot_detected now h s =
     add_event ((HotspotEvent now)\<lparr>he_type := HOTSPOT_DETECTED, he_key := hi_key h,
       he_level := hi_level h, he_details := ''Hotspot detected for key: '' @ key_to_string (hi_key h)\<rparr>)
       (call_handler (OnDetected h) s)"

definition notify_hotspot_resolved ::
    "time_point \<Rightarrow> multi_level_key \<Rightarrow> ('r hotspot_manager, unit attempt) op" where
  "notify_hotspot_resolved now key =
     add_event ((HotspotEvent now)\<lparr>he_type := HOTSPOT_RESOLVED, he_key := key,
       he_level := NORMAL, he_details := ''Hotspot resolved for key: '' @ key_to_string key\<rparr>)"

definition notify_strategy_applied ::
    "time_point \<Rightarrow> multi_level_key \<Rightarrow> hotspot_strategy \<Rightarrow> ('r hotspot_manager, unit attempt) op" where
  "notify_strategy_applied now key strategy =
     add_event ((HotspotEvent now)\<lparr>he_type := STRATEGY_APPLIED, he_key := key,
       he_strategy := strategy, he_details := ''Strategy applied for key: '' @ key_to_string key\<rparr>)"

definition notify_strategy_failed ::
    "time_point \<Rightarrow> multi_level_key \<Rightarrow> hotspot_strategy \<Rightarrow> string \<Rightarrow> ('r hotspot_manager, unit attempt) op" where
  "notify_strategy_failed now key strategy reason s =
     add_event ((HotspotEvent now)\<lparr>he_type := STRATEGY_REMOVED, he_key := key,
       he_strategy := strategy,
       he_details := ''Strategy failed for key: '' @ key_to_string key @ '', reason: '' @ reason\<rparr>)
       (call_handler (OnFailed key strategy reason) s)"

section \<open>Handling\<close>

text \<open>\<open>DefaultHotspotHandler\<close>, the only handler there is, reports success and does nothing.\<close>

definition apply_strategy :: "multi_level_key \<Rightarrow> hotspot_strategy \<Rightarrow> unit result" where
  "apply_strategy key strategy = Ok ()"

definition remove_strategy :: "multi_level_key \<Rightarrow> hotspot_strategy \<Rightarrow> unit result" where
  "remove_strategy key strategy = Ok ()"

definition get_applied_strategies :: "multi_level_key \<Rightarrow> hotspot_strategy list" where
  "get_applied_strategies key = []"

definition is_strategy_applied :: "multi_level_key \<Rightarrow> hotspot_strategy \<Rightarrow> bool" where
  "is_strategy_applied key strategy = False"

definition evaluate_strategy_effectiveness :: "multi_level_key \<Rightarrow> hotspot_strategy \<Rightarrow> real" where
  "evaluate_strategy_effectiveness key strategy = 1"

definition apply_strategy_internal :: "multi_level_key \<Rightarrow> hotspot_strategy \<Rightarrow> unit result" where
  "apply_strategy_internal key strategy = apply_strategy key strategy"

fun try_strategies ::
    "time_point \<Rightarrow> multi_level_key \<Rightarrow> hotspot_strategy list \<Rightarrow> ('r hotspot_manager, unit result attempt) op" where
  "try_strategies now key [] s =
     Some (Returns (Error STORAGE_ERROR ''All hotspot handling strategies failed''), s)"
| "try_strategies now key (strategy # rest) s =
     (if is_ok (apply_strategy_internal key strategy)
      then and_then (notify_strategy_applied now key strategy) (\<lambda>_ s. Some (Returns (Ok ()), s)) s
      else try_strategies now key rest s)"

definition handle_hotspot ::
    "time_point \<Rightarrow> multi_level_key \<Rightarrow> hotspot_strategy list \<Rightarrow> ('r hotspot_manager, unit result attempt) op" where
  "handle_hotspot now key strategies =
     try_strategies now key (if strategies = [] then [REPLICATION, LOAD_BALANCING] else strategies)"

definition resolve_hotspot ::
    "time_point \<Rightarrow> multi_level_key \<Rightarrow> ('r hotspot_manager, unit result attempt) op" where
  "resolve_hotspot now key = hm_locked (\<lambda>s.
     case map_of (current_hotspots s) key of
       None \<Rightarrow> Some (Returns (Ok ()), s)
     | Some h \<Rightarrow>
         and_then (notify_hotspot_resolved now key) (\<lambda>_ s. Some (Returns (Ok ()), s))
           (s\<lparr>current_hotspots := AList.delete key (current_hotspots s)\<rparr>))"

section \<open>One pass of each background thread\<close>

text \<open>Each loop catches what its pass throws.\<close>

fun record_hotspots ::
    "time_point \<Rightarrow> hotspot_info list \<Rightarrow> ('r hotspot_manager, unit attempt) op" where
  "record_hotspots now [] s = Some (Returns (), s)"
| "record_hotspots now (h # hs) s =
     and_then (notify_hotspot_detected now h) (\<lambda>_. record_hotspots now hs)
       (s\<lparr>current_hotspots := AList.update (hi_key h) h (current_hotspots s)\<rparr>)"

text \<open>A turn of \<open>detection_loop\<close> locks the mutex twice: \<open>detect_hotspots\<close> takes it for itself, the loop
  takes it to store what was detected. In the runs below other calls come between the two.\<close>

definition store_detected :: "time_point \<Rightarrow> hotspot_info list \<Rightarrow> ('r hotspot_manager, unit) op" where
  "store_detected now detected = caught (hm_locked (record_hotspots now detected))"

definition hm_detection_pass ::
    "('r \<Rightarrow> nat \<Rightarrow> multi_level_key list) \<Rightarrow> ('r \<Rightarrow> multi_level_key \<Rightarrow> hotspot_info) \<Rightarrow> time_point
      \<Rightarrow> ('r hotspot_manager, unit) op" where
  "hm_detection_pass tops stats now s =
     do { (detected, s) \<leftarrow> detect_hotspots tops stats s; store_detected now detected s }"

fun handle_each ::
    "time_point \<Rightarrow> hotspot_info list \<Rightarrow> ('r hotspot_manager, unit attempt) op" where
  "handle_each now [] s = Some (Returns (), s)"
| "handle_each now (h # hs) s =
     and_then (handle_hotspot now (hi_key h) []) (\<lambda>_. handle_each now hs) s"

definition handling_pass :: "time_point \<Rightarrow> ('r hotspot_manager, unit) op" where
  "handling_pass now = caught (\<lambda>s. do {
     (hot, s) \<leftarrow> hm_locked (\<lambda>s.
       Some (filter (\<lambda>h. hi_level h \<ge> HOT) (map snd (current_hotspots s)), s)) s;
     handle_each now hot s })"

definition hotspot_expired :: "detection_config \<Rightarrow> time_point \<Rightarrow> hotspot_info \<Rightarrow> bool" where
  "hotspot_expired config now h =
     (cxx_div (now - last_access h) 60000000000 > cxx_div (cooling_period config) 60000)"

fun sweep_expired ::
    "time_point \<Rightarrow> (multi_level_key \<times> hotspot_info) list \<Rightarrow> ('r hotspot_manager, unit attempt) op" where
  "sweep_expired now [] s = Some (Returns (), s)"
| "sweep_expired now ((key, h) # rest) s =
     (if hotspot_expired (hm_detection s) now h
      then and_then (notify_hotspot_resolved now key)
        (\<lambda>_ s. sweep_expired now rest (s\<lparr>current_hotspots := AList.delete key (current_hotspots s)\<rparr>)) s
      else sweep_expired now rest s)"

fun trim_events :: "hotspot_event list \<Rightarrow> hotspot_event list" where
  "trim_events [] = []"
| "trim_events (e # events) =
     (if length (e # events) > 1000 then trim_events events else e # events)"

definition hm_cleanup_pass :: "time_point \<Rightarrow> ('r hotspot_manager, unit) op" where
  "hm_cleanup_pass now = caught (hm_locked (\<lambda>s.
     and_then (sweep_expired now (current_hotspots s))
       (\<lambda>_ s. Some (Returns (), s\<lparr>recent_events := trim_events (recent_events s)\<rparr>)) s))"

section \<open>Steps of the program\<close>

text \<open>
  The calls that change the manager and the passes of its threads; \<open>tops\<close>, \<open>stats\<close> and \<open>recording\<close> are the recorder's operations.
\<close>

inductive hm_step ::
    "('r \<Rightarrow> nat \<Rightarrow> multi_level_key list) \<Rightarrow> ('r \<Rightarrow> multi_level_key \<Rightarrow> hotspot_info)
      \<Rightarrow> (multi_level_key \<Rightarrow> 'o \<Rightarrow> node_id \<Rightarrow> 'r \<Rightarrow> 'r)
      \<Rightarrow> 'r hotspot_manager \<Rightarrow> 'r hotspot_manager \<Rightarrow> bool"
  for tops stats recording where
  hm_step_start: "hm_start dc hc s = Some (r, s') \<Longrightarrow> hm_step tops stats recording s s'"
| hm_step_stop: "hm_stop thread_waiting s = Some (r, s') \<Longrightarrow> hm_step tops stats recording s s'"
| hm_step_record: "hm_step tops stats recording s (hm_record_access recording key op_type node s)"
| hm_step_detect: "detect_hotspots tops stats s = Some (hs, s') \<Longrightarrow> hm_step tops stats recording s s'"
| hm_step_handle: "handle_hotspot now key ss s = Some (r, s') \<Longrightarrow> hm_step tops stats recording s s'"
| hm_step_resolve: "resolve_hotspot now key s = Some (r, s') \<Longrightarrow> hm_step tops stats recording s s'"
| hm_step_store: "store_detected now hs s = Some (u, s') \<Longrightarrow> hm_step tops stats recording s s'"
| hm_step_detection: "hm_detection_pass tops stats now s = Some (u, s') \<Longrightarrow> hm_step tops stats recording s s'"
| hm_step_handling: "handling_pass now s = Some (u, s') \<Longrightarrow> hm_step tops stats recording s s'"
| hm_step_cleanup: "hm_cleanup_pass now s = Some (u, s') \<Longrightarrow> hm_step tops stats recording s s'"

inductive hm_reachable ::
    "('r \<Rightarrow> nat \<Rightarrow> multi_level_key list) \<Rightarrow> ('r \<Rightarrow> multi_level_key \<Rightarrow> hotspot_info)
      \<Rightarrow> (multi_level_key \<Rightarrow> 'o \<Rightarrow> node_id \<Rightarrow> 'r \<Rightarrow> 'r) \<Rightarrow> 'r hotspot_manager \<Rightarrow> bool"
  for tops stats recording where
  hm_initial: "hm_reachable tops stats recording (HotspotManager_new r)"
| hm_next: "hm_reachable tops stats recording s \<Longrightarrow> hm_step tops stats recording s s'
    \<Longrightarrow> hm_reachable tops stats recording s'"

section \<open>Utilities\<close>

definition hotspot_level_to_string :: "hotspot_level \<Rightarrow> string" where
  "hotspot_level_to_string l = (case l of NORMAL \<Rightarrow> ''NORMAL'' | WARM \<Rightarrow> ''WARM''
     | HOT \<Rightarrow> ''HOT'' | CRITICAL \<Rightarrow> ''CRITICAL'')"

definition string_to_hotspot_level :: "string \<Rightarrow> hotspot_level" where
  "string_to_hotspot_level str = (if str = ''NORMAL'' then NORMAL else if str = ''WARM'' then WARM
     else if str = ''HOT'' then HOT else if str = ''CRITICAL'' then CRITICAL else NORMAL)"

definition strategy_to_string :: "hotspot_strategy \<Rightarrow> string" where
  "strategy_to_string st = (case st of REPLICATION \<Rightarrow> ''REPLICATION''
     | PARTITIONING \<Rightarrow> ''PARTITIONING'' | CACHING \<Rightarrow> ''CACHING''
     | LOAD_BALANCING \<Rightarrow> ''LOAD_BALANCING'' | RATE_LIMITING \<Rightarrow> ''RATE_LIMITING'')"

definition string_to_strategy :: "string \<Rightarrow> hotspot_strategy" where
  "string_to_strategy str = (if str = ''REPLICATION'' then REPLICATION
     else if str = ''PARTITIONING'' then PARTITIONING else if str = ''CACHING'' then CACHING
     else if str = ''LOAD_BALANCING'' then LOAD_BALANCING
     else if str = ''RATE_LIMITING'' then RATE_LIMITING else REPLICATION)"

definition pattern_to_string :: "access_pattern \<Rightarrow> string" where
  "pattern_to_string p = (case p of READ_HEAVY \<Rightarrow> ''READ_HEAVY'' | WRITE_HEAVY \<Rightarrow> ''WRITE_HEAVY''
     | MIXED \<Rightarrow> ''MIXED'' | BURST \<Rightarrow> ''BURST'' | PERIODIC \<Rightarrow> ''PERIODIC'')"

definition string_to_pattern :: "string \<Rightarrow> access_pattern" where
  "string_to_pattern str = (if str = ''READ_HEAVY'' then READ_HEAVY
     else if str = ''WRITE_HEAVY'' then WRITE_HEAVY else if str = ''MIXED'' then MIXED
     else if str = ''BURST'' then BURST else if str = ''PERIODIC'' then PERIODIC else MIXED)"

text \<open>
  \<open>load * load\<close> is computed in 64 bits and may wrap. Without any load the quotient is 0/0, a NaN,
  here \<open>None\<close>.
\<close>

definition calculate_load_balance_factor :: "(node_id \<times> u64) list \<Rightarrow> real option" where
  "calculate_load_balance_factor loads =
     (if loads = [] then Some 1
      else let total = foldl (\<lambda>acc (n, load). acc + real_u64 load) 0 loads;
               sum_squares = foldl (\<lambda>acc (n, load). acc + real_u64 (load * load)) 0 loads;
               mean = total / real (length loads);
               variance = sum_squares / real (length loads) - mean * mean
           in if mean * mean = 0 then None else Some (variance / (mean * mean)))"

definition find_overloaded_nodes :: "(node_id \<times> u64) list \<Rightarrow> real \<Rightarrow> node_id list" where
  "find_overloaded_nodes loads threshold =
     (let total_load = foldl (\<lambda>acc (n, load). acc + real_u64 load) 0 loads;
          average_load = total_load / real (length loads);
          overload_threshold = average_load * threshold
      in map fst (filter (\<lambda>(n, load). real_u64 load > overload_threshold) loads))"

definition entropy_step :: "u64 \<Rightarrow> real \<Rightarrow> u64 \<Rightarrow> real" where
  "entropy_step total_count e count =
     (if count > 0 then let p = real_u64 count / real_u64 total_count in e - p * log 2 p else e)"

definition calculate_access_entropy :: "u64 list \<Rightarrow> real" where
  "calculate_access_entropy counts =
     (if counts = [] then 0
      else let total_count = foldl (+) 0 counts
           in if total_count = 0 then 0 else foldl (entropy_step total_count) 0 counts)"

definition is_power_law_distribution :: "u64 list \<Rightarrow> bool" where
  "is_power_law_distribution counts =
     (if length counts < 10 then False
      else let sorted_counts = rev (sort counts);
               top_20_percent = max 1 (length sorted_counts div 5);
               top_sum = foldl (+) 0 (take top_20_percent sorted_counts);
               total_sum = foldl (+) 0 sorted_counts
           in total_sum > 0 \<and> real_u64 top_sum / real_u64 total_sum \<ge> 0.8)"

end
