(* ===== verification/Hotspot_Properties.thy ===== *)
theory Hotspot_Properties
  imports Hotspot "HOL-Library.Multiset"
begin

text \<open>
  What holds of the hotspot manager: what a pass of the detection thread stores of the hotspots it
  detects, what the other threads do with it, and which events are ever recorded. Every event that
  is reported from a section under the mutex is lost, because \<open>add_event\<close> throws there.
\<close>

section \<open>Events need the mutex\<close>

lemma call_handler_simps [simp]:
  "hm_held (call_handler c s) = hm_held s"
  "current_hotspots (call_handler c s) = current_hotspots s"
  "recent_events (call_handler c s) = recent_events s"
  "hm_handler (call_handler c s) = hm_handler s"
  by (simp_all add: call_handler_def)

lemma hm_set_held_simps [simp]:
  "hm_held (hm_set_held b s) = b"
  "current_hotspots (hm_set_held b s) = current_hotspots s"
  "recent_events (hm_set_held b s) = recent_events s"
  "recorder (hm_set_held b s) = recorder s"
  "hm_detection (hm_set_held b s) = hm_detection s"
  by (simp_all add: hm_set_held_def)

lemma add_event_held [simp]: "hm_held s \<Longrightarrow> add_event e s = Some (Raises, s)"
  by (simp add: add_event_def)

lemma notify_held [simp]:
  "hm_held s \<Longrightarrow> notify_hotspot_detected now h s = Some (Raises, call_handler (OnDetected h) s)"
  "hm_held s \<Longrightarrow> notify_hotspot_resolved now key s = Some (Raises, s)"
  "hm_held s \<Longrightarrow> notify_strategy_applied now key strategy s = Some (Raises, s)"
  by (simp_all add: notify_hotspot_detected_def notify_hotspot_resolved_def notify_strategy_applied_def)

section \<open>Detection\<close>

lemma level_normal:
  "calculate_hotspot_level config h = NORMAL \<longleftrightarrow>
     total_access_count h < min (warm_threshold config) (min (hot_threshold config) (critical_threshold config))"
  by (auto simp: calculate_hotspot_level_def)

lemma classify_keys_empty:
  "classify_keys config stats keys = [] \<longleftrightarrow>
     (\<forall>k \<in> set keys. calculate_hotspot_level config (stats k) = NORMAL)"
  by (induction keys) (auto simp: Let_def)

text \<open>Of a list of hotspots the first is stored, and its handler called.\<close>

definition store_first :: "hotspot_info list \<Rightarrow> 'r hotspot_manager \<Rightarrow> 'r hotspot_manager" where
  "store_first hs s = (case hs of
     [] \<Rightarrow> s
   | h # _ \<Rightarrow> call_handler (OnDetected h)
       (s\<lparr>current_hotspots := AList.update (hi_key h) h (current_hotspots s)\<rparr>))"

lemma store_first_held: "hm_set_held b (store_first hs s) = store_first hs (hm_set_held b s)"
  by (simp add: store_first_def call_handler_def hm_set_held_def split: list.split)

lemma store_first_simps [simp]:
  "recent_events (store_first hs s) = recent_events s" "hm_held (store_first hs s) = hm_held s"
  "current_hotspots (store_first [] s) = current_hotspots s"
  "current_hotspots (store_first (h # hs) s) = AList.update (hi_key h) h (current_hotspots s)"
  by (simp_all add: store_first_def split: list.split)

lemma record_hotspots_held:
  "hm_held s \<Longrightarrow>
   record_hotspots now hs s = Some (if hs = [] then Returns () else Raises, store_first hs s)"
  by (cases hs) (simp_all add: store_first_def and_then_raises)

lemma detect_hotspots_free:
  "\<not> hm_held s \<Longrightarrow> detect_hotspots tops stats s =
     Some (classify_keys (hm_detection s) (stats (recorder s)) (tops (recorder s) 1000), s)"
  by (simp add: detect_hotspots_def guarded_def hm_mx.set_set hm_mx.set_same)

lemma detect_hotspots_same: "detect_hotspots tops stats s = Some (hs, s') \<Longrightarrow> s' = s"
  using detect_hotspots_free [of s tops stats]
  by (cases "hm_held s") (simp_all add: detect_hotspots_def hm_mx.held_stuck)

abbreviation detected_in ::
    "('r \<Rightarrow> nat \<Rightarrow> multi_level_key list) \<Rightarrow> ('r \<Rightarrow> multi_level_key \<Rightarrow> hotspot_info)
      \<Rightarrow> 'r hotspot_manager \<Rightarrow> hotspot_info list" where
  "detected_in tops stats s \<equiv> classify_keys (hm_detection s) (stats (recorder s)) (tops (recorder s) 1000)"

lemma store_detected_free:
  assumes "\<not> hm_held s"
  shows "store_detected now hs s = Some ((), store_first hs s)"
  using assms
  by (simp add: store_detected_def guarded_def record_hotspots_held store_first_held
      hm_mx.set_set hm_mx.set_same)

lemma detection_pass_free:
  assumes "\<not> hm_held s"
  shows "hm_detection_pass tops stats now s = Some ((), store_first (detected_in tops stats s) s)"
  using assms by (simp add: hm_detection_pass_def detect_hotspots_free store_detected_free)

text \<open>A pass of the detection thread stores something exactly when a key has a count that reaches
  one of the three thresholds.\<close>

lemma detected_in_empty:
  "detected_in tops stats s \<noteq> [] \<longleftrightarrow>
    (\<exists>k \<in> set (tops (recorder s) 1000).
       min (warm_threshold (hm_detection s)) (min (hot_threshold (hm_detection s)) (critical_threshold (hm_detection s)))
         \<le> total_access_count (stats (recorder s) k))"
  by (auto simp: classify_keys_empty level_normal not_less simp del: min_less_iff_conj min_le_iff_disj)

abbreviation busy_key :: multi_level_key where "busy_key \<equiv> MultiLevelKey ''u'' ''1''"

abbreviation other_key :: multi_level_key where "other_key \<equiv> MultiLevelKey ''u'' ''2''"

definition demo_stats :: "u64 \<Rightarrow> multi_level_key \<Rightarrow> hotspot_info" where
  "demo_stats n key = (HotspotKeyInfo 0)\<lparr>hi_key := key, total_access_count := n\<rparr>"

definition demo_tops :: "u64 \<Rightarrow> nat \<Rightarrow> multi_level_key list" where
  "demo_tops n m = [busy_key, other_key]"

lemma get_hotspot_level_free:
  "\<not> hm_held s \<Longrightarrow> get_hotspot_level key s = Some (case map_of (current_hotspots s) key of
     Some h \<Rightarrow> hi_level h | None \<Rightarrow> NORMAL, s)"
  by (simp add: get_hotspot_level_def guarded_def hm_mx.set_set hm_mx.set_same)

lemma pop_events_take: "pop_events c n es = take (n - c) es"
  by (induction es arbitrary: c) (auto simp: take_Cons' Suc_diff_Suc)

lemma get_recent_events_free:
  "\<not> hm_held s \<Longrightarrow> get_recent_events n s = Some (take n (recent_events s), s)"
  by (simp add: get_recent_events_def guarded_def pop_events_take hm_mx.set_set hm_mx.set_same)

section \<open>Handling\<close>

lemma notify_applied_free:
  assumes "\<not> hm_held s"
  shows "\<exists>s' e. notify_strategy_applied now key strategy s = Some (Returns (), s')
    \<and> recent_events s' = recent_events s @ [e] \<and> he_type e = STRATEGY_APPLIED \<and> he_key e = key
    \<and> he_strategy e = strategy \<and> he_timestamp e = now
    \<and> hm_calls s' = (if hm_handler s then hm_calls s @ [OnApplied key strategy] else hm_calls s)
    \<and> current_hotspots s' = current_hotspots s \<and> \<not> hm_held s'"
  using assms
  by (simp add: notify_strategy_applied_def add_event_def returning_def guarded_def call_handler_def
      hm_set_held_def HotspotEvent_def)

lemma handle_hotspot_free:
  assumes "\<not> hm_held s"
  shows "\<exists>s' e. handle_hotspot now key strategies s = Some (Returns (Ok ()), s')
    \<and> recent_events s' = recent_events s @ [e] \<and> he_type e = STRATEGY_APPLIED \<and> he_key e = key
    \<and> he_strategy e = hd (strategies @ [REPLICATION]) \<and> he_timestamp e = now
    \<and> hm_calls s' = (if hm_handler s then hm_calls s @ [OnApplied key (he_strategy e)] else hm_calls s)
    \<and> current_hotspots s' = current_hotspots s \<and> \<not> hm_held s'"
proof -
  obtain s' e where "notify_strategy_applied now key (hd (strategies @ [REPLICATION])) s = Some (Returns (), s')"
    and "recent_events s' = recent_events s @ [e] \<and> he_type e = STRATEGY_APPLIED \<and> he_key e = key
    \<and> he_strategy e = hd (strategies @ [REPLICATION]) \<and> he_timestamp e = now
    \<and> hm_calls s' = (if hm_handler s then hm_calls s @ [OnApplied key (he_strategy e)] else hm_calls s)
    \<and> current_hotspots s' = current_hotspots s \<and> \<not> hm_held s'"
    using notify_applied_free [OF assms] by metis
  then show ?thesis
    by (cases strategies)
      (auto simp: handle_hotspot_def apply_strategy_internal_def apply_strategy_def and_then_def)
qed

text \<open>Handling a hotspot always reports success after its first strategy, whatever the others
  are: one event is recorded and the handler is called once, for the first strategy given or for
  replication.\<close>

theorem handle_hotspot_outcome:
  assumes "\<not> hm_held s"
  shows "\<exists>s' e. handle_hotspot now key strategies s = Some (Returns (Ok ()), s')
    \<and> recent_events s' = recent_events s @ [e] \<and> he_type e = STRATEGY_APPLIED \<and> he_key e = key
    \<and> he_strategy e = hd (strategies @ [REPLICATION]) \<and> he_timestamp e = now
    \<and> hm_calls s' = (if hm_handler s then hm_calls s @ [OnApplied key (he_strategy e)] else hm_calls s)
    \<and> current_hotspots s' = current_hotspots s \<and> \<not> hm_held s'"
  using assms by (rule handle_hotspot_free)

theorem handle_hotspot_outcome_witness:
  "\<exists>s' e. handle_hotspot 7 busy_key [CACHING, RATE_LIMITING] (HotspotManager_new ()) = Some (Returns (Ok ()), s')
    \<and> recent_events s' = [e] \<and> he_strategy e = CACHING"
  using handle_hotspot_outcome [of "HotspotManager_new ()" 7 busy_key "[CACHING, RATE_LIMITING]"]
  by (auto simp: HotspotManager_new_def)

section \<open>What the threads make of it\<close>

text \<open>What holds in every run: no event is recorded but those of applied strategies.\<close>

definition hm_inv :: "'r hotspot_manager \<Rightarrow> bool" where
  "hm_inv s \<longleftrightarrow> \<not> hm_held s \<and> (\<forall>e \<in> set (recent_events s). he_type e = STRATEGY_APPLIED)"

lemma hm_inv_store_first: "hm_inv s \<Longrightarrow> hm_inv (store_first hs s)"
  by (simp add: hm_inv_def)

lemma hm_inv_event:
  assumes "hm_inv s" and "recent_events s' = recent_events s @ [e]" and "he_type e = STRATEGY_APPLIED"
    and "\<not> hm_held s'"
  shows "hm_inv s'"
  using assms by (auto simp: hm_inv_def)

lemma handle_hotspot_inv:
  assumes "hm_inv s" and "handle_hotspot now key ss s = Some (r, s')"
  shows "hm_inv s' \<and> current_hotspots s' = current_hotspots s"
proof -
  have "\<not> hm_held s" using assms(1) by (simp add: hm_inv_def)
  from handle_hotspot_free [OF this, of now key ss] obtain t e where
    "handle_hotspot now key ss s = Some (Returns (Ok ()), t)" "recent_events t = recent_events s @ [e]"
    "he_type e = STRATEGY_APPLIED" "current_hotspots t = current_hotspots s" "\<not> hm_held t"
    by blast
  with assms show ?thesis by (auto intro: hm_inv_event)
qed

lemma handle_each_inv:
  "hm_inv s \<Longrightarrow> handle_each now hs s = Some (r, s') \<Longrightarrow> hm_inv s' \<and> current_hotspots s' = current_hotspots s"
proof (induction hs arbitrary: s)
  case (Cons h hs)
  then show ?case by (auto simp: and_then_Some dest: handle_hotspot_inv)
qed simp

lemma handling_pass_inv:
  assumes "hm_inv s" and "handling_pass now s = Some (u, s')"
  shows "hm_inv s' \<and> current_hotspots s' = current_hotspots s"
proof -
  have "\<not> hm_held s" using assms(1) by (simp add: hm_inv_def)
  with assms(2) obtain hot r where "handle_each now hot s = Some (r, s')"
    by (auto simp: handling_pass_def guarded_def hm_mx.set_set hm_mx.set_same)
  with handle_each_inv [OF assms(1)] show ?thesis by blast
qed

lemma trim_events_drop: "trim_events es = drop (length es - 1000) es"
proof (induction es)
  case (Cons e es)
  have "length es - 999 = Suc (length es - 1000)" if "999 < length es" using that by simp
  with Cons show ?case by simp
qed simp

lemma sweep_expired_held:
  "hm_held s \<Longrightarrow> sweep_expired now hs s =
    Some (if \<exists>(k, h) \<in> set hs. hotspot_expired (hm_detection s) now h then Raises else Returns (), s)"
  by (induction hs) (auto simp: and_then_raises)

text \<open>A pass of the cleaning thread removes no hotspot. While no stored hotspot has outlived the cooling
  period, it keeps the latest thousand events; otherwise it changes nothing.\<close>

lemma cleanup_pass_free:
  assumes "\<not> hm_held s"
  shows "hm_cleanup_pass now s = Some ((),
    if \<exists>(k, h) \<in> set (current_hotspots s). hotspot_expired (hm_detection s) now h then s
    else s\<lparr>recent_events := drop (length (recent_events s) - 1000) (recent_events s)\<rparr>)"
  using assms
  by (auto simp: hm_cleanup_pass_def guarded_def sweep_expired_held and_then_def trim_events_drop
      hm_set_held_def)

lemma resolve_hotspot_free:
  assumes "\<not> hm_held s"
  shows "resolve_hotspot now key s = Some (
    if map_of (current_hotspots s) key = None then Returns (Ok ()) else Raises,
    s\<lparr>current_hotspots := AList.delete key (current_hotspots s)\<rparr>)"
proof (cases "map_of (current_hotspots s) key")
  case None
  then have "AList.delete key (current_hotspots s) = current_hotspots s"
    by (simp add: map_of_eq_None_iff delete_id)
  with None assms show ?thesis by (simp add: resolve_hotspot_def guarded_def hm_set_held_def)
next
  case (Some h)
  with assms show ?thesis by (simp add: resolve_hotspot_def guarded_def hm_set_held_def and_then_raises)
qed

lemma hm_step_inv:
  assumes "hm_step tops stats recording s s'" and "hm_inv s"
  shows "hm_inv s'"
  using assms
proof cases
  case (hm_step_start dc hc r)
  then show ?thesis using assms(2) unfolding hm_start_def
    by (elim guarded_SomeE) (auto simp: hm_inv_def split: if_splits)
next
  case (hm_step_stop thread_waiting r)
  then show ?thesis using assms(2) unfolding hm_stop_def
    by (elim guarded_SomeE) (auto simp: hm_inv_def split: if_splits)
next
  case (hm_step_record key op_type node)
  then show ?thesis using assms(2) by (simp add: hm_inv_def hm_record_access_def)
next
  case (hm_step_detect hs)
  then show ?thesis using detect_hotspots_same assms(2) by blast
next
  case (hm_step_handle now key ss r)
  with handle_hotspot_inv assms(2) show ?thesis by blast
next
  case (hm_step_resolve now key r)
  then show ?thesis using assms(2) resolve_hotspot_free [of s now key]
    by (auto simp: hm_inv_def)
next
  case (hm_step_store now hs u)
  then have "s' = store_first hs s"
    using assms(2) store_detected_free [of s] by (simp add: hm_inv_def)
  with hm_inv_store_first [OF assms(2)] show ?thesis by simp
next
  case (hm_step_detection now u)
  then have "s' = store_first (detected_in tops stats s) s"
    using assms(2) detection_pass_free [of s] by (simp add: hm_inv_def)
  with hm_inv_store_first [OF assms(2)] show ?thesis by simp
next
  case (hm_step_handling now u)
  with handling_pass_inv assms(2) show ?thesis by blast
next
  case (hm_step_cleanup now u)
  then show ?thesis using assms(2) cleanup_pass_free [of s now]
    by (auto simp: hm_inv_def split: if_splits dest: in_set_dropD)
qed

lemma hm_reachable_inv: "hm_reachable tops stats recording s \<Longrightarrow> hm_inv s"
proof (induction rule: hm_reachable.induct)
  case (hm_initial r)
  show ?case by (simp add: hm_inv_def HotspotManager_new_def)
next
  case (hm_next s s')
  then show ?case by (blast intro: hm_step_inv)
qed

text \<open>C37: in every run, a pass of the detection thread stores at most one of the hotspots it has
  detected, the first, also when other calls come between the detection and the storing; a pass of the cleaning thread removes none,
  also none that has cooled down; and the only events ever recorded are those of applied strategies,
  so that no client finds the detection or the end of a hotspot among them.\<close>

theorem only_first_hotspot_stored:
  assumes "hm_reachable tops stats recording s"
  shows "(\<exists>s'. hm_detection_pass tops stats now s = Some ((), s')
      \<and> recent_events s' = recent_events s
      \<and> map_of (current_hotspots s') = (case detected_in tops stats s of
            [] \<Rightarrow> map_of (current_hotspots s)
          | h # _ \<Rightarrow> (map_of (current_hotspots s))(hi_key h \<mapsto> h)))
    \<and> (\<forall>detected. \<exists>s'. store_detected now detected s = Some ((), s')
      \<and> recent_events s' = recent_events s
      \<and> map_of (current_hotspots s') = (case detected of
            [] \<Rightarrow> map_of (current_hotspots s)
          | h # _ \<Rightarrow> (map_of (current_hotspots s))(hi_key h \<mapsto> h)))
    \<and> (\<exists>s'. hm_cleanup_pass now s = Some ((), s') \<and> current_hotspots s' = current_hotspots s)
    \<and> (\<exists>es. get_recent_events n s = Some (es, s) \<and> (\<forall>e \<in> set es. he_type e = STRATEGY_APPLIED))"
proof -
  have inv: "hm_inv s" by (rule hm_reachable_inv [OF assms])
  then have free: "\<not> hm_held s" by (simp add: hm_inv_def)
  have "\<exists>es. get_recent_events n s = Some (es, s) \<and> (\<forall>e \<in> set es. he_type e = STRATEGY_APPLIED)"
    using inv free get_recent_events_free [OF free, of n] by (auto simp: hm_inv_def dest: in_set_takeD)
  then show ?thesis
    using detection_pass_free [OF free, of tops stats now] cleanup_pass_free [OF free, of now]
      store_detected_free [OF free, of now]
    by (simp add: update_conv' split: list.split)
qed

abbreviation demo_recording :: "multi_level_key \<Rightarrow> u64 \<Rightarrow> node_id \<Rightarrow> u64 \<Rightarrow> u64" where
  "demo_recording \<equiv> \<lambda>key op_type node n. n + op_type"

text \<open>Two keys with 6000 accesses each, then a pass of each thread: the first is \<open>HOT\<close>, the second is not
  known, and an hour later the first is still there.\<close>

theorem only_first_hotspot_stored_witness:
  "\<exists>s1 s2. hm_detection_pass demo_tops demo_stats 0 (HotspotManager_new 6000) = Some ((), s1)
    \<and> map_option fst (get_hotspot_level busy_key s1) = Some HOT
    \<and> map_option fst (get_hotspot_level other_key s1) = Some NORMAL
    \<and> hm_cleanup_pass 3600000000000 s1 = Some ((), s2)
    \<and> map_option fst (get_hotspot_level busy_key s2) = Some HOT"
proof -
  let ?s = "HotspotManager_new 6000 :: u64 hotspot_manager"
  let ?h = "(demo_stats 6000 busy_key)\<lparr>hi_level := HOT\<rparr>"
  have d: "detected_in demo_tops demo_stats ?s = [?h, (demo_stats 6000 other_key)\<lparr>hi_level := HOT\<rparr>]"
    by (simp add: HotspotManager_new_def demo_tops_def demo_stats_def HotspotDetectionConfig_def
        calculate_hotspot_level_def Let_def)
  have start: "hm_reachable demo_tops demo_stats demo_recording ?s" by (rule hm_initial)
  from only_first_hotspot_stored [OF start, of 0 0] obtain s1 where
    s1: "hm_detection_pass demo_tops demo_stats 0 ?s = Some ((), s1)"
    "map_of (current_hotspots s1) = (map_of (current_hotspots ?s))(hi_key ?h \<mapsto> ?h)"
    by (auto simp: d)
  have r1: "hm_reachable demo_tops demo_stats demo_recording s1"
    by (rule hm_next [OF start hm_step_detection [OF s1(1)]])
  from only_first_hotspot_stored [OF r1, of 3600000000000 0] obtain s2 where
    s2: "hm_cleanup_pass 3600000000000 s1 = Some ((), s2)" "current_hotspots s2 = current_hotspots s1"
    by blast
  have r2: "hm_reachable demo_tops demo_stats demo_recording s2"
    by (rule hm_next [OF r1 hm_step_cleanup [OF s2(1)]])
  have free: "\<not> hm_held s1" "\<not> hm_held s2"
    using hm_reachable_inv [OF r1] hm_reachable_inv [OF r2] by (simp_all add: hm_inv_def)
  have stored: "map_of (current_hotspots s1) busy_key = Some ?h" "map_of (current_hotspots s1) other_key = None"
    by (simp_all add: s1(2) demo_stats_def HotspotManager_new_def)
  have "get_hotspot_level busy_key s1 = Some (HOT, s1)" "get_hotspot_level other_key s1 = Some (NORMAL, s1)"
    "get_hotspot_level busy_key s2 = Some (HOT, s2)"
    using free stored s2(2) by (simp_all add: get_hotspot_level_free)
  with s1(1) s2(1) show ?thesis by auto
qed

text \<open>A stored hotspot can be taken out by \<open>resolve_hotspot\<close> alone, and that call throws when it has
  done so: the resolution is not reported.\<close>

theorem resolve_hotspot_raises:
  assumes "hm_reachable tops stats recording s" and "map_of (current_hotspots s) key = Some h"
  shows "\<exists>s'. resolve_hotspot now key s = Some (Raises, s') \<and> recent_events s' = recent_events s
    \<and> hm_calls s' = hm_calls s \<and> map_of (current_hotspots s') = (map_of (current_hotspots s))(key := None)"
  using hm_reachable_inv [OF assms(1)] assms(2) resolve_hotspot_free [of s now key]
  by (simp add: hm_inv_def delete_conv' fun_eq_iff)

theorem resolve_hotspot_raises_witness:
  "\<exists>(s :: u64 hotspot_manager) s'. map_of (current_hotspots s) busy_key \<noteq> None \<and> resolve_hotspot 9 busy_key s = Some (Raises, s')
    \<and> map_of (current_hotspots s') busy_key = None"
proof -
  let ?s = "HotspotManager_new 6000 :: u64 hotspot_manager"
  let ?t = "store_first (detected_in demo_tops demo_stats ?s) ?s"
  have "hm_detection_pass demo_tops demo_stats 0 ?s = Some ((), ?t)"
    by (rule detection_pass_free) (simp add: HotspotManager_new_def)
  then have r: "hm_reachable demo_tops demo_stats demo_recording ?t"
    by (rule hm_next [OF hm_initial hm_step_detection])
  have "map_of (current_hotspots ?t) busy_key = Some ((demo_stats 6000 busy_key)\<lparr>hi_level := HOT\<rparr>)"
    by (simp add: HotspotManager_new_def demo_tops_def demo_stats_def HotspotDetectionConfig_def
        calculate_hotspot_level_def Let_def)
  note stored = this
  from resolve_hotspot_raises [OF r stored, of 9] obtain s' where
    "resolve_hotspot 9 busy_key ?t = Some (Raises, s')"
    "map_of (current_hotspots s') = (map_of (current_hotspots ?t))(busy_key := None)"
    by blast
  with stored show ?thesis by (intro exI [of _ ?t] exI [of _ s']) simp
qed

text \<open>The events \<open>get_recent_events\<close> returns are the oldest ones still stored, in the order they
  happened, not the latest.\<close>

theorem recent_events_are_oldest:
  assumes "\<not> hm_held s"
  shows "get_recent_events n s = Some (take n (recent_events s), s)"
  using assms by (rule get_recent_events_free)

theorem recent_events_are_oldest_witness:
  "get_recent_events 1 ((HotspotManager_new ())\<lparr>recent_events := [HotspotEvent 1, HotspotEvent 2]\<rparr>)
    = Some ([HotspotEvent 1], (HotspotManager_new ())\<lparr>recent_events := [HotspotEvent 1, HotspotEvent 2]\<rparr>)"
  by (subst recent_events_are_oldest) (simp_all add: HotspotManager_new_def)

section \<open>Names\<close>

text \<open>Levels, strategies and patterns come back from their names.\<close>

theorem hotspot_names_roundtrip:
  "string_to_hotspot_level (hotspot_level_to_string l) = l
    \<and> string_to_strategy (strategy_to_string st) = st
    \<and> string_to_pattern (pattern_to_string p) = p"
  by (cases l; cases st; cases p)
    (simp_all add: string_to_hotspot_level_def hotspot_level_to_string_def string_to_strategy_def
      strategy_to_string_def string_to_pattern_def pattern_to_string_def)

end
