(* ===== verification/Hotspot_Numbers.thy ===== *)
theory Hotspot_Numbers
  imports Hotspot "HOL-Library.Multiset"
begin

text \<open>
  The statistics of \<open>hotspot_utils\<close>: bounds of the access entropy and of the load balance factor,
  and what the power law test decides. The sums of the code are sums of words; the first lemmas
  say when they are the sums of the numbers.
\<close>

section \<open>Sums of words\<close>

lemma foldl_plus_word: "foldl (+) (a :: u64) cs = a + sum_list cs"
  by (induction cs arbitrary: a) (simp_all add: add.assoc)

lemma unat_sum_list:
  "sum_list (map unat (cs :: u64 list)) < 2 ^ 64 \<Longrightarrow> unat (sum_list cs) = sum_list (map unat cs)"
proof (induction cs)
  case (Cons c cs)
  then show ?case by (simp add: unat_plus_if')
qed simp

lemma unat_total:
  "sum_list (map unat (cs :: u64 list)) < 2 ^ 64 \<Longrightarrow> unat (foldl (+) 0 cs) = sum_list (map unat cs)"
  by (simp add: foldl_plus_word unat_sum_list)

lemma sum_list_real: "sum_list (map (\<lambda>c. real_u64 c) cs) = real (sum_list (map unat cs))"
  by (induction cs) (simp_all add: real_u64_def)

lemma real_u64_nonneg [simp]: "0 \<le> real_u64 w"
  unfolding real_u64_def by (rule of_nat_0_le_iff)

lemma real_u64_le: "unat w \<le> n \<Longrightarrow> real_u64 w \<le> real n"
  unfolding real_u64_def by (rule of_nat_mono)

lemma real_u64_pos [simp]: "0 < real_u64 w \<longleftrightarrow> w \<noteq> 0"
  unfolding real_u64_def by (simp only: of_nat_0_less_iff unat_gt_0)

section \<open>Entropy\<close>

definition plogp :: "real \<Rightarrow> real" where "plogp p = - (p * log 2 p)"

lemma entropy_fold:
  "foldl (entropy_step t) e cs = e + sum_list (map (\<lambda>c. plogp (real_u64 c / real_u64 t)) cs)"
proof (induction cs arbitrary: e)
  case (Cons c cs)
  have "entropy_step t e c = e + plogp (real_u64 c / real_u64 t)"
    by (cases "c = 0") (simp_all add: entropy_step_def plogp_def real_u64_def word_neq_0_conv Let_def)
  with Cons show ?case by simp
qed simp

lemma plogp_nonneg: "0 \<le> p \<Longrightarrow> p \<le> 1 \<Longrightarrow> 0 \<le> plogp p"
  by (cases "p = 0") (simp_all add: plogp_def mult_nonneg_nonpos log_le_zero_cancel_iff)

text \<open>The tangent of the logarithm at one.\<close>

lemma plogp_tangent:
  assumes "0 \<le> p" and "0 < m"
  shows "plogp p \<le> p * log 2 m + (1 / m - p) / ln 2"
proof (cases "p = 0")
  case False
  with assms(1) have p: "0 < p" by simp
  have "ln (1 / (p * m)) \<le> 1 / (p * m) - 1"
    using p assms(2) by (intro ln_le_minus_one) simp
  then have "p * ln (1 / (p * m)) \<le> p * (1 / (p * m) - 1)"
    using p by (intro mult_left_mono) simp_all
  moreover have "p * (1 / (p * m) - 1) = 1 / m - p"
    using p by (simp add: field_simps)
  moreover have "ln (1 / (p * m)) = - ln p - ln m"
    using p assms(2) by (simp add: ln_div ln_mult)
  ultimately have "p * (- ln p - ln m) \<le> 1 / m - p" by (simp only:)
  then have "- (p * ln p) \<le> p * ln m + (1 / m - p)"
    by (simp add: right_diff_distrib)
  then have "- (p * ln p) / ln 2 \<le> (p * ln m + (1 / m - p)) / ln 2"
    by (intro divide_right_mono) simp_all
  then show ?thesis by (simp add: plogp_def log_def add_divide_distrib)
qed (use assms in \<open>simp add: plogp_def\<close>)

lemma plogp_sum_le:
  assumes "\<And>p. p \<in> set ps \<Longrightarrow> 0 \<le> p" and "0 < m"
  shows "sum_list (map plogp ps) \<le> sum_list ps * log 2 m + (real (length ps) / m - sum_list ps) / ln 2"
  using assms(1)
proof (induction ps)
  case (Cons p ps)
  have "plogp p \<le> p * log 2 m + (1 / m - p) / ln 2"
    using Cons.prems assms(2) by (intro plogp_tangent) simp_all
  moreover have "sum_list (map plogp ps)
      \<le> sum_list ps * log 2 m + (real (length ps) / m - sum_list ps) / ln 2"
    using Cons by simp
  ultimately show ?case
    by (simp add: algebra_simps add_divide_distrib diff_divide_distrib)
qed simp

text \<open>As long as the counts do not add up past 64 bits, the access entropy lies between zero
  and the logarithm of the number of counts.\<close>

theorem access_entropy_bounds:
  assumes "counts \<noteq> []" and "sum_list (map unat counts) < 2 ^ 64"
  shows "0 \<le> calculate_access_entropy counts
    \<and> calculate_access_entropy counts \<le> log 2 (real (length counts))"
proof (cases "sum_list (map unat counts) = 0")
  case True
  then have "foldl (+) 0 counts = 0" using unat_total [OF assms(2)] by (metis unat_eq_zero)
  moreover have "1 \<le> real (length counts)" using assms(1) by (cases counts) simp_all
  ultimately show ?thesis using assms(1) by (simp add: calculate_access_entropy_def)
next
  case False
  define t where "t = foldl (+) 0 counts"
  define ps where "ps = map (\<lambda>c. real_u64 c / real_u64 t) counts"
  have t: "real_u64 t = real (sum_list (map unat counts))"
    using unat_total [OF assms(2)] by (simp add: real_u64_def t_def)
  with False have t0: "0 < real_u64 t" by linarith
  then have "t \<noteq> 0" by (auto simp: real_u64_def)
  have le: "real_u64 c \<le> real_u64 t" if "c \<in> set counts" for c
    unfolding t using that by (intro real_u64_le member_le_sum_list) auto
  have ps: "0 \<le> p \<and> p \<le> 1" if "p \<in> set ps" for p
    using that le t0 by (auto simp: ps_def)
  have "sum_list ps = sum_list (map (\<lambda>c. real_u64 c) counts) / real_u64 t"
    unfolding ps_def by (induction counts) (simp_all add: add_divide_distrib)
  also have "\<dots> = real_u64 t / real_u64 t" by (simp only: sum_list_real t)
  also have "\<dots> = 1" using t0 by (intro divide_self) linarith
  finally have one: "sum_list ps = 1" .
  have e: "calculate_access_entropy counts = sum_list (map plogp ps)"
    using assms(1) \<open>t \<noteq> 0\<close>
    by (simp add: calculate_access_entropy_def entropy_fold ps_def comp_def flip: t_def)
  have "0 \<le> sum_list (map plogp ps)" using ps plogp_nonneg by (intro sum_list_nonneg) auto
  moreover have "sum_list (map plogp ps) \<le> log 2 (real (length counts))"
    using plogp_sum_le [of ps "real (length counts)"] ps one assms(1) by (simp add: ps_def)
  ultimately show ?thesis by (simp add: e)
qed

theorem access_entropy_bounds_witness:
  "calculate_access_entropy [1, 2, 3, 4] \<le> log 2 4"
  using access_entropy_bounds [of "[1, 2, 3, 4]"] by simp

section \<open>Load balance\<close>

lemma foldl_loads: "foldl (\<lambda>acc (n, load). acc + f load) a loads
    = (a :: real) + sum_list (map (\<lambda>(n, load). f load) loads)"
  by (induction loads arbitrary: a) auto

lemma square_small: "load < 2 ^ 32 \<Longrightarrow> real_u64 (load * load) = real_u64 load * real_u64 load"
proof -
  assume "load < (2 ^ 32 :: u64)"
  then have "unat load < 2 ^ 32" by (simp add: word_less_nat_alt)
  then have "unat load * unat load < 2 ^ 32 * 2 ^ 32" by (intro mult_strict_mono) simp_all
  then have "unat (load * load) = unat load * unat load"
    by (simp add: unat_mult_lem [THEN iffD1])
  then show ?thesis by (simp add: real_u64_def)
qed

lemma deviation_sum:
  "sum_list (map (\<lambda>x. (x - m) * (x - m)) xs)
     = sum_list (map (\<lambda>x. x * x) xs) - 2 * m * sum_list xs + real (length xs) * (m * m)"
  by (induction xs) (simp_all add: algebra_simps)

lemma sum_squares_zero:
  "sum_list (map (\<lambda>x. (x - m) * (x - m)) xs) = 0 \<longleftrightarrow> (\<forall>x \<in> set xs. x = (m :: real))"
  by (subst sum_list_nonneg_eq_0_iff) auto

text \<open>With every load below \<open>2^32\<close> and one above zero, the load balance factor is defined,
  not negative, and zero exactly when all nodes have the same load.\<close>

theorem load_balance_factor_bounds:
  assumes "\<And>n l. (n, l) \<in> set loads \<Longrightarrow> l < 2 ^ 32" and "(n0, l0) \<in> set loads" and "l0 \<noteq> 0"
  shows "\<exists>f. calculate_load_balance_factor loads = Some f \<and> 0 \<le> f
    \<and> (f = 0 \<longleftrightarrow> snd ` set loads = {l0})"
proof -
  define xs where "xs = map (\<lambda>(n, l). real_u64 l) loads"
  define k where "k = real (length loads)"
  define mean where "mean = sum_list xs / k"
  have k: "0 < k" and len: "real (length xs) = k"
    using assms(2) by (auto simp: k_def xs_def intro: length_pos_if_in_set)
  have nonneg: "0 \<le> x" if "x \<in> set xs" for x using that by (auto simp: xs_def)
  have pos: "0 < real_u64 l0" and mem: "real_u64 l0 \<in> set xs"
    using assms(2,3) by (auto simp: xs_def intro!: image_eqI [where x = "(n0, l0)"])
  have "real_u64 l0 \<le> sum_list xs" using mem nonneg by (intro member_le_sum_list) auto
  with pos have "0 < sum_list xs" by linarith
  with k have mean: "0 < mean" by (simp add: mean_def)
  have squares: "map (\<lambda>(n, l). real_u64 (l * l)) loads = map (\<lambda>x. x * x) xs"
    using assms(1) square_small by (auto simp: xs_def)
  define d where "d = sum_list (map (\<lambda>x. (x - mean) * (x - mean)) xs)"
  have "sum_list xs = k * mean" using k by (simp add: mean_def)
  then have d: "d = sum_list (map (\<lambda>x. x * x) xs) - k * (mean * mean)"
    unfolding d_def deviation_sum len by (simp add: algebra_simps)
  have "calculate_load_balance_factor loads
      = Some ((sum_list (map (\<lambda>x. x * x) xs) / k - mean * mean) / (mean * mean))"
    using assms(2) mean
    by (auto simp: calculate_load_balance_factor_def foldl_loads squares Let_def mean_def xs_def k_def)
  also have "sum_list (map (\<lambda>x. x * x) xs) / k - mean * mean = d / k"
    using k by (simp add: d diff_divide_distrib)
  finally have f: "calculate_load_balance_factor loads = Some (d / k / (mean * mean))" .
  have "0 \<le> d" unfolding d_def by (intro sum_list_nonneg) auto
  moreover have "d = 0 \<longleftrightarrow> (\<forall>x \<in> set xs. x = mean)" unfolding d_def by (rule sum_squares_zero)
  moreover have "(\<forall>x \<in> set xs. x = mean) \<longleftrightarrow> set xs = {real_u64 l0}"
  proof
    assume "set xs = {real_u64 l0}"
    then have "xs = replicate (length xs) (real_u64 l0)" by (intro replicate_eqI) auto
    then have "sum_list xs = k * real_u64 l0" using len by (metis sum_list_replicate)
    then show "\<forall>x \<in> set xs. x = mean" using \<open>set xs = _\<close> k by (simp add: mean_def)
  next
    assume all: "\<forall>x \<in> set xs. x = mean"
    with mem have "real_u64 l0 = mean" by blast
    with all mem show "set xs = {real_u64 l0}" by blast
  qed
  moreover have "set xs = {real_u64 l0} \<longleftrightarrow> snd ` set loads = {l0}"
  proof -
    have "set xs = real_u64 ` (snd ` set loads)" by (auto simp: xs_def image_image split_def)
    moreover have "inj real_u64" by (intro injI) (simp only: real_u64_def of_nat_eq_iff word_unat_eq_iff)
    ultimately show ?thesis using inj_image_eq_iff [of real_u64 "snd ` set loads" "{l0}"] by simp
  qed
  ultimately show ?thesis using f k mean by simp
qed

theorem load_balance_factor_bounds_witness:
  "\<exists>f. calculate_load_balance_factor [(''a'', 30), (''b'', 10)] = Some f \<and> 0 \<le> f \<and> f \<noteq> 0"
  using load_balance_factor_bounds [of "[(''a'', 30), (''b'', 10)]" "''a''" 30] by force

lemma load_balance_factor_wraps: "calculate_load_balance_factor [(''a'', 2 ^ 32)] = Some (- 1)"
  by (simp add: calculate_load_balance_factor_def real_u64_def Let_def)

section \<open>Power law\<close>

lemma top_sum_max:
  assumes "sorted_wrt (\<ge>) (ns :: nat list)" and "mset xs \<subseteq># mset ns"
  shows "sum_list xs \<le> sum_list (take (length xs) ns)"
  using assms
proof (induction ns arbitrary: xs)
  case (Cons n ns)
  show ?case
  proof (cases xs)
    case (Cons y ys)
    define x where "x = (if n \<in> set xs then n else y)"
    have x: "x \<in> set xs" "x \<le> n"
      using Cons.prems Cons by (auto simp: x_def dest: mset_subset_eqD)
    have sub: "mset (remove1 x xs) \<subseteq># mset ns"
    proof (cases "n \<in> set xs")
      case True
      then show ?thesis using Cons.prems(2) by (simp add: x_def subset_eq_diff_conv)
    next
      case False
      then have "count (mset xs) a \<le> count (mset ns) a" for a
        using mset_subset_eq_count [OF Cons.prems(2), of a] False by (cases "a = n") (simp_all add: count_mset_0_iff [THEN iffD2])
      then have "mset xs \<subseteq># mset ns" by (rule mset_subset_eqI)
      then show ?thesis by (metis mset_remove1 diff_subset_eq_self subset_mset.trans)
    qed
    have "sum_list xs = x + sum_list (remove1 x xs)" using x(1) by (simp add: sum_list_map_remove1 [of x xs "\<lambda>x. x", simplified])
    also have "\<dots> \<le> n + sum_list (take (length (remove1 x xs)) ns)"
      using Cons.IH [OF _ sub] Cons.prems(1) x(2) by (intro add_mono) simp_all
    also have "\<dots> = sum_list (take (length xs) (n # ns))"
      using x(1) by (cases "length xs") (simp_all add: length_remove1)
    finally show ?thesis .
  qed simp
qed simp

lemma rev_sort_take_mset: "mset (take k (rev (sort cs))) \<subseteq># mset cs"
proof -
  have "mset cs = mset (take k (rev (sort cs))) + mset (drop k (rev (sort cs)))"
    by (metis append_take_drop_id mset_append mset_rev mset_sort)
  then show ?thesis by simp
qed

lemma unat_desc: "sorted_wrt (\<ge>) (map unat (rev (sort (cs :: u64 list))))"
  by (simp add: sorted_wrt_map sorted_wrt_rev word_le_nat_alt [symmetric] sorted_sort)

text \<open>C38: for fewer than \<open>2^50\<close> accesses in all (so few that neither do the sums wrap nor can the
  rounding of the quotient to a \<open>double\<close> change the comparison), the power law test says yes exactly when some
  fifth of the counts (rounded down, of ten counts or more) carries at least four fifths of all
  accesses.\<close>

theorem power_law_iff:
  assumes "sum_list (map unat counts) < 2 ^ 50"
  shows "is_power_law_distribution counts \<longleftrightarrow> 10 \<le> length counts \<and> 0 < sum_list (map unat counts)
    \<and> (\<exists>xs. mset xs \<subseteq># mset counts \<and> length xs = length counts div 5
          \<and> 4 * sum_list (map unat counts) \<le> 5 * sum_list (map unat xs))"
proof (cases "10 \<le> length counts")
  case True
  define k where "k = length counts div 5"
  define N where "N = sum_list (map unat counts)"
  define desc where "desc = rev (sort counts)"
  define best where "best = take k desc"
  have k: "max 1 k = k" "length best = k" using True by (simp_all add: k_def best_def desc_def)
  have total_mset: "sum_list (map unat desc) = N"
    unfolding N_def desc_def by (metis mset_map mset_rev mset_sort sum_mset_sum_list)
  have top_mset: "mset best \<subseteq># mset counts" unfolding best_def desc_def by (rule rev_sort_take_mset)
  have most: "sum_list (map unat xs) \<le> sum_list (map unat best)"
    if "mset xs \<subseteq># mset counts" "length xs = k" for xs
  proof -
    have "mset (map unat xs) \<subseteq># mset (map unat desc)"
      using image_mset_subseteq_mono [OF that(1), of unat] by (simp add: desc_def)
    from top_sum_max [OF _ this] that(2) show ?thesis
      using unat_desc by (simp add: desc_def best_def take_map)
  qed
  have "sum_list (map unat best) \<le> N" 
    unfolding total_mset [symmetric] best_def by (metis append_take_drop_id le_add1 map_append sum_list_append)
  with assms have fit: "sum_list (map unat best) < 2 ^ 64" "sum_list (map unat desc) < 2 ^ 64"
    using total_mset by (simp_all add: N_def)
  have "is_power_law_distribution counts \<longleftrightarrow>
      foldl (+) 0 desc > 0 \<and> real_u64 (foldl (+) 0 best) / real_u64 (foldl (+) 0 desc) \<ge> 0.8"
    using True k(1) by (simp add: is_power_law_distribution_def Let_def desc_def best_def k_def)
  also have "foldl (+) 0 desc > 0 \<longleftrightarrow> 0 < N"
    using unat_total [OF fit(2)] total_mset by (simp add: word_less_nat_alt)
  also have "real_u64 (foldl (+) 0 best) = real (sum_list (map unat best))"
    unfolding real_u64_def unat_total [OF fit(1)] ..
  also have "real_u64 (foldl (+) 0 desc) = real N"
    unfolding real_u64_def unat_total [OF fit(2)] total_mset ..
  finally have "is_power_law_distribution counts \<longleftrightarrow> 0 < N \<and> 4 * N \<le> 5 * sum_list (map unat best)"
    by (auto simp: field_simps)
  moreover have "4 * N \<le> 5 * sum_list (map unat best) \<longleftrightarrow>
      (\<exists>xs. mset xs \<subseteq># mset counts \<and> length xs = k \<and> 4 * N \<le> 5 * sum_list (map unat xs))"
  proof
    assume "4 * N \<le> 5 * sum_list (map unat best)"
    with top_mset k(2) show "\<exists>xs. mset xs \<subseteq># mset counts \<and> length xs = k
        \<and> 4 * N \<le> 5 * sum_list (map unat xs)" by blast
  next
    assume "\<exists>xs. mset xs \<subseteq># mset counts \<and> length xs = k \<and> 4 * N \<le> 5 * sum_list (map unat xs)"
    then obtain xs where "mset xs \<subseteq># mset counts" "length xs = k" "4 * N \<le> 5 * sum_list (map unat xs)"
      by blast
    with most [of xs] show "4 * N \<le> 5 * sum_list (map unat best)" by linarith
  qed
  ultimately show ?thesis
    using True by (simp add: N_def k_def)
qed (simp add: is_power_law_distribution_def)

theorem power_law_iff_witness:
  "is_power_law_distribution [40, 1, 1, 1, 40, 1, 1, 1, 1, 1]"
  by (subst power_law_iff) (auto intro!: exI [of _ "[40, 40]"])

end
