(* ===== verification/Cache_Server.thy ===== *)
theory Cache_Server
  imports Complex_Main Common_Types
begin

text \<open>
  The server object that owns the components: \<open>include/cache/cache_server.h\<close> and
  \<open>src/cache_server.cpp\<close>. At this commit the initialisation and the cleaning up of each component
  only report, and most administrative operations are not implemented; what is there is the life
  cycle: the order of the phases, the roll back on failure, the statistics thread and the signal
  handler. The messages on standard output are kept in order in \<open>srv_log\<close>. \<open>None\<close> stands for
  \<open>std::terminate\<close>, which a thread assigned over a joinable one causes.
\<close>

section \<open>Configuration\<close>

record cluster_config =
  cc_node_id :: node_id
  cc_listen_address :: string
  cc_listen_port :: u16
  seed_nodes :: "string list"
  replication_factor :: nat
  shard_count :: nat
  heartbeat_interval_ms :: u32
  failure_detection_timeout_ms :: u32
  enable_auto_rebalance :: bool

definition ClusterConfig :: cluster_config where
  "ClusterConfig = \<lparr>cc_node_id = [], cc_listen_address = [], cc_listen_port = 0, seed_nodes = [],
     replication_factor = 3, shard_count = 1024, heartbeat_interval_ms = 1000,
     failure_detection_timeout_ms = 5000, enable_auto_rebalance = True\<rparr>"

text \<open>Durations in seconds; \<open>hardware_concurrency\<close> is given by the machine.\<close>

record server_config =
  listen_address :: string
  listen_port :: u16
  max_connections :: u32
  request_timeout_ms :: u32
  data_directory :: string
  storage_engine_type :: engine_type
  storage_config :: "(string \<times> string) list"
  server_cluster :: cluster_config
  enable_authentication :: bool
  auth_token_secret :: string
  token_expiry_time :: int
  enable_monitoring :: bool
  metrics_port :: u16
  metric_retention_period :: int
  thread_pool_size :: nat
  srv_max_batch_size :: nat
  srv_enable_compression :: bool

definition ServerConfig :: "nat \<Rightarrow> server_config" where
  "ServerConfig hardware_concurrency = \<lparr>listen_address = ''0.0.0.0'', listen_port = 8080,
     max_connections = 1000, request_timeout_ms = 100, data_directory = ''./data'',
     storage_engine_type = LSM_TREE, storage_config = [], server_cluster = ClusterConfig,
     enable_authentication = True, auth_token_secret = [], token_expiry_time = 86400,
     enable_monitoring = True, metrics_port = 9090, metric_retention_period = 86400,
     thread_pool_size = hardware_concurrency, srv_max_batch_size = 1000,
     srv_enable_compression = False\<rparr>"

definition load_from_file :: "nat \<Rightarrow> string \<Rightarrow> server_config result" where
  "load_from_file hardware_concurrency config_file = Ok (ServerConfig hardware_concurrency)"

definition save_to_file :: "string \<Rightarrow> server_config \<Rightarrow> unit result" where
  "save_to_file config_file config = Error NOT_IMPLEMENTED ''Save to file not implemented''"

definition validate_server :: "server_config \<Rightarrow> unit result" where
  "validate_server config =
     (if listen_port config = 0 then Error INVALID_ARGUMENT ''Invalid listen port''
      else if data_directory config = [] then Error INVALID_ARGUMENT ''Data directory cannot be empty''
      else Ok ())"

definition parse_config_file :: "string \<Rightarrow> server_config result" where
  "parse_config_file filename = Error NOT_IMPLEMENTED ''Config file parsing not implemented''"

definition validate_config :: "server_config \<Rightarrow> unit result" where
  "validate_config config = Ok ()"

definition generate_default_config :: string where
  "generate_default_config = ''# Default configuration'' @ [CHR 0x0A]"

definition get_env_var :: "(string \<Rightarrow> string option) \<Rightarrow> string \<Rightarrow> string \<Rightarrow> string" where
  "get_env_var env var_name default_value =
     (case env var_name of Some v \<Rightarrow> v | None \<Rightarrow> default_value)"

definition apply_env_overrides :: "server_config \<Rightarrow> server_config" where
  "apply_env_overrides config = config"

section \<open>State\<close>

record server_stats =
  start_time :: time_point
  uptime :: millis
  total_connections :: u64
  active_connections :: u64
  total_requests :: u64
  successful_requests :: u64
  failed_requests :: u64
  average_latency_ms :: real
  p99_latency_ms :: real
  keys_count :: u64
  memory_usage_bytes :: u64
  disk_usage_bytes :: u64
  cache_hit_ratio :: real
  cluster_size :: nat
  healthy_nodes :: nat
  is_leader :: bool
  load_balance_factor :: real

definition ServerStats :: "time_point \<Rightarrow> server_stats" where
  "ServerStats now = \<lparr>start_time = now, uptime = 0, total_connections = 0, active_connections = 0,
     total_requests = 0, successful_requests = 0, failed_requests = 0, average_latency_ms = 0,
     p99_latency_ms = 0, keys_count = 0, memory_usage_bytes = 0, disk_usage_bytes = 0,
     cache_hit_ratio = 0, cluster_size = 0, healthy_nodes = 0, is_leader = False,
     load_balance_factor = 1\<rparr>"

record cache_server =
  srv_config :: server_config
  srv_running :: bool
  shutdown_requested :: bool
  shutdown_handler :: bool
  handler_runs :: nat
  srv_stats :: server_stats
  stats_thread :: bool
  stop_stats :: bool
  srv_log :: "string list"

definition CacheServer_new :: "time_point \<Rightarrow> server_config \<Rightarrow> cache_server" where
  "CacheServer_new now config = \<lparr>srv_config = config, srv_running = False,
     shutdown_requested = False, shutdown_handler = False, handler_runs = 0,
     srv_stats = ServerStats now, stats_thread = False, stop_stats = False, srv_log = []\<rparr>"

definition say :: "string \<Rightarrow> cache_server \<Rightarrow> cache_server" where
  "say msg s = s\<lparr>srv_log := srv_log s @ [''[INFO] '' @ msg]\<rparr>"

section \<open>Phases\<close>

definition initialize_storage :: "cache_server \<Rightarrow> unit result \<times> cache_server" where
  "initialize_storage s = (Ok (), say ''Initializing storage...'' s)"

definition initialize_cluster :: "cache_server \<Rightarrow> unit result \<times> cache_server" where
  "initialize_cluster s = (Ok (), say ''Initializing cluster...'' s)"

definition initialize_security :: "cache_server \<Rightarrow> unit result \<times> cache_server" where
  "initialize_security s = (Ok (), say ''Initializing security...'' s)"

definition initialize_monitoring :: "cache_server \<Rightarrow> unit result \<times> cache_server" where
  "initialize_monitoring s = (Ok (), say ''Initializing monitoring...'' s)"

definition initialize_network :: "cache_server \<Rightarrow> unit result \<times> cache_server" where
  "initialize_network s = (Ok (), say ''Initializing network...'' s)"

definition cleanup_storage :: "cache_server \<Rightarrow> cache_server" where
  "cleanup_storage = say ''Cleaning up storage...''"

definition cleanup_cluster :: "cache_server \<Rightarrow> cache_server" where
  "cleanup_cluster = say ''Cleaning up cluster...''"

definition cleanup_security :: "cache_server \<Rightarrow> cache_server" where
  "cleanup_security = say ''Cleaning up security...''"

definition cleanup_monitoring :: "cache_server \<Rightarrow> cache_server" where
  "cleanup_monitoring = say ''Cleaning up monitoring...''"

definition cleanup_network :: "cache_server \<Rightarrow> cache_server" where
  "cleanup_network = say ''Cleaning up network...''"

definition start_stats_collection :: "cache_server \<Rightarrow> cache_server option" where
  "start_stats_collection s =
     (if stats_thread s then None else Some (s\<lparr>stop_stats := False, stats_thread := True\<rparr>))"

text \<open>The thread sees the flag within a second, so the join ends.\<close>

definition stop_stats_collection :: "cache_server \<Rightarrow> cache_server" where
  "stop_stats_collection s = s\<lparr>stop_stats := True, stats_thread := False\<rparr>"

definition update_stats :: "cache_server \<Rightarrow> cache_server" where
  "update_stats s = s"

section \<open>Life cycle\<close>

definition server_start :: "(cache_server, unit result) op" where
  "server_start s =
     (if srv_running s then Some (Error ALREADY_EXISTS ''Server is already running'', s)
      else let s = say ''Starting cache server...'' s;
               (r, s) = initialize_storage s
        in if \<not> is_ok r then Some (r, s)
      else let (r, s) = initialize_cluster s
        in if \<not> is_ok r then Some (r, cleanup_storage s)
      else let (r, s) = initialize_security s
        in if \<not> is_ok r then Some (r, cleanup_storage (cleanup_cluster s))
      else let (r, s) = initialize_monitoring s
        in if \<not> is_ok r then Some (r, cleanup_storage (cleanup_cluster (cleanup_security s)))
      else let (r, s) = initialize_network s
        in if \<not> is_ok r
           then Some (r, cleanup_storage (cleanup_cluster (cleanup_security (cleanup_monitoring s))))
      else do {
        s \<leftarrow> start_stats_collection s;
        Some (Ok (), say ''Cache server started successfully'' (s\<lparr>srv_running := True\<rparr>)) })"

definition server_stop :: "cache_server \<Rightarrow> unit result \<times> cache_server" where
  "server_stop s =
     (if \<not> srv_running s then (Ok (), s)
      else let s = say ''Stopping cache server...'' s;
               s = s\<lparr>srv_running := False, shutdown_requested := True\<rparr>;
               s = stop_stats_collection s;
               s = cleanup_storage (cleanup_cluster (cleanup_security (cleanup_monitoring (cleanup_network s))))
           in (Ok (), say ''Cache server stopped'' s))"

text \<open>The last component is \<open>instance_\<close>: whether the handler of signals has a server.\<close>

definition CacheServer_delete :: "cache_server \<times> bool \<Rightarrow> cache_server \<times> bool" where
  "CacheServer_delete = (\<lambda>(s, registered).
     (if srv_running s then snd (server_stop s) else s, False))"

definition server_restart :: "(cache_server, unit result) op" where
  "server_restart s =
     (let (r, s) = server_stop s
      in if \<not> is_ok r then Some (r, s) else server_start s)"

definition server_update_config :: "server_config \<Rightarrow> cache_server \<Rightarrow> unit result \<times> cache_server" where
  "server_update_config new_config s = (Ok (), s\<lparr>srv_config := new_config\<rparr>)"

definition set_shutdown_handler :: "bool \<Rightarrow> cache_server \<Rightarrow> cache_server" where
  "set_shutdown_handler present s = s\<lparr>shutdown_handler := present\<rparr>"

text \<open>The handler the object installs for SIGINT and SIGTERM.\<close>

definition server_signal :: "nat \<Rightarrow> cache_server \<Rightarrow> cache_server" where
  "server_signal sig s =
     (let s = say (''Received signal '' @ to_string sig @ '', shutting down gracefully...'') s;
          s = s\<lparr>shutdown_requested := True\<rparr>;
          s = (if shutdown_handler s then s\<lparr>handler_runs := Suc (handler_runs s)\<rparr> else s)
      in snd (server_stop s))"

definition get_health_status :: "cache_server \<Rightarrow> string" where
  "get_health_status s = (if srv_running s then ''healthy'' else ''stopped'')"

definition get_stats :: "cache_server \<Rightarrow> server_stats" where
  "get_stats s = srv_stats s"

section \<open>Operations that are not implemented\<close>

definition reload_config :: "string \<Rightarrow> unit result" where
  "reload_config config_file = Error NOT_IMPLEMENTED ''Config reload not implemented''"

definition flush_all_data :: "unit result" where
  "flush_all_data = Error NOT_IMPLEMENTED ''Flush all data not implemented''"

definition compact_storage :: "unit result" where
  "compact_storage = Error NOT_IMPLEMENTED ''Compact storage not implemented''"

definition backup_data :: "string \<Rightarrow> unit result" where
  "backup_data backup_path = Error NOT_IMPLEMENTED ''Backup not implemented''"

definition restore_data :: "string \<Rightarrow> unit result" where
  "restore_data backup_path = Error NOT_IMPLEMENTED ''Restore not implemented''"

definition join_cluster :: "unit result" where
  "join_cluster = Error NOT_IMPLEMENTED ''Join cluster not implemented''"

definition leave_cluster :: "unit result" where
  "leave_cluster = Error NOT_IMPLEMENTED ''Leave cluster not implemented''"

definition trigger_rebalance :: "unit result" where
  "trigger_rebalance = Error NOT_IMPLEMENTED ''Trigger rebalance not implemented''"

definition create_user :: "string \<Rightarrow> string \<Rightarrow> 'p list \<Rightarrow> unit result" where
  "create_user username password permissions = Error NOT_IMPLEMENTED ''Create user not implemented''"

definition delete_user :: "string \<Rightarrow> unit result" where
  "delete_user username = Error NOT_IMPLEMENTED ''Delete user not implemented''"

definition update_user_permissions :: "string \<Rightarrow> 'p list \<Rightarrow> unit result" where
  "update_user_permissions username permissions =
     Error NOT_IMPLEMENTED ''Update user permissions not implemented''"

definition export_metrics :: "string \<Rightarrow> string" where
  "export_metrics format = ''# No metrics available'' @ [CHR 0x0A]"

section \<open>Steps\<close>

inductive server_step :: "cache_server \<Rightarrow> cache_server \<Rightarrow> bool" where
  srv_start: "server_start s = Some (r, s') \<Longrightarrow> server_step s s'"
| srv_stop: "server_stop s = (r, s') \<Longrightarrow> server_step s s'"
| srv_restart: "server_restart s = Some (r, s') \<Longrightarrow> server_step s s'"
| srv_signal: "server_step s (server_signal sig s)"
| srv_update: "server_update_config config s = (r, s') \<Longrightarrow> server_step s s'"
| srv_handler: "server_step s (set_shutdown_handler present s)"
| srv_update_stats: "server_step s (update_stats s)"

inductive server_reachable :: "cache_server \<Rightarrow> bool" where
  srv_initial: "server_reachable (CacheServer_new now config)"
| srv_next: "server_reachable s \<Longrightarrow> server_step s s' \<Longrightarrow> server_reachable s'"

end
