(* ===== verification/Server_Main.thy ===== *)
theory Server_Main
  imports Cache_Server Text_Numbers
begin

text \<open>
  The program: \<open>src/main.cpp\<close>. \<open>getopt_long\<close> is a library: the list of what it returns, each
  option's character with its argument and \<open>?\<close> for an option it does not know, is an argument.
  So are the results of the system calls that make the process a daemon. Left out is what is only
  printed.
\<close>

section \<open>Command line\<close>

record options =
  opt_config_file :: string
  opt_listen_address :: string
  opt_listen_port :: u16
  opt_data_dir :: string
  opt_node_id :: string
  opt_seed_nodes :: string
  opt_log_level :: string
  opt_daemon :: bool

definition default_options :: options where
  "default_options = \<lparr>opt_config_file = ''config.yaml'', opt_listen_address = ''0.0.0.0'',
     opt_listen_port = 8080, opt_data_dir = ''./data'', opt_node_id = [], opt_seed_nodes = [],
     opt_log_level = ''info'', opt_daemon = False\<rparr>"

text \<open>How \<open>main\<close> ends, or the server it leaves running.\<close>

datatype main_outcome =
    Returned nat string \<comment> \<open>the exit code and the messages on standard error\<close>
  | Terminated \<comment> \<open>\<open>std::terminate\<close>, after an exception no handler catches\<close>
  | Serving cache_server

text \<open>
  One option, and the loop over them. \<open>std::stoi\<close> stands outside the \<open>try\<close> block of \<open>main\<close>; what it
  returns is cut to 16 bits.
\<close>

definition apply_option :: "char \<Rightarrow> string \<Rightarrow> options \<Rightarrow> options + main_outcome" where
  "apply_option c optarg opts =
     (if c = CHR ''c'' then Inl (opts\<lparr>opt_config_file := optarg\<rparr>)
      else if c = CHR ''p'' then
        (case stoi optarg of
           None \<Rightarrow> Inr Terminated
         | Some v \<Rightarrow> Inl (opts\<lparr>opt_listen_port := word_of_int v\<rparr>))
      else if c = CHR ''a'' then Inl (opts\<lparr>opt_listen_address := optarg\<rparr>)
      else if c = CHR ''d'' then Inl (opts\<lparr>opt_data_dir := optarg\<rparr>)
      else if c = CHR ''n'' then Inl (opts\<lparr>opt_node_id := optarg\<rparr>)
      else if c = CHR ''s'' then Inl (opts\<lparr>opt_seed_nodes := optarg\<rparr>)
      else if c = CHR ''l'' then Inl (opts\<lparr>opt_log_level := optarg\<rparr>)
      else if c = CHR ''D'' then Inl (opts\<lparr>opt_daemon := True\<rparr>)
      else if c = CHR ''h'' then Inr (Returned 0 [])
      else if c = CHR ''v'' then Inr (Returned 0 [])
      else if c = CHR ''?'' then Inr (Returned 1 ''Unknown option. Use --help for usage information.'')
      else Inl opts)"

fun parse_options :: "(char \<times> string) list \<Rightarrow> options \<Rightarrow> options + main_outcome" where
  "parse_options [] opts = Inl opts"
| "parse_options ((c, optarg) # rest) opts =
     (case apply_option c optarg opts of
        Inr outcome \<Rightarrow> Inr outcome
      | Inl opts \<Rightarrow> parse_options rest opts)"

text \<open>\<open>std::getline\<close> on a string stream, until the stream is at its end.\<close>

function getline_all :: "char \<Rightarrow> string \<Rightarrow> string list" where
  "getline_all delim text =
     (if text = [] then []
      else takeWhile (\<lambda>c. c \<noteq> delim) text
           # getline_all delim (drop 1 (dropWhile (\<lambda>c. c \<noteq> delim) text)))"
  by pat_completeness auto

termination
proof (relation "measure (\<lambda>(delim, text). length text)")
  fix delim :: char and str :: string
  assume "str \<noteq> []"
  then have "0 < length str" by simp
  moreover have "length (dropWhile (\<lambda>c. c \<noteq> delim) str) \<le> length str" by (rule length_dropWhile_le)
  ultimately have "length (dropWhile (\<lambda>c. c \<noteq> delim) str) - 1 < length str" by linarith
  then show "((delim, drop 1 (dropWhile (\<lambda>c. c \<noteq> delim) str)), (delim, str))
      \<in> measure (\<lambda>(delim, text). length text)" by simp
qed simp

declare getline_all.simps [simp del]

section \<open>Daemon\<close>

text \<open>
  The process after \<open>daemonize\<close>: a parent that exits with code 0, a failure that is reported, or
  the daemon. The arguments are the results of the system calls in their order.
\<close>

datatype daemon_outcome = ParentExit | DaemonFailed string | DaemonProcess

definition daemonize :: "int \<Rightarrow> int \<Rightarrow> int \<Rightarrow> int \<Rightarrow> daemon_outcome" where
  "daemonize pid1 sid pid2 cd =
     (if pid1 < 0 then DaemonFailed ''Failed to fork process''
      else if pid1 > 0 then ParentExit
      else if sid < 0 then DaemonFailed ''Failed to create new session''
      else if pid2 < 0 then DaemonFailed ''Failed to fork process (second time)''
      else if pid2 > 0 then ParentExit
      else if cd < 0 then DaemonFailed ''Failed to change working directory''
      else DaemonProcess)"

section \<open>The main function\<close>

definition configure :: "nat \<Rightarrow> options \<Rightarrow> server_config" where
  "configure cores opts =
     (let config = ServerConfig cores;
          config = (if opt_config_file opts \<noteq> []
            then (case load_from_file cores (opt_config_file opts) of Ok loaded \<Rightarrow> loaded | Error _ _ \<Rightarrow> config)
            else config);
          config = config\<lparr>listen_address := opt_listen_address opts,
            listen_port := opt_listen_port opts, data_directory := opt_data_dir opts\<rparr>;
          config = (if opt_node_id opts \<noteq> []
            then config\<lparr>server_cluster := (server_cluster config)\<lparr>cc_node_id := opt_node_id opts\<rparr>\<rparr>
            else config);
          config = (if opt_seed_nodes opts \<noteq> []
            then config\<lparr>server_cluster := (server_cluster config)
                   \<lparr>seed_nodes := getline_all (CHR '','') (opt_seed_nodes opts)\<rparr>\<rparr>
            else config)
      in apply_env_overrides config)"

definition run_server :: "time_point \<Rightarrow> server_config \<Rightarrow> main_outcome" where
  "run_server now config =
     (case validate_server config of
        Error _ msg \<Rightarrow> Returned 1 (''Configuration validation failed: '' @ msg)
      | Ok _ \<Rightarrow>
          (case server_start (CacheServer_new now config) of
             None \<Rightarrow> Terminated
           | Some (Error _ msg, s) \<Rightarrow> Returned 1 (''Failed to start server: '' @ msg)
           | Some (Ok _, s) \<Rightarrow> Serving s))"

definition server_main ::
    "time_point \<Rightarrow> nat \<Rightarrow> daemon_outcome \<Rightarrow> (char \<times> string) list \<Rightarrow> main_outcome" where
  "server_main now cores daemon args =
     (case parse_options args default_options of
        Inr outcome \<Rightarrow> outcome
      | Inl opts \<Rightarrow>
          if opt_daemon opts then
            (case daemon of
               ParentExit \<Rightarrow> Returned 0 []
             | DaemonFailed msg \<Rightarrow> Returned 1 (msg @ [CHR 0x0A] @ ''Failed to daemonize process'')
             | DaemonProcess \<Rightarrow> run_server now (configure cores opts))
          else run_server now (configure cores opts))"

text \<open>The handler of SIGINT, SIGTERM and SIGQUIT: it stops the server and exits with code 0.\<close>

definition main_signal_handler :: "cache_server option \<Rightarrow> nat \<times> cache_server option" where
  "main_signal_handler g_server = (0, map_option (\<lambda>s. snd (server_stop s)) g_server)"

end
