(* ===== verification/Server_Properties.thy ===== *)
theory Server_Properties
  imports Server_Main
begin

text \<open>
  What holds of the program: the order of the phases, the life cycle of the statistics thread, and
  what the command line does.
\<close>

section \<open>Life cycle\<close>

lemmas phase_defs =
  initialize_storage_def initialize_cluster_def initialize_security_def initialize_monitoring_def
  initialize_network_def cleanup_storage_def cleanup_cluster_def cleanup_security_def
  cleanup_monitoring_def cleanup_network_def

lemmas lifecycle_defs =
  server_start_def server_stop_def start_stats_collection_def stop_stats_collection_def

text \<open>The statistics thread exists exactly while the server runs.\<close>

definition stats_wf :: "cache_server \<Rightarrow> bool" where
  "stats_wf s \<longleftrightarrow> stats_thread s = srv_running s"

lemma say_simps [simp]:
  "srv_running (say msg s) = srv_running s"
  "stats_thread (say msg s) = stats_thread s"
  "srv_config (say msg s) = srv_config s"
  "shutdown_requested (say msg s) = shutdown_requested s"
  "srv_log (say msg s) = srv_log s @ [''[INFO] '' @ msg]"
  by (simp_all add: say_def)

lemma server_start_running:
  "srv_running s \<Longrightarrow> server_start s = Some (Error ALREADY_EXISTS ''Server is already running'', s)"
  by (simp add: server_start_def)

lemma server_start_stopped:
  assumes "\<not> srv_running s" and "\<not> stats_thread s"
  shows "\<exists>s'. server_start s = Some (Ok (), s') \<and> srv_running s' \<and> stats_thread s'
    \<and> srv_config s' = srv_config s \<and> shutdown_requested s' = shutdown_requested s
    \<and> srv_log s' = srv_log s @ map (\<lambda>msg. ''[INFO] '' @ msg)
         [''Starting cache server...'', ''Initializing storage...'', ''Initializing cluster...'',
          ''Initializing security...'', ''Initializing monitoring...'', ''Initializing network...'',
          ''Cache server started successfully'']"
  using assms by (simp add: lifecycle_defs phase_defs Let_def)

lemma server_stop_stopped: "\<not> srv_running s \<Longrightarrow> server_stop s = (Ok (), s)"
  by (simp add: server_stop_def)

lemma server_stop_running:
  assumes "srv_running s"
  shows "\<exists>s'. server_stop s = (Ok (), s') \<and> \<not> srv_running s' \<and> \<not> stats_thread s'
    \<and> srv_config s' = srv_config s \<and> shutdown_requested s'
    \<and> srv_log s' = srv_log s @ map (\<lambda>msg. ''[INFO] '' @ msg)
         [''Stopping cache server...'', ''Cleaning up network...'', ''Cleaning up monitoring...'',
          ''Cleaning up security...'', ''Cleaning up cluster...'', ''Cleaning up storage...'',
          ''Cache server stopped'']"
  using assms by (simp add: lifecycle_defs phase_defs Let_def)

lemma server_stop_wf:
  assumes "stats_wf s" and "server_stop s = (r, s')"
  shows "stats_wf s' \<and> \<not> srv_running s' \<and> r = Ok ()"
proof (cases "srv_running s")
  case True
  from server_stop_running [OF this] assms(2) show ?thesis by (auto simp: stats_wf_def)
next
  case False
  with server_stop_stopped [OF this] assms show ?thesis by simp
qed

lemma server_start_wf:
  assumes "stats_wf s"
  shows "\<exists>r s'. server_start s = Some (r, s') \<and> stats_wf s' \<and> srv_running s'"
proof (cases "srv_running s")
  case True
  with server_start_running [OF this] assms show ?thesis by blast
next
  case False
  with assms server_start_stopped [of s] show ?thesis by (auto simp: stats_wf_def)
qed

lemma server_restart_wf:
  assumes "stats_wf s"
  shows "\<exists>s'. server_restart s = Some (Ok (), s') \<and> stats_wf s' \<and> srv_running s'"
proof -
  obtain r t where t: "server_stop s = (r, t)" by fastforce
  from server_stop_wf [OF assms this] have "stats_wf t" "\<not> srv_running t" "r = Ok ()" by simp_all
  with t server_start_stopped [of t] show ?thesis by (auto simp: server_restart_def stats_wf_def)
qed

lemma server_step_wf:
  assumes "server_step s s'" and "stats_wf s"
  shows "stats_wf s'"
  using assms(1)
proof cases
  case (srv_start r)
  with server_start_wf [OF assms(2)] show ?thesis by auto
next
  case (srv_stop r)
  with server_stop_wf [OF assms(2)] show ?thesis by blast
next
  case (srv_restart r)
  with server_restart_wf [OF assms(2)] show ?thesis by auto
next
  case (srv_signal sig)
  define t where "t = (say (''Received signal '' @ to_string sig @ '', shutting down gracefully...'') s)
    \<lparr>shutdown_requested := True,
     handler_runs := (if shutdown_handler s then Suc (handler_runs s) else handler_runs s)\<rparr>"
  have "stats_wf t" using assms(2) by (simp add: stats_wf_def t_def)
  moreover have "s' = snd (server_stop t)"
    unfolding srv_signal by (simp add: server_signal_def t_def say_def Let_def)
  moreover obtain r u where stop: "server_stop t = (r, u)" by fastforce
  ultimately show ?thesis using server_stop_wf [OF _ stop] by simp
next
  case (srv_update config r)
  then show ?thesis using assms(2) by (auto simp: stats_wf_def server_update_config_def)
next
  case (srv_handler present)
  then show ?thesis using assms(2) by (simp add: stats_wf_def set_shutdown_handler_def)
next
  case srv_update_stats
  then show ?thesis using assms(2) by (simp add: update_stats_def)
qed

lemma server_reachable_wf: "server_reachable s \<Longrightarrow> stats_wf s"
  by (induction rule: server_reachable.induct)
    (simp add: stats_wf_def CacheServer_new_def, blast intro: server_step_wf)

text \<open>C39: whatever starts, stops, restarts and signals came before, starting and restarting never
  end in \<open>std::terminate\<close>: the statistics thread runs exactly while the server does, a start leaves
  the server running, and a restart succeeds.\<close>

theorem server_lifecycle:
  assumes "server_reachable s"
  shows "(stats_thread s \<longleftrightarrow> srv_running s)
    \<and> (\<exists>r s'. server_start s = Some (r, s') \<and> srv_running s' \<and> (is_ok r \<longleftrightarrow> \<not> srv_running s))
    \<and> (\<exists>s'. server_restart s = Some (Ok (), s') \<and> srv_running s' \<and> srv_config s' = srv_config s)"
proof -
  have wf: "stats_wf s" using assms by (rule server_reachable_wf)
  have start: "\<exists>r s'. server_start s = Some (r, s') \<and> srv_running s' \<and> (is_ok r \<longleftrightarrow> \<not> srv_running s)"
    using server_start_running [of s] server_start_stopped [of s] wf
    by (cases "srv_running s") (auto simp: stats_wf_def)
  have "\<exists>t. server_stop s = (Ok (), t) \<and> \<not> srv_running t \<and> \<not> stats_thread t \<and> srv_config t = srv_config s"
    using server_stop_running [of s] server_stop_stopped [of s] wf
    by (cases "srv_running s") (auto simp: stats_wf_def)
  then obtain t where t: "server_stop s = (Ok (), t)" "\<not> srv_running t" "\<not> stats_thread t"
    "srv_config t = srv_config s" by blast
  from server_start_stopped [OF t(2,3)] t(1,4)
  have "\<exists>s'. server_restart s = Some (Ok (), s') \<and> srv_running s' \<and> srv_config s' = srv_config s"
    by (auto simp: server_restart_def)
  with start wf show ?thesis by (simp add: stats_wf_def)
qed

theorem server_lifecycle_witness:
  "\<exists>s'. server_restart (server_signal 15 (CacheServer_new 0 (ServerConfig 8))) = Some (Ok (), s') \<and> srv_running s'"
  using server_lifecycle [OF srv_next [OF srv_initial [of 0 "ServerConfig 8"] srv_signal [where sig = 15]]]
  by blast

text \<open>A start and the stop after it bring the components up and take them down in the opposite
  order.\<close>

theorem start_stop_order:
  assumes "server_start s = Some (Ok (), t)" and "server_stop t = (r, u)"
  shows "\<exists>up down. srv_log t = srv_log s @ [''[INFO] Starting cache server...''] @ up
        @ [''[INFO] Cache server started successfully'']
    \<and> srv_log u = srv_log t @ [''[INFO] Stopping cache server...''] @ down
        @ [''[INFO] Cache server stopped'']
    \<and> up = map (\<lambda>c. ''[INFO] Initializing '' @ c @ ''...'')
        [''storage'', ''cluster'', ''security'', ''monitoring'', ''network'']
    \<and> down = map (\<lambda>c. ''[INFO] Cleaning up '' @ c @ ''...'')
        (rev [''storage'', ''cluster'', ''security'', ''monitoring'', ''network''])"
proof -
  have "\<not> srv_running s" using assms(1) server_start_running [of s] by auto
  moreover have "\<not> stats_thread s"
    using assms(1) calculation
    by (auto simp: lifecycle_defs phase_defs Let_def split: if_splits)
  ultimately have "srv_running t" and t: "srv_log t = srv_log s @ map (\<lambda>msg. ''[INFO] '' @ msg)
         [''Starting cache server...'', ''Initializing storage...'', ''Initializing cluster...'',
          ''Initializing security...'', ''Initializing monitoring...'', ''Initializing network...'',
          ''Cache server started successfully'']"
    using server_start_stopped [of s] assms(1) by auto
  from server_stop_running [OF this(1)] assms(2)
  have "srv_log u = srv_log t @ map (\<lambda>msg. ''[INFO] '' @ msg)
         [''Stopping cache server...'', ''Cleaning up network...'', ''Cleaning up monitoring...'',
          ''Cleaning up security...'', ''Cleaning up cluster...'', ''Cleaning up storage...'',
          ''Cache server stopped'']" by auto
  with t show ?thesis by simp
qed

theorem start_stop_order_witness:
  "srv_log (snd (server_stop (snd (the (server_start (CacheServer_new 0 (ServerConfig 8)))))))
    ! 9 = ''[INFO] Cleaning up monitoring...''"
proof -
  obtain t where t: "server_start (CacheServer_new 0 (ServerConfig 8)) = Some (Ok (), t)"
    using server_start_stopped [of "CacheServer_new 0 (ServerConfig 8)"] by (auto simp: CacheServer_new_def)
  obtain r u where "server_stop t = (r, u)" by fastforce
  with t start_stop_order [OF t this] show ?thesis by (auto simp: CacheServer_new_def)
qed

section \<open>Command line\<close>

lemma run_server_ok:
  assumes "validate_server config = Ok ()"
  shows "\<exists>s. run_server now config = Serving s \<and> srv_config s = config \<and> srv_running s"
  using assms server_start_stopped [of "CacheServer_new now config"]
  by (auto simp: run_server_def CacheServer_new_def)

lemma configure_simps [simp]:
  "listen_address (configure cores opts) = opt_listen_address opts"
  "listen_port (configure cores opts) = opt_listen_port opts"
  "data_directory (configure cores opts) = opt_data_dir opts"
  by (simp_all add: configure_def apply_env_overrides_def load_from_file_def Let_def)

text \<open>C40: what a port number given on the command line does. From \<open>2^31\<close> on the program is
  terminated by an exception nobody catches; below, the number is taken modulo \<open>2^16\<close>, so that a
  multiple of \<open>65536\<close> is refused and any other too large number silently serves another port.\<close>

theorem port_option_outcome:
  "server_main now cores daemon [(CHR ''p'', to_string n)] =
    (if 2 ^ 31 \<le> n then Terminated
     else if n mod 65536 = 0 then Returned 1 ''Configuration validation failed: Invalid listen port''
     else server_main now cores daemon [(CHR ''p'', to_string (n mod 65536))])
    \<and> (0 < n \<and> n < 65536 \<longrightarrow> (\<exists>s. server_main now cores daemon [(CHR ''p'', to_string n)] = Serving s
          \<and> listen_port (srv_config s) = word_of_nat n \<and> srv_running s))"
proof
  have port: "server_main now cores daemon [(CHR ''p'', to_string m)]
      = (if m < 2 ^ 31 then run_server now (configure cores (default_options\<lparr>opt_listen_port := word_of_nat m\<rparr>))
         else Terminated)" for m
    by (simp add: server_main_def apply_option_def stoi_to_string default_options_def)
  have word: "(word_of_nat n :: u16) = 0 \<longleftrightarrow> n mod 65536 = 0"
    by (simp add: word_of_nat_eq_0_iff dvd_eq_mod_eq_0)
  have same: "(word_of_nat (n mod 65536) :: u16) = word_of_nat n"
    by (rule word_unat_eq_iff [THEN iffD2]) (simp add: unat_of_nat)
  show "server_main now cores daemon [(CHR ''p'', to_string n)] =
    (if 2 ^ 31 \<le> n then Terminated
     else if n mod 65536 = 0 then Returned 1 ''Configuration validation failed: Invalid listen port''
     else server_main now cores daemon [(CHR ''p'', to_string (n mod 65536))])"
    using word mod_less_divisor [of 65536 n]
    by (simp add: port same run_server_def validate_server_def default_options_def not_le)
  show "0 < n \<and> n < 65536 \<longrightarrow> (\<exists>s. server_main now cores daemon [(CHR ''p'', to_string n)] = Serving s
          \<and> listen_port (srv_config s) = word_of_nat n \<and> srv_running s)"
  proof
    assume n: "0 < n \<and> n < 65536"
    let ?config = "configure cores (default_options\<lparr>opt_listen_port := word_of_nat n\<rparr>)"
    from n word have "(word_of_nat n :: u16) \<noteq> 0" by simp
    then have "validate_server ?config = Ok ()"
      by (simp add: validate_server_def default_options_def)
    from run_server_ok [OF this, of now] obtain s
      where "run_server now ?config = Serving s" "srv_config s = ?config" "srv_running s" by blast
    with n show "\<exists>s. server_main now cores daemon [(CHR ''p'', to_string n)] = Serving s
          \<and> listen_port (srv_config s) = word_of_nat n \<and> srv_running s"
      by (simp add: port)
  qed
qed

theorem port_option_outcome_witness:
  "\<exists>s. server_main 0 8 DaemonProcess [(CHR ''p'', to_string 9000)] = Serving s
    \<and> listen_port (srv_config s) = 9000"
  using port_option_outcome [of 0 8 DaemonProcess 9000] by auto

text \<open>A list of names as the user writes it, with commas between.\<close>

fun join_with :: "char \<Rightarrow> string list \<Rightarrow> string" where
  "join_with delim [] = []"
| "join_with delim [part] = part"
| "join_with delim (part # parts) = part @ delim # join_with delim parts"

lemma getline_all_nil [simp]: "getline_all delim [] = []"
  by (subst getline_all.simps) simp

lemma getline_all_join:
  assumes "parts \<noteq> []" and "last parts \<noteq> []" and "delim \<notin> set (concat parts)"
  shows "getline_all delim (join_with delim parts) = parts"
  using assms
proof (induction parts rule: join_with.induct)
  case (2 delim part)
  then have all: "\<forall>c \<in> set part. c \<noteq> delim" by auto
  have "takeWhile (\<lambda>c. c \<noteq> delim) part = part" "dropWhile (\<lambda>c. c \<noteq> delim) part = []"
    using all by (simp_all only: takeWhile_eq_all_conv dropWhile_eq_Nil_conv)
  with 2 show ?case by (subst getline_all.simps) (simp del: dropWhile_eq_Nil_conv takeWhile_eq_all_conv)
next
  case (3 delim part q parts)
  let ?rest = "join_with delim (q # parts)"
  have "\<forall>c \<in> set part. c \<noteq> delim" using "3.prems" by auto
  then have "takeWhile (\<lambda>c. c \<noteq> delim) (part @ delim # ?rest) = part"
    "dropWhile (\<lambda>c. c \<noteq> delim) (part @ delim # ?rest) = delim # ?rest"
    by (simp_all add: takeWhile_append dropWhile_append)
  moreover have "getline_all delim ?rest = q # parts" using 3 by simp
  ultimately show ?case by (subst getline_all.simps) simp
qed simp

text \<open>The seed nodes of the configuration are the names written on the command line, as long as
  no name has a comma and the last one is not empty.\<close>

theorem seeds_roundtrip:
  assumes "seeds \<noteq> []" and "last seeds \<noteq> []" and "CHR '','' \<notin> set (concat seeds)"
  shows "seed_nodes (server_cluster (configure cores (opts\<lparr>opt_seed_nodes := join_with (CHR '','') seeds\<rparr>)))
    = seeds"
proof -
  have "join_with (CHR '','') seeds \<noteq> []"
    using getline_all_join [OF assms] assms(1) by auto
  then show ?thesis
    by (simp add: configure_def apply_env_overrides_def load_from_file_def Let_def
        getline_all_join [OF assms])
qed

theorem seeds_roundtrip_witness:
  "seed_nodes (server_cluster (configure 8 (default_options
      \<lparr>opt_seed_nodes := join_with (CHR '','') [''node2:8080'', ''node3:8080'']\<rparr>)))
    = [''node2:8080'', ''node3:8080'']"
  using seeds_roundtrip [of "[''node2:8080'', ''node3:8080'']" 8 default_options] by simp

section \<open>The configuration file\<close>

definition forget_file :: "options \<Rightarrow> options" where
  "forget_file opts = opts\<lparr>opt_config_file := []\<rparr>"

lemma forget_file_option:
  "map_sum forget_file id (apply_option c optarg opts)
     = map_sum forget_file id (apply_option c optarg (forget_file opts))"
  by (cases opts) (simp add: apply_option_def forget_file_def split: option.split)

lemma forget_file_parse:
  "forget_file o1 = forget_file o2 \<Longrightarrow>
    map_sum forget_file id (parse_options args o1) = map_sum forget_file id (parse_options args o2)"
proof (induction args arbitrary: o1 o2)
  case (Cons arg args)
  obtain c optarg where arg: "arg = (c, optarg)" by fastforce
  have "map_sum forget_file id (apply_option c optarg o1) = map_sum forget_file id (apply_option c optarg o2)"
    using forget_file_option [of c optarg] Cons.prems by metis
  note same = this
  show ?case
  proof (cases "apply_option c optarg o1")
    case (Inl p1)
    then obtain p2 where p2: "apply_option c optarg o2 = Inl p2" "forget_file p1 = forget_file p2"
      using same by (cases "apply_option c optarg o2") simp_all
    from Cons.IH [OF p2(2)] Inl p2(1) show ?thesis by (simp add: arg)
  next
    case (Inr outcome)
    then have "apply_option c optarg o2 = Inr outcome"
      using same by (cases "apply_option c optarg o2") simp_all
    with Inr show ?thesis by (simp add: arg)
  qed
qed simp

lemma forget_file_configure: "configure cores (forget_file opts) = configure cores opts"
  by (simp add: configure_def load_from_file_def forget_file_def Let_def)

lemma forget_file_daemon: "opt_daemon (forget_file opts) = opt_daemon opts"
  by (simp add: forget_file_def)

lemma forget_file_main:
  assumes "map_sum forget_file id (parse_options args1 default_options)
    = map_sum forget_file id (parse_options args2 default_options)"
  shows "server_main now cores daemon args1 = server_main now cores daemon args2"
proof (cases "parse_options args1 default_options")
  case (Inl o1)
  then obtain o2 where o2: "parse_options args2 default_options = Inl o2" "forget_file o1 = forget_file o2"
    using assms by (cases "parse_options args2 default_options") simp_all
  then have "opt_daemon o1 = opt_daemon o2" "configure cores o1 = configure cores o2"
    using forget_file_daemon forget_file_configure by metis+
  with Inl o2(1) show ?thesis by (simp add: server_main_def split: daemon_outcome.split)
next
  case (Inr outcome)
  then have "parse_options args2 default_options = Inr outcome"
    using assms by (cases "parse_options args2 default_options") simp_all
  with Inr show ?thesis by (simp add: server_main_def)
qed

text \<open>The configuration file named on the command line has no effect at all.\<close>

theorem config_file_ignored:
  "server_main now cores daemon ((CHR ''c'', file) # args) = server_main now cores daemon args"
proof -
  have "forget_file (default_options\<lparr>opt_config_file := file\<rparr>) = forget_file default_options"
    by (simp add: forget_file_def)
  from forget_file_parse [OF this, of args]
  have "map_sum forget_file id (parse_options ((CHR ''c'', file) # args) default_options)
      = map_sum forget_file id (parse_options args default_options)"
    by (simp add: apply_option_def)
  then show ?thesis
    by (rule forget_file_main)
qed

end
