(* ===== verification/Thread_Stop.thy ===== *)
theory Thread_Stop
  imports Prelude
begin

text \<open>
  How the components end their background threads. Each of them keeps threads that run
  \<open>while (!stop)\<close> and whose turns lock the mutex of the component, and has a call that sets the flag
  and joins them: \<open>stop\<close> of the transaction manager, of the time service, of the hotspot manager and
  of the split brain detector, and \<open>close\<close> of the engine. Here the threads, the caller and any number
  of further calls run interleaved, reduced to what they do with the mutex and the flag; the
  sleeps are left out, since they only delay. \<open>inevitably\<close> says that the call returns in whatever
  order the threads are scheduled. The locales state the two ways the code ends its threads: joining
  without the mutex (\<open>stop_discipline\<close>), and joining while holding it (\<open>stop_under_lock\<close>).
\<close>

section \<open>Threads\<close>

datatype instr = Lock | Lock_shared | Unlock | Check_stop | Set_stop | Join nat

datatype hold = Free | Shared | Exclusive

text \<open>\<open>Running Free []\<close> is a thread at the head of its loop.\<close>

datatype thread = Running hold "instr list" | Ended

record threads =
  stop_flag :: bool
  stopper_hold :: hold
  stopper_code :: "instr list"
  workers :: "thread list"

fun holding :: "thread \<Rightarrow> hold" where
  "holding (Running m c) = m"
| "holding Ended = Free"

definition holds :: "threads \<Rightarrow> hold list" where
  "holds s = stopper_hold s # map holding (workers s)"

text \<open>A lock that is not available makes the thread wait. The mutexes are of type \<open>shared_mutex\<close>: a
  thread that holds one exclusively and locks it again gets an exception (\<open>throws\<close>), which releases
  the mutex and ends the turn of a loop, or the call.\<close>

fun lock_act :: "hold list \<Rightarrow> hold \<Rightarrow> instr \<Rightarrow> hold option" where
  "lock_act hs m Lock = (if list_all (\<lambda>h. h = Free) hs then Some Exclusive else None)"
| "lock_act hs m Lock_shared =
     (if m = Free \<and> list_all (\<lambda>h. h \<noteq> Exclusive) hs then Some Shared else None)"
| "lock_act hs m Unlock = Some Free"
| "lock_act hs m _ = None"

definition worker_act :: "threads \<Rightarrow> hold \<Rightarrow> instr \<Rightarrow> hold option" where
  "worker_act s m ins = (if ins = Check_stop then (if stop_flag s then None else Some m)
     else lock_act (holds s) m ins)"

fun stopper_act :: "instr \<Rightarrow> threads \<Rightarrow> threads option" where
  "stopper_act Set_stop s = Some (s\<lparr>stop_flag := True\<rparr>)"
| "stopper_act (Join i) s =
     (if i < length (workers s) \<and> workers s ! i = Ended then Some s else None)"
| "stopper_act ins s =
     map_option (\<lambda>m. s\<lparr>stopper_hold := m\<rparr>) (lock_act (holds s) (stopper_hold s) ins)"

inductive stop_step :: "(nat \<Rightarrow> instr list set) \<Rightarrow> threads \<Rightarrow> threads \<Rightarrow> bool" for turns where
  turn: "\<lbrakk>i < length (workers s); workers s ! i = Running Free []; \<not> stop_flag s; c \<in> turns i\<rbrakk>
    \<Longrightarrow> stop_step turns s (s\<lparr>workers := (workers s)[i := Running Free c]\<rparr>)"
| finish: "\<lbrakk>i < length (workers s); workers s ! i = Running Free []; stop_flag s\<rbrakk>
    \<Longrightarrow> stop_step turns s (s\<lparr>workers := (workers s)[i := Ended]\<rparr>)"
| break: "\<lbrakk>i < length (workers s); workers s ! i = Running m (Check_stop # c); stop_flag s\<rbrakk>
    \<Longrightarrow> stop_step turns s (s\<lparr>workers := (workers s)[i := Ended]\<rparr>)"
| act: "\<lbrakk>i < length (workers s); workers s ! i = Running m (ins # c);
      worker_act s m ins = Some m'\<rbrakk>
    \<Longrightarrow> stop_step turns s (s\<lparr>workers := (workers s)[i := Running m' c]\<rparr>)"
| throws: "\<lbrakk>i < length (workers s); workers s ! i = Running Exclusive (ins # c);
      ins = Lock \<or> ins = Lock_shared\<rbrakk>
    \<Longrightarrow> stop_step turns s (s\<lparr>workers := (workers s)[i := Running Free []]\<rparr>)"
| stop: "\<lbrakk>stopper_code s = ins # c; stopper_act ins s = Some s'\<rbrakk>
    \<Longrightarrow> stop_step turns s (s'\<lparr>stopper_code := c\<rparr>)"

definition returned :: "threads \<Rightarrow> bool" where
  "returned s \<longleftrightarrow> stopper_code s = []"

inductive inevitably :: "(nat \<Rightarrow> instr list set) \<Rightarrow> threads \<Rightarrow> bool" for turns where
  now: "returned s \<Longrightarrow> inevitably turns s"
| later: "\<lbrakk>stop_step turns s t; \<And>s'. stop_step turns s s' \<Longrightarrow> inevitably turns s'\<rbrakk>
    \<Longrightarrow> inevitably turns s"

text \<open>The first \<open>n\<close> threads are the loops; the others are calls in progress, each with the code
  that is left of it.\<close>

definition start :: "instr list \<Rightarrow> nat \<Rightarrow> instr list list \<Rightarrow> threads" where
  "start code n cs = \<lparr>stop_flag = False, stopper_hold = Free, stopper_code = code,
     workers = replicate n (Running Free []) @ map (Running Free) cs\<rparr>"

abbreviation runs_to :: "(nat \<Rightarrow> instr list set) \<Rightarrow> threads \<Rightarrow> threads \<Rightarrow> bool" where
  "runs_to turns \<equiv> (stop_step turns)\<^sup>*\<^sup>*"

section \<open>Code that uses the mutex properly\<close>

definition worker_code :: "instr list \<Rightarrow> bool" where
  "worker_code c = list_all (\<lambda>ins. ins \<in> {Lock, Lock_shared, Unlock, Check_stop}) c"

definition caller_code :: "nat \<Rightarrow> instr list \<Rightarrow> bool" where
  "caller_code n c = list_all (\<lambda>ins. ins \<noteq> Check_stop \<and> (\<forall>i. ins = Join i \<longrightarrow> i < n)) c"

text \<open>\<open>tidy\<close>: locks are paired, not nested, and no thread is joined while the mutex is held.\<close>

fun tidy :: "hold \<Rightarrow> instr list \<Rightarrow> bool" where
  "tidy m [] \<longleftrightarrow> m = Free"
| "tidy m (Lock # c) \<longleftrightarrow> m = Free \<and> tidy Exclusive c"
| "tidy m (Lock_shared # c) \<longleftrightarrow> m = Free \<and> tidy Shared c"
| "tidy m (Unlock # c) \<longleftrightarrow> m \<noteq> Free \<and> tidy Free c"
| "tidy m (Join i # c) \<longleftrightarrow> m = Free \<and> tidy Free c"
| "tidy m (Check_stop # c) \<longleftrightarrow> tidy m c"
| "tidy m (Set_stop # c) \<longleftrightarrow> tidy m c"

text \<open>\<open>must_lock\<close>: the thread locks the mutex before it looks at the flag again.\<close>

fun must_lock :: "instr list \<Rightarrow> bool" where
  "must_lock [] \<longleftrightarrow> False"
| "must_lock (Check_stop # c) \<longleftrightarrow> False"
| "must_lock (Unlock # c) \<longleftrightarrow> must_lock c"
| "must_lock (_ # c) \<longleftrightarrow> True"

fun blocked :: "thread \<Rightarrow> bool" where
  "blocked (Running m c) \<longleftrightarrow> must_lock c"
| "blocked Ended \<longleftrightarrow> False"

lemma worker_code_simps [simp]:
  "worker_code []" "worker_code (ins # c) \<longleftrightarrow> ins \<in> {Lock, Lock_shared, Unlock, Check_stop} \<and> worker_code c"
  "worker_code (c @ d) \<longleftrightarrow> worker_code c \<and> worker_code d"
  by (simp_all add: worker_code_def)

lemma caller_code_simps [simp]:
  "caller_code n []"
  "caller_code n (ins # c) \<longleftrightarrow> ins \<noteq> Check_stop \<and> (\<forall>i. ins = Join i \<longrightarrow> i < n) \<and> caller_code n c"
  by (simp_all add: caller_code_def)

lemma caller_code_mono: "caller_code n c \<Longrightarrow> n \<le> m \<Longrightarrow> caller_code m c"
  by (induction c) auto

lemma worker_code_repeat [simp]: "worker_code c \<Longrightarrow> worker_code (concat (replicate n c))"
  by (induction n) simp_all

lemma tidy_append: "tidy m c \<Longrightarrow> tidy Free d \<Longrightarrow> tidy m (c @ d)"
  by (induction m c rule: tidy.induct) auto

section \<open>Runs that end\<close>

text \<open>Once the flag is set no new turn begins, and every step shortens what is left to do.\<close>

fun left_to_do :: "thread \<Rightarrow> nat" where
  "left_to_do (Running m c) = Suc (length c)"
| "left_to_do Ended = 0"

definition steps_left :: "threads \<Rightarrow> nat" where
  "steps_left s = length (stopper_code s) + sum_list (map left_to_do (workers s))"

lemma sum_list_update_less:
  fixes f :: "'a \<Rightarrow> nat"
  assumes "i < length xs" and "f x < f (xs ! i)"
  shows "sum_list (map f (xs[i := x])) < sum_list (map f xs)"
  using assms by (induction xs arbitrary: i) (auto split: nat.splits)

lemma stopper_act_fields:
  assumes "stopper_act ins s = Some s'"
  shows "workers s' = workers s" and "stop_flag s \<Longrightarrow> stop_flag s'"
    and "stopper_code s' = stopper_code s"
  using assms by (induction ins s rule: stopper_act.induct) (auto split: if_splits)

lemma stop_flag_stays: "stop_step turns s s' \<Longrightarrow> stop_flag s \<Longrightarrow> stop_flag s'"
  by (induction rule: stop_step.induct) (auto dest: stopper_act_fields(2))

lemma steps_left_decreases:
  "stop_step turns s s' \<Longrightarrow> stop_flag s \<Longrightarrow> steps_left s' < steps_left s"
  by (induction rule: stop_step.induct)
    (auto simp: steps_left_def stopper_act_fields intro: sum_list_update_less)

lemma inevitably_if_progress:
  assumes keeps: "\<And>s s'. I s \<Longrightarrow> stop_step turns s s' \<Longrightarrow> I s' \<or> returned s'"
    and flag: "\<And>s. I s \<Longrightarrow> stop_flag s"
    and progress: "\<And>s. I s \<Longrightarrow> \<not> returned s \<Longrightarrow> \<exists>s'. stop_step turns s s'"
    and "I s"
  shows "inevitably turns s"
  using \<open>I s\<close>
proof (induction "steps_left s" arbitrary: s rule: less_induct)
  case less
  show ?case
  proof (cases "returned s")
    case True
    then show ?thesis by (rule inevitably.now)
  next
    case False
    then obtain t where t: "stop_step turns s t" using progress less(2) by blast
    have "inevitably turns s'" if "stop_step turns s s'" for s'
      using keeps [OF less(2) that] less(1) [OF steps_left_decreases [OF that flag [OF less(2)]]]
      by (auto intro: inevitably.now)
    with t show ?thesis by (rule inevitably.later)
  qed
qed

lemma never_not_inevitably:
  assumes "inevitably turns s" and "\<And>s'. runs_to turns s s' \<Longrightarrow> \<not> returned s'"
  shows False
  using assms
proof (induction rule: inevitably.induct)
  case (now s)
  then show ?case by blast
next
  case (later s t)
  show ?case
    by (rule later(3) [OF later(1)]) (rule later(4) [OF converse_rtranclp_into_rtranclp [of _ s t]],
        use later(1) in simp_all)
qed

lemma returned_stays: "stop_step turns s s' \<Longrightarrow> returned s \<Longrightarrow> returned s'"
  by (induction rule: stop_step.induct) (simp_all add: returned_def)

text \<open>\<open>waits\<close>: one of the threads that the caller has still to join has to lock the mutex first.\<close>

definition waits :: "threads \<Rightarrow> bool" where
  "waits s \<longleftrightarrow> list_ex (\<lambda>ins. case ins of Join i \<Rightarrow> blocked (workers s ! i) | _ \<Rightarrow> False) (stopper_code s)"

section \<open>Joining without the mutex\<close>

locale thread_turns =
  fixes turns :: "nat \<Rightarrow> instr list set"
  assumes turns_code: "c \<in> turns i \<Longrightarrow> worker_code c"

locale stop_discipline = thread_turns +
  fixes code :: "instr list" and n :: nat
  assumes turns_tidy: "c \<in> turns i \<Longrightarrow> tidy Free c"
    and code_tidy: "tidy Free code"
    and code_caller: "caller_code n code"
begin

fun worker_tidy :: "thread \<Rightarrow> bool" where
  "worker_tidy (Running m c) \<longleftrightarrow> tidy m c \<and> worker_code c"
| "worker_tidy Ended \<longleftrightarrow> True"

definition orderly :: "threads \<Rightarrow> bool" where
  "orderly s \<longleftrightarrow> tidy (stopper_hold s) (stopper_code s) \<and> list_all worker_tidy (workers s)
     \<and> caller_code (length (workers s)) (stopper_code s)"

lemma orderly_update:
  "orderly s \<Longrightarrow> worker_tidy w \<Longrightarrow> orderly (s\<lparr>workers := (workers s)[i := w]\<rparr>)"
  by (auto simp: orderly_def list_all_iff dest: set_update_subset_insert [THEN subsetD])

lemma worker_at: "orderly s \<Longrightarrow> i < length (workers s) \<Longrightarrow> worker_tidy (workers s ! i)"
  by (simp add: orderly_def list_all_length)

lemma act_tidy:
  assumes "worker_tidy (Running m (ins # c))" and "worker_act s m ins = Some m'"
  shows "worker_tidy (Running m' c)"
  using assms by (cases ins) (auto simp: worker_act_def split: if_splits)

lemma stopper_tidy:
  assumes "tidy (stopper_hold s) (ins # c)" and "stopper_act ins s = Some s'"
  shows "tidy (stopper_hold s') c"
  using assms by (cases ins) (auto split: if_splits)

lemma orderly_step:
  assumes "stop_step turns s s'" and "orderly s"
  shows "orderly s'"
  using assms(1)
proof cases
  case (turn i c)
  then have "worker_tidy (Running Free c)" by (simp add: turns_tidy turns_code)
  then show ?thesis unfolding turn(1) by (rule orderly_update [OF assms(2)])
next
  case (finish i)
  show ?thesis unfolding finish(1) by (rule orderly_update [OF assms(2)]) simp
next
  case (break i m c)
  show ?thesis unfolding break(1) by (rule orderly_update [OF assms(2)]) simp
next
  case (act i m ins c m')
  have "worker_tidy (Running m' c)"
    using worker_at [OF assms(2) act(2)] by (intro act_tidy [OF _ act(4)]) (simp only: act(3))
  then show ?thesis unfolding act(1) by (rule orderly_update [OF assms(2)])
next
  case (throws i ins c)
  show ?thesis unfolding throws(1) by (rule orderly_update [OF assms(2)]) simp
next
  case (stop ins c s')
  have "tidy (stopper_hold s') c"
    using assms(2) stop(2) by (intro stopper_tidy [OF _ stop(3)]) (simp add: orderly_def)
  then show ?thesis unfolding stop(1) using assms(2) stop(2)
    by (simp add: orderly_def stopper_act_fields [OF stop(3)])
qed

text \<open>A thread that holds the mutex can go on; when none holds it, all that wait for it can.\<close>

lemma worker_moves:
  assumes "orderly s" and "stop_flag s" and "i < length (workers s)" and "workers s ! i = Running m c"
    and "m \<noteq> Free \<or> list_all (\<lambda>h. h = Free) (holds s)"
  shows "\<exists>s'. stop_step turns s s'"
proof -
  from assms have w: "tidy m c" "worker_code c" using worker_at by fastforce+
  have shared: "list_all (\<lambda>h. h = Free) hs \<Longrightarrow> list_all (\<lambda>h. h \<noteq> Exclusive) hs" for hs
    by (auto simp: list_all_iff)
  show ?thesis
  proof (cases c)
    case Nil
    then show ?thesis using assms w stop_step.finish by fastforce
  next
    case (Cons ins d)
    show ?thesis
    proof (cases "ins = Check_stop")
      case True
      then show ?thesis using assms Cons stop_step.break by blast
    next
      case False
      then have "\<exists>m'. worker_act s m ins = Some m'"
        using w Cons assms(5) shared by (cases ins) (auto simp: worker_act_def)
      then show ?thesis using assms Cons stop_step.act by blast
    qed
  qed
qed

lemma stopper_moves:
  assumes "orderly s" and "stopper_code s = ins # c" and "\<And>i. ins \<noteq> Join i"
    and "stopper_hold s \<noteq> Free \<or> list_all (\<lambda>h. h = Free) (holds s)" and "ins \<noteq> Check_stop"
  shows "\<exists>s'. stop_step turns s s'"
proof -
  have shared: "list_all (\<lambda>h. h = Free) hs \<Longrightarrow> list_all (\<lambda>h. h \<noteq> Exclusive) hs" for hs
    by (auto simp: list_all_iff)
  have "\<exists>s'. stopper_act ins s = Some s'"
    using assms shared by (cases ins) (auto simp: orderly_def)
  then show ?thesis using assms(2) stop_step.stop by blast
qed

lemma progress:
  assumes "orderly s" and "stop_flag s" and "\<not> returned s"
  shows "\<exists>s'. stop_step turns s s'"
proof -
  obtain ins c where code: "stopper_code s = ins # c"
    using assms(3) by (cases "stopper_code s") (auto simp: returned_def)
  show ?thesis
  proof (cases "list_all (\<lambda>h. h = Free) (map holding (workers s))")
    case False
    then obtain i m c where "i < length (workers s)" "workers s ! i = Running m c" "m \<noteq> Free"
      by (auto simp: list_all_length) (metis holding.elims)
    then show ?thesis using worker_moves assms(1,2) by blast
  next
    case True
    then have free: "stopper_hold s \<noteq> Free \<or> list_all (\<lambda>h. h = Free) (holds s)"
      by (auto simp: holds_def)
    show ?thesis
    proof (cases ins)
      case (Join i)
      then have i: "i < length (workers s)" "stopper_hold s = Free"
        using assms(1) code by (auto simp: orderly_def)
      show ?thesis
      proof (cases "workers s ! i")
        case (Running m d)
        then show ?thesis using worker_moves [OF assms(1,2) i(1)] free i(2) by blast
      next
        case Ended
        then have "stopper_act ins s = Some s" using Join i by simp
        with code show ?thesis by (blast intro: stop_step.stop)
      qed
    next
      case Check_stop
      then show ?thesis using assms(1) code by (simp add: orderly_def)
    qed (use stopper_moves [OF assms(1) code _ free] in auto)
  qed
qed

lemma start_orderly:
  assumes "list_all (\<lambda>c. tidy Free c \<and> worker_code c) cs"
  shows "orderly (start code n cs)"
  using assms code_tidy caller_code_mono [OF code_caller]
  by (auto simp: orderly_def start_def list_all_iff)

theorem returns_once_set:
  assumes "list_all (\<lambda>c. tidy Free c \<and> worker_code c) cs"
    and "runs_to turns (start code n cs) s" and "stop_flag s"
  shows "inevitably turns s"
proof (rule inevitably_if_progress [where I = "\<lambda>s. orderly s \<and> stop_flag s"])
  from assms(2) have "orderly s"
    by (induction rule: rtranclp_induct) (auto intro: start_orderly [OF assms(1)] orderly_step)
  with assms(3) show "orderly s \<and> stop_flag s" by simp
qed (auto intro: orderly_step stop_flag_stays progress)

end

section \<open>Joining while holding the mutex\<close>

definition locked_stop :: "nat \<Rightarrow> instr list" where
  "locked_stop n = Lock # Set_stop # map Join [0..<n] @ [Unlock]"

locale stop_under_lock = thread_turns +
  fixes n :: nat
begin

fun kept_out :: "threads \<Rightarrow> thread \<Rightarrow> bool" where
  "kept_out s (Running m c) \<longleftrightarrow> worker_code c \<and> (stopper_hold s = Exclusive \<longrightarrow> m = Free)"
| "kept_out s Ended \<longleftrightarrow> True"

definition guarded_workers :: "threads \<Rightarrow> bool" where
  "guarded_workers s \<longleftrightarrow> n \<le> length (workers s) \<and> list_all (kept_out s) (workers s)"

definition joining :: "nat \<Rightarrow> threads \<Rightarrow> bool" where
  "joining k s \<longleftrightarrow> guarded_workers s \<and> stop_flag s \<and> stopper_hold s = Exclusive
     \<and> stopper_code s = map Join [k..<n] @ [Unlock] \<and> k \<le> n"

definition before_flag :: "threads \<Rightarrow> bool" where
  "before_flag s \<longleftrightarrow> guarded_workers s \<and> \<not> stop_flag s
     \<and> (stopper_code s = locked_stop n \<and> stopper_hold s = Free
       \<or> stopper_code s = tl (locked_stop n) \<and> stopper_hold s = Exclusive)"

lemma kept_out_same: "stopper_hold t = stopper_hold s \<Longrightarrow> kept_out t w = kept_out s w"
  by (cases w) simp_all

lemma guarded_update:
  assumes "guarded_workers s" and "kept_out s w"
  shows "guarded_workers (s\<lparr>workers := (workers s)[i := w]\<rparr>)"
proof -
  have "kept_out (s\<lparr>workers := ws\<rparr>) w = kept_out s w" for ws w by (rule kept_out_same) simp
  with assms show ?thesis
    by (auto simp: guarded_workers_def list_all_iff dest: set_update_subset_insert [THEN subsetD])
qed

lemma kept_out_at: "guarded_workers s \<Longrightarrow> i < length (workers s) \<Longrightarrow> kept_out s (workers s ! i)"
  by (simp add: guarded_workers_def list_all_length)

lemma act_kept_out:
  assumes "kept_out s (Running m (ins # c))" and "worker_act s m ins = Some m'"
  shows "kept_out s (Running m' c)"
  using assms by (cases ins) (auto simp: worker_act_def holds_def split: if_splits)

text \<open>A step of a worker leaves the caller as it is; while the caller joins, it does not change who
  is still to lock the mutex.\<close>

lemma step_cases [consumes 2, case_names worker caller]:
  assumes "stop_step turns s s'" and "guarded_workers s"
  obtains ws where "s' = s\<lparr>workers := ws\<rparr>" "guarded_workers s'" "length ws = length (workers s)"
      "stop_flag s \<Longrightarrow> stopper_hold s = Exclusive \<Longrightarrow>
        (\<forall>j < length ws. blocked (ws ! j) = blocked (workers s ! j))"
  | ins c t where "stopper_code s = ins # c" "stopper_act ins s = Some t" "s' = t\<lparr>stopper_code := c\<rparr>"
  using assms(1)
proof cases
  case (turn i c)
  then have "guarded_workers s'" unfolding turn(1)
    by (intro guarded_update [OF assms(2)]) (simp add: turns_code)
  with turn(2-) show ?thesis by (intro that(1) [OF turn(1)]) (simp_all add: nth_list_update)
next
  case (finish i)
  then have "guarded_workers s'" unfolding finish(1) by (intro guarded_update [OF assms(2)]) simp
  with finish(2-) show ?thesis by (intro that(1) [OF finish(1)]) (simp_all add: nth_list_update)
next
  case (break i m c)
  then have "guarded_workers s'" unfolding break(1) by (intro guarded_update [OF assms(2)]) simp
  with break(2-) show ?thesis by (intro that(1) [OF break(1)]) (simp_all add: nth_list_update)
next
  case (act i m ins c m')
  have "kept_out s (Running m (ins # c))" using kept_out_at [OF assms(2) act(2)] act(3) by simp
  note kept = act_kept_out [OF this act(4)]
  have "guarded_workers s'" unfolding act(1) by (rule guarded_update [OF assms(2) kept])
  moreover have "must_lock c = must_lock (ins # c)" if "stop_flag s" "stopper_hold s = Exclusive"
    using act(4) that by (cases ins) (auto simp: worker_act_def holds_def split: if_splits)
  ultimately show ?thesis using act(2-)
    by (intro that(1) [OF act(1)]) (simp_all add: nth_list_update)
next
  case (throws i ins c)
  then have "guarded_workers s'" unfolding throws(1) by (intro guarded_update [OF assms(2)]) simp
  moreover have "stopper_hold s \<noteq> Exclusive" using kept_out_at [OF assms(2) throws(2)] throws(3) by auto
  ultimately show ?thesis using throws(2-)
    by (intro that(1) [OF throws(1)]) simp_all
next
  case (stop ins c t)
  then show ?thesis by (intro that(2))
qed

lemma guarded_locked:
  assumes "guarded_workers s" and "list_all (\<lambda>h. h = Free) (holds s)"
  shows "guarded_workers (s\<lparr>stopper_hold := Exclusive\<rparr>)"
proof -
  have "kept_out (s\<lparr>stopper_hold := Exclusive\<rparr>) w" if "w \<in> set (workers s)" for w
    using assms that by (cases w) (auto simp: guarded_workers_def holds_def list_all_iff)
  then show ?thesis using assms(1) by (simp add: guarded_workers_def list_all_iff)
qed

lemma guarded_same:
  assumes "guarded_workers s" and "workers t = workers s" and "stopper_hold t = stopper_hold s"
  shows "guarded_workers t"
  using assms kept_out_same [OF assms(3)] by (simp add: guarded_workers_def list_all_iff)

lemma locked_stop_tl: "tl (locked_stop n) = Set_stop # map Join [0..<n] @ [Unlock]"
  by (simp add: locked_stop_def)

lemma before_flag_step:
  assumes "before_flag s" and "stop_step turns s s'"
  shows "before_flag s' \<or> joining 0 s'"
proof -
  from assms(1) have g: "guarded_workers s" and f: "\<not> stop_flag s"
    and c: "stopper_code s = locked_stop n \<and> stopper_hold s = Free
       \<or> stopper_code s = tl (locked_stop n) \<and> stopper_hold s = Exclusive"
    by (simp_all add: before_flag_def)
  from assms(2) g show ?thesis
  proof (cases rule: step_cases)
    case (worker ws)
    then show ?thesis using f c by (simp add: before_flag_def)
  next
    case (caller ins d t)
    from c show ?thesis
    proof
      assume a: "stopper_code s = locked_stop n \<and> stopper_hold s = Free"
      with caller have t: "ins = Lock" "d = tl (locked_stop n)" by (simp_all add: locked_stop_def)
      with caller(2) have free: "list_all (\<lambda>h. h = Free) (holds s)"
        and t': "t = s\<lparr>stopper_hold := Exclusive\<rparr>" by (auto split: if_splits)
      from guarded_same [OF guarded_locked [OF g free]] have "guarded_workers s'"
        by (simp add: caller(3) t')
      then show ?thesis using f by (simp add: before_flag_def caller(3) t' t)
    next
      assume a: "stopper_code s = tl (locked_stop n) \<and> stopper_hold s = Exclusive"
      with caller have t: "ins = Set_stop" "d = map Join [0..<n] @ [Unlock]"
        by (simp_all add: locked_stop_tl)
      with caller(2) have t': "t = s\<lparr>stop_flag := True\<rparr>" by simp
      have "guarded_workers s'" by (rule guarded_same [OF g]) (simp_all add: caller(3) t')
      then show ?thesis using a by (simp add: joining_def caller(3) t' t)
    qed
  qed
qed

lemma joining_step:
  assumes "joining k s" and "stop_step turns s s'"
  obtains "joining k s'" "length (workers s') = length (workers s)"
      "\<forall>j < length (workers s). blocked (workers s' ! j) = blocked (workers s ! j)"
  | "k < n" "joining (Suc k) s'" "workers s' = workers s" "workers s ! k = Ended"
  | "k = n" "returned s'"
proof -
  from assms(1) have g: "guarded_workers s" and f: "stop_flag s" "stopper_hold s = Exclusive"
    and c: "stopper_code s = map Join [k..<n] @ [Unlock]" and k: "k \<le> n"
    by (simp_all add: joining_def)
  from assms(2) g show thesis
  proof (cases rule: step_cases)
    case (worker ws)
    show thesis
      by (rule that(1)) (use worker f c k in \<open>simp_all add: joining_def\<close>)
  next
    case (caller ins d t)
    show thesis
    proof (cases "k < n")
      case True
      with caller(1) c have i: "ins = Join k" "d = map Join [Suc k..<n] @ [Unlock]"
        by (simp_all add: upt_conv_Cons)
      with caller(2) have t: "t = s" "workers s ! k = Ended" by (auto split: if_splits)
      have "guarded_workers s'" by (rule guarded_same [OF g]) (simp_all add: caller(3) t)
      then show thesis using True f i t by (intro that(2)) (simp_all add: joining_def caller(3))
    next
      case False
      with caller(1) c k have "k = n" "d = []" by simp_all
      then show thesis by (intro that(3)) (simp_all add: returned_def caller(3))
    qed
  qed
qed

lemma joining_waits: "joining k s \<Longrightarrow> waits s \<longleftrightarrow> (\<exists>i\<in>{k..<n}. blocked (workers s ! i))"
  by (auto simp: joining_def waits_def list_ex_iff)

lemma joining_waits_same:
  assumes "joining k s" and "stop_step turns s s'"
  obtains l where "joining l s'" "waits s' = waits s" | "returned s'" "\<not> waits s"
proof -
  from assms(1) have len: "i < n \<Longrightarrow> i < length (workers s)" for i
    by (auto simp: joining_def guarded_workers_def)
  from assms show thesis
  proof (cases rule: joining_step)
    case 1
    then have "waits s' = waits s" using len assms(1) by (auto simp: joining_waits)
    with 1 that(1) show thesis by blast
  next
    case 2
    then have "(\<exists>i\<in>{k..<n}. blocked (workers s ! i)) = (\<exists>i\<in>{Suc k..<n}. blocked (workers s ! i))"
      by (metis atLeastLessThan_iff blocked.simps(2) le_neq_implies_less less_eq_Suc_le Suc_leD)
    then have "waits s' = waits s"
      by (simp add: joining_waits [OF 2(2)] joining_waits [OF assms(1)] 2(3))
    with 2 that(1) show thesis by blast
  next
    case 3
    with that(2) show thesis by (simp add: joining_waits [OF assms(1)])
  qed
qed

lemma joining_moves:
  assumes "joining k s" and "\<not> waits s"
  shows "\<exists>s'. stop_step turns s s'"
proof -
  from assms(1) have f: "stop_flag s" "stopper_hold s = Exclusive" "guarded_workers s" "k \<le> n"
    and c: "stopper_code s = map Join [k..<n] @ [Unlock]" by (simp_all add: joining_def)
  show ?thesis
  proof (cases "k < n")
    case True
    with f(3) have len: "k < length (workers s)" by (simp add: guarded_workers_def)
    from True assms joining_waits have nb: "\<not> blocked (workers s ! k)" by auto
    from True c have code: "stopper_code s = Join k # map Join [Suc k..<n] @ [Unlock]"
      by (simp add: upt_conv_Cons)
    show ?thesis
    proof (cases "workers s ! k")
      case (Running m d)
      then have "m = Free" "worker_code d" "\<not> must_lock d"
        using kept_out_at [OF f(3) len] f(2) nb by simp_all
      then consider "d = []" | e where "d = Check_stop # e" | e where "d = Unlock # e"
        by (cases d rule: must_lock.cases) auto
      then show ?thesis
      proof cases
        case 1
        then show ?thesis using stop_step.finish [OF len] f(1) Running \<open>m = Free\<close> by blast
      next
        case 2
        then show ?thesis using stop_step.break [OF len] f(1) Running by blast
      next
        case 3
        then have "worker_act s m Unlock = Some Free" by (simp add: worker_act_def)
        then show ?thesis using stop_step.act [OF len] 3 Running by blast
      qed
    next
      case Ended
      then have "stopper_act (Join k) s = Some s" using len by simp
      then show ?thesis using stop_step.stop [OF code] by blast
    qed
  next
    case False
    with c f(4) have "stopper_code s = [Unlock]" by simp
    moreover have "stopper_act Unlock s = Some (s\<lparr>stopper_hold := Free\<rparr>)" by simp
    ultimately show ?thesis using stop_step.stop by blast
  qed
qed

lemma reached_joining:
  assumes "list_all worker_code cs" and "runs_to turns (start (locked_stop n) n cs) s"
  shows "before_flag s \<or> (\<exists>k. joining k s) \<or> returned s"
  using assms(2)
proof (induction rule: rtranclp_induct)
  case base
  have "list_all (kept_out t) (workers (start (locked_stop n) n cs))" for t
    using assms(1) by (auto simp: start_def list_all_iff)
  then show ?case by (simp add: before_flag_def guarded_workers_def start_def)
next
  case (step s t)
  then show ?case
    by (metis before_flag_step joining_waits_same returned_stays)
qed

theorem returns_or_hangs:
  assumes "list_all worker_code cs" and "runs_to turns (start (locked_stop n) n cs) s"
    and "stop_flag s"
  shows "if waits s then (\<forall>s'. runs_to turns s s' \<longrightarrow> \<not> returned s') else inevitably turns s"
proof (cases "returned s")
  case True
  then show ?thesis by (simp add: waits_def returned_def inevitably.now)
next
  case False
  with reached_joining [OF assms(1,2)] assms(3) obtain k where k: "joining k s"
    by (auto simp: before_flag_def)
  have nr: "joining l u \<Longrightarrow> \<not> returned u" for l u by (simp add: joining_def returned_def)
  show ?thesis
  proof (cases "waits s")
    case True
    have "(\<exists>l. joining l u) \<and> waits u" if "runs_to turns s u" for u
      using that by (induction rule: rtranclp_induct) (use k True in blast, metis joining_waits_same)
    then show ?thesis using True nr by auto
  next
    case False
    have "inevitably turns s"
    proof (rule inevitably_if_progress [where I = "\<lambda>s. (\<exists>k. joining k s) \<and> \<not> waits s"])
      show "(\<exists>k. joining k u') \<and> \<not> waits u' \<or> returned u'"
        if "(\<exists>k. joining k u) \<and> \<not> waits u" and "stop_step turns u u'" for u u'
        using that joining_waits_same by metis
    qed (use k False joining_moves in \<open>auto simp: joining_def\<close>)
    then show ?thesis using False by simp
  qed
qed

lemma returns_iff:
  assumes "list_all worker_code cs" and "runs_to turns (start (locked_stop n) n cs) s"
    and "stop_flag s"
  shows "(inevitably turns s \<longleftrightarrow> \<not> waits s)
    \<and> (waits s \<longrightarrow> (\<forall>s'. runs_to turns s s' \<longrightarrow> \<not> returned s'))"
  using returns_or_hangs [OF assms] never_not_inevitably [of turns s] by (auto split: if_splits)

end

text \<open>The run that leads to the caller joining a thread that waits for the mutex: the thread begins
  its turn, and the caller is faster.\<close>

definition stuck :: "nat \<Rightarrow> instr list \<Rightarrow> threads" where
  "stuck n c = \<lparr>stop_flag = True, stopper_hold = Exclusive, stopper_code = map Join [0..<n] @ [Unlock],
     workers = Running Free c # replicate (n - 1) (Running Free [])\<rparr>"

lemma stop_intro:
  assumes "stopper_code s = ins # c" and "stopper_act ins s \<noteq> None"
    and "s' = the (stopper_act ins s)\<lparr>stopper_code := c\<rparr>"
  shows "stop_step turns s s'"
  using stop_step.stop [OF assms(1)] assms(2,3) by auto

lemma reaches_stuck:
  assumes "c \<in> turns 0" and "0 < n"
  shows "runs_to turns (start (locked_stop n) n []) (stuck n c)"
proof -
  let ?s = "start (locked_stop n) n []"
  let ?ws = "Running Free c # replicate (n - 1) (Running Free [])"
  from assms(2) have ws: "workers ?s = Running Free [] # replicate (n - 1) (Running Free [])"
    by (cases n) (simp_all add: start_def)
  have "stop_step turns ?s (?s\<lparr>workers := (workers ?s)[0 := Running Free c]\<rparr>)"
    by (rule stop_step.turn) (use assms ws in \<open>simp_all add: start_def\<close>)
  moreover have "stop_step turns (?s\<lparr>workers := ?ws\<rparr>) (?s\<lparr>workers := ?ws, stopper_hold := Exclusive\<rparr>
      \<lparr>stopper_code := tl (locked_stop n)\<rparr>)"
    by (rule stop_intro [where ins = Lock])
      (simp_all add: start_def locked_stop_def holds_def list_all_iff)
  moreover have "stop_step turns (?s\<lparr>workers := ?ws, stopper_hold := Exclusive\<rparr>
      \<lparr>stopper_code := tl (locked_stop n)\<rparr>) (stuck n c)"
    by (rule stop_intro [where ins = Set_stop])
      (simp_all add: start_def locked_stop_def stuck_def)
  ultimately show ?thesis
    by (simp add: ws)
qed

lemma stuck_waits: "must_lock c \<Longrightarrow> 0 < n \<Longrightarrow> stop_flag (stuck n c) \<and> waits (stuck n c)"
  by (simp add: stuck_def waits_def upt_conv_Cons)

end
