(* ===== verification/Component_Stops.thy ===== *)
theory Component_Stops
  imports Thread_Stop
begin

text \<open>
  The calls that end the background threads of the five components, and the turns of those threads,
  as far as the mutex of the component and the flag are concerned. The parameter of a turn stands
  for what it finds. \<open>close\<close> of the engine joins without the mutex and always returns; the four
  \<open>stop\<close> calls join while holding it and return exactly when no thread that they have still to join
  needs it: their models in the theories of the components take that as an argument.
  The codes are those of a call that finds its component running; otherwise it returns at once.
\<close>

section \<open>The engine\<close>

text \<open>The condition variable and its mutex are left out: the wait ends by its timeout.\<close>

definition lsm_close_code :: "instr list" where
  "lsm_close_code = [Lock, Set_stop, Unlock, Join 0, Lock, Unlock]"

definition lsm_turns :: "nat \<Rightarrow> instr list set" where
  "lsm_turns i = (if i = 0 then {[Check_stop, Lock, Unlock]} else {})"

interpretation lsm_close: stop_discipline lsm_turns lsm_close_code 1
  by unfold_locales (auto simp: lsm_turns_def lsm_close_code_def split: if_splits)

section \<open>The transaction manager\<close>

text \<open>The cleanup aborts expired transactions while it holds the mutex, and \<open>abort_transaction\<close> locks it
  again, which throws. The detector of deadlocks uses only the mutex of the lock manager, which no
  thread keeps.\<close>

definition tm_stop_code :: "instr list" where
  "tm_stop_code = [Lock, Set_stop, Join 0, Join 1, Unlock]"

definition tm_cleanup_turn :: "bool \<Rightarrow> instr list" where
  "tm_cleanup_turn expired = (if expired then [Lock, Lock, Unlock, Unlock] else [Lock, Unlock])"

definition tm_deadlock_turn :: "instr list" where
  "tm_deadlock_turn = []"

definition tm_turns :: "nat \<Rightarrow> instr list set" where
  "tm_turns i = (if i = 0 then range tm_cleanup_turn else if i = 1 then {tm_deadlock_turn} else {})"

section \<open>The time service\<close>

text \<open>\<open>n\<close> nodes, each with a lock of its own for the new sample; \<open>berkeley\<close>: enough of them for the
  Berkeley algorithm. The thread that queries NTP servers locks nothing.\<close>

definition ts_stop_code :: "instr list" where
  "ts_stop_code = [Lock, Set_stop, Join 0, Join 1, Unlock]"

definition ts_sync_turn :: "nat \<Rightarrow> bool \<Rightarrow> instr list" where
  "ts_sync_turn n berkeley = [Lock_shared, Unlock] @ concat (replicate n [Lock, Unlock])
     @ (if berkeley then [Lock_shared, Unlock] else []) @ [Lock_shared, Unlock] @ [Lock, Unlock]"

definition ts_turns :: "nat \<Rightarrow> instr list set" where
  "ts_turns i = (if i = 0 then {ts_sync_turn n b | n b. True} else if i = 1 then {[]} else {})"

section \<open>The hotspot manager\<close>

text \<open>Each hotspot found, and each one that has cooled down, is reported by \<open>add_event\<close> while the thread
  holds the mutex, which throws; each strategy that succeeds is reported by it without the mutex.\<close>

definition hm_stop_code :: "instr list" where
  "hm_stop_code = [Lock, Set_stop, Join 0, Join 1, Join 2, Unlock]"

definition hm_detection_turn :: "bool \<Rightarrow> instr list" where
  "hm_detection_turn found = [Lock_shared, Unlock]
     @ (if found then [Lock, Lock, Unlock, Unlock] else [Lock, Unlock])"

definition hm_handling_turn :: "nat \<Rightarrow> instr list" where
  "hm_handling_turn n = [Lock_shared, Unlock] @ concat (replicate n [Lock, Unlock])"

definition hm_cleanup_turn :: "bool \<Rightarrow> instr list" where
  "hm_cleanup_turn cooled = (if cooled then [Lock, Lock, Unlock, Unlock] else [Lock, Unlock])"

definition hm_turns :: "nat \<Rightarrow> instr list set" where
  "hm_turns i = (if i = 0 then range hm_detection_turn else if i = 1 then range hm_handling_turn
     else if i = 2 then range hm_cleanup_turn else {})"

section \<open>The split brain detector\<close>

text \<open>Only the isolation of the \<open>n\<close> nodes without quorum locks the mutex.\<close>

definition sb_stop_code :: "instr list" where
  "sb_stop_code = [Lock, Set_stop, Join 0, Join 1, Unlock]"

definition sb_detection_turn :: "nat \<Rightarrow> instr list" where
  "sb_detection_turn n = concat (replicate n [Lock, Unlock])"

definition sb_turns :: "nat \<Rightarrow> instr list set" where
  "sb_turns i = (if i = 0 then range sb_detection_turn else if i = 1 then {[]} else {})"

section \<open>The four calls that join under the mutex\<close>

lemma stop_codes:
  "tm_stop_code = locked_stop 2" "ts_stop_code = locked_stop 2" "sb_stop_code = locked_stop 2"
  "hm_stop_code = locked_stop 3"
  by (simp_all add: tm_stop_code_def ts_stop_code_def sb_stop_code_def hm_stop_code_def
      locked_stop_def numeral_2_eq_2 numeral_3_eq_3)

interpretation tms: stop_under_lock tm_turns 2
  by unfold_locales
    (auto simp: tm_turns_def tm_cleanup_turn_def tm_deadlock_turn_def split: if_splits)

interpretation tss: stop_under_lock ts_turns 2
  by unfold_locales (auto simp: ts_turns_def ts_sync_turn_def split: if_splits)

interpretation hms: stop_under_lock hm_turns 3
  by unfold_locales (auto simp: hm_turns_def hm_detection_turn_def hm_handling_turn_def
      hm_cleanup_turn_def split: if_splits)

interpretation sbs: stop_under_lock sb_turns 2
  by unfold_locales (auto simp: sb_turns_def sb_detection_turn_def split: if_splits)

definition stop_systems :: "((nat \<Rightarrow> instr list set) \<times> instr list \<times> nat) list" where
  "stop_systems = [(tm_turns, tm_stop_code, 2), (ts_turns, ts_stop_code, 2),
     (hm_turns, hm_stop_code, 3), (sb_turns, sb_stop_code, 2)]"

lemma stop_systems_cases:
  assumes "(turns, code, n) \<in> set stop_systems"
  shows "stop_under_lock turns \<and> code = locked_stop n"
  using assms tms.stop_under_lock_axioms tss.stop_under_lock_axioms hms.stop_under_lock_axioms
    sbs.stop_under_lock_axioms
  by (auto simp: stop_systems_def stop_codes)

lemma first_turns:
  "[Lock, Unlock] \<in> tm_turns 0" "ts_sync_turn 0 False \<in> ts_turns 0"
  "hm_detection_turn False \<in> hm_turns 0" "[Lock, Unlock] \<in> sb_turns 0"
proof -
  have "tm_cleanup_turn False = [Lock, Unlock]" by (simp add: tm_cleanup_turn_def)
  then show "[Lock, Unlock] \<in> tm_turns 0" by (metis rangeI tm_turns_def)
  have "sb_detection_turn 1 = [Lock, Unlock]" by (simp add: sb_detection_turn_def)
  then show "[Lock, Unlock] \<in> sb_turns 0" by (metis rangeI sb_turns_def)
qed (auto simp: ts_turns_def hm_turns_def)

section \<open>Properties\<close>

text \<open>C16: once \<open>close\<close> of the engine has set its flag, it returns in whatever order the background
  thread, the caller and any number of other calls are scheduled, provided that these calls pair their locks
  and do not nest them.\<close>

theorem close_returns:
  assumes "list_all (\<lambda>c. tidy Free c \<and> worker_code c) cs"
    and "runs_to lsm_turns (start lsm_close_code 1 cs) s" and "stop_flag s"
  shows "inevitably lsm_turns s"
  using assms by (rule lsm_close.returns_once_set)

text \<open>C24: once a \<open>stop\<close> that joins under the mutex has set its flag, there are two cases. If no
  thread that it has still to join must lock the mutex before it looks at the flag, the
  call returns in whatever order the threads are scheduled; otherwise it never returns.\<close>

theorem stop_returns_iff:
  assumes "(turns, code, n) \<in> set stop_systems" and "list_all worker_code cs"
    and "runs_to turns (start code n cs) s" and "stop_flag s"
  shows "(inevitably turns s \<longleftrightarrow> \<not> waits s)
    \<and> (waits s \<longrightarrow> (\<forall>s'. runs_to turns s s' \<longrightarrow> \<not> returned s'))"
  using stop_under_lock.returns_iff [OF _ assms(2) _ assms(4)] stop_systems_cases [OF assms(1)] assms(3)
  by blast

text \<open>The background thread of the engine has begun a turn and waits for the mutex when \<open>close\<close> sets the
  flag, beside a call in progress.\<close>

definition demo_closing :: threads where
  "demo_closing = \<lparr>stop_flag = True, stopper_hold = Exclusive, stopper_code = [Unlock, Join 0, Lock, Unlock],
     workers = [Running Free [Lock, Unlock], Running Free [Lock_shared, Unlock]]\<rparr>"

lemma demo_closing_reached:
  "runs_to lsm_turns (start lsm_close_code 1 [[Lock_shared, Unlock]]) demo_closing"
proof -
  let ?s = "start lsm_close_code 1 [[Lock_shared, Unlock]]"
  let ?w = "\<lambda>c. ?s\<lparr>workers := [Running Free c, Running Free [Lock_shared, Unlock]]\<rparr>"
  let ?t = "?w [Lock, Unlock]\<lparr>stopper_hold := Exclusive, stopper_code := tl lsm_close_code\<rparr>"
  have "stop_step lsm_turns ?s (?w [Check_stop, Lock, Unlock])"
    using stop_step.turn [of 0 ?s "[Check_stop, Lock, Unlock]" lsm_turns]
    by (simp add: start_def lsm_turns_def)
  moreover have "stop_step lsm_turns (?w [Check_stop, Lock, Unlock]) (?w [Lock, Unlock])"
    using stop_step.act [of 0 "?w [Check_stop, Lock, Unlock]" Free Check_stop "[Lock, Unlock]" Free]
    by (simp add: start_def worker_act_def)
  moreover have "stop_step lsm_turns (?w [Lock, Unlock]) ?t"
    by (rule stop_intro [where ins = Lock])
      (simp_all add: start_def lsm_close_code_def holds_def)
  moreover have "stop_step lsm_turns ?t demo_closing"
    by (rule stop_intro [where ins = Set_stop])
      (simp_all add: start_def lsm_close_code_def demo_closing_def)
  ultimately show ?thesis by (meson rtranclp.rtrancl_into_rtrancl rtranclp.rtrancl_refl)
qed

theorem close_returns_witness: "inevitably lsm_turns demo_closing"
  by (rule close_returns [OF _ demo_closing_reached]) (simp_all add: demo_closing_def)

theorem stop_returns_iff_witness:
  "(\<exists>s. runs_to tm_turns (start tm_stop_code 2 []) s \<and> \<not> inevitably tm_turns s)
    \<and> (\<exists>s. runs_to ts_turns (start ts_stop_code 2 []) s \<and> \<not> inevitably ts_turns s)
    \<and> (\<exists>s. runs_to hm_turns (start hm_stop_code 3 []) s \<and> \<not> inevitably hm_turns s)
    \<and> (\<exists>s. runs_to sb_turns (start sb_stop_code 2 []) s \<and> \<not> inevitably sb_turns s)"
proof -
  have hang: "\<exists>s. runs_to turns (start code n []) s \<and> \<not> inevitably turns s"
    if sys: "(turns, code, n) \<in> set stop_systems" and c: "c \<in> turns 0" "must_lock c" "0 < n"
    for turns code n c
  proof -
    have run: "runs_to turns (start code n []) (stuck n c)"
      using reaches_stuck [of c turns n] stop_systems_cases [OF sys] c(1,3) by simp
    then show ?thesis
      using stop_returns_iff [OF sys _ run] stuck_waits [OF c(2,3)] by auto
  qed
  show ?thesis
    using hang [where turns = tm_turns and code = tm_stop_code and n = 2, OF _ first_turns(1)]
      hang [where turns = ts_turns and code = ts_stop_code and n = 2, OF _ first_turns(2)]
      hang [where turns = hm_turns and code = hm_stop_code and n = 3, OF _ first_turns(3)]
      hang [where turns = sb_turns and code = sb_stop_code and n = 2, OF _ first_turns(4)]
    by (simp add: stop_systems_def ts_sync_turn_def hm_detection_turn_def)
qed

end
