(* ===== verification/Declared_Types.thy ===== *)
theory Declared_Types
  imports Complex_Main Common_Types
begin

text \<open>
  The data of the parts that the repository declares and does not implement: Raft, shards, cluster
  membership, authentication, monitoring and the network service. Their classes have no method
  bodies; what there is to model are the structures with the constructors and the small methods
  the headers define, and with them the hash of a key, which the standard containers use. A
  structure that inherits from another extends its record. A \<open>time_point\<close> that a constructor leaves
  alone is the epoch.
\<close>

section \<open>Keys and operations: \<open>common/types.h\<close>\<close>

datatype operation_type = GET | PUT | DELETE | RANGE_SCAN | MULTI_GET | MULTI_PUT

text \<open>\<open>std::hash\<close> on strings belongs to the standard library and is left open: any function of strings.\<close>

definition MultiLevelKeyHash :: "(string \<Rightarrow> u64) \<Rightarrow> multi_level_key \<Rightarrow> u64" where
  "MultiLevelKeyHash std_hash key =
     (let h1 = std_hash (primary_key key); h2 = std_hash (secondary_key key)
      in h1 XOR push_bit 1 h2)"

text \<open>Keys with the same secondary key collide exactly when the hashes of their primary keys do; of
  the secondary hash the shift loses the top bit.\<close>

lemma xor_right_cancel: "x XOR z = y XOR z \<longleftrightarrow> x = (y :: u64)"
proof
  assume "x XOR z = y XOR z"
  then have "(x XOR z) XOR z = (y XOR z) XOR z" by (rule arg_cong)
  then show "x = y" by (simp add: xor.assoc)
qed simp

lemma push_bit_1_eq: "push_bit 1 x = push_bit 1 y \<longleftrightarrow> take_bit 63 x = take_bit 63 (y :: u64)"
proof -
  have "push_bit 1 x = push_bit 1 y \<longleftrightarrow> (\<forall>n < 63. bit x n = bit y n)"
  proof
    assume eq: "push_bit 1 x = push_bit 1 y"
    have "bit x n = bit y n" if "n < 63" for n
    proof -
      have "bit (push_bit 1 x) (Suc n) = bit (push_bit 1 y) (Suc n)" by (simp only: eq)
      with that show ?thesis by (simp only: bit_push_bit_iff) simp
    qed
    then show "\<forall>n < 63. bit x n = bit y n" by blast
  next
    assume "\<forall>n < 63. bit x n = bit y n"
    then show "push_bit 1 x = push_bit 1 y"
      by (intro bit_word_eqI) (simp only: bit_push_bit_iff, auto)
  qed
  also have "\<dots> \<longleftrightarrow> take_bit 63 x = take_bit 63 y"
  proof
    assume "\<forall>n < 63. bit x n = bit y n"
    then show "take_bit 63 x = take_bit 63 y"
      by (intro bit_word_eqI) (auto simp: bit_take_bit_iff)
  next
    assume eq: "take_bit 63 x = take_bit 63 y"
    have "bit x n = bit y n" if "n < 63" for n
    proof -
      have "bit (take_bit 63 x) n = bit (take_bit 63 y) n" by (simp only: eq)
      with that show ?thesis by (simp only: bit_take_bit_iff simp_thms)
    qed
    then show "\<forall>n < 63. bit x n = bit y n" by blast
  qed
  finally show ?thesis .
qed

lemma hash_primary:
  "MultiLevelKeyHash h (MultiLevelKey a s) = MultiLevelKeyHash h (MultiLevelKey b s) \<longleftrightarrow> h a = h b"
  by (simp add: MultiLevelKeyHash_def xor_right_cancel)

lemma hash_secondary:
  "MultiLevelKeyHash h (MultiLevelKey a s) = MultiLevelKeyHash h (MultiLevelKey a t)
   \<longleftrightarrow> take_bit 63 (h s) = take_bit 63 (h t)"
  by (simp only: MultiLevelKeyHash_def Let_def multi_level_key.sel xor.commute [of "h a"]
      xor_right_cancel push_bit_1_eq)

definition DEFAULT_SHARD_COUNT :: u64 where "DEFAULT_SHARD_COUNT = 1024"
definition DEFAULT_REPLICATION_FACTOR :: u64 where "DEFAULT_REPLICATION_FACTOR = 3"
definition DEFAULT_HEARTBEAT_INTERVAL_MS :: u32 where "DEFAULT_HEARTBEAT_INTERVAL_MS = 1000"
definition DEFAULT_ELECTION_TIMEOUT_MS :: u32 where "DEFAULT_ELECTION_TIMEOUT_MS = 5000"
definition DEFAULT_REQUEST_TIMEOUT_MS :: u32 where "DEFAULT_REQUEST_TIMEOUT_MS = 100"
definition WAL_SYNC_INTERVAL_MS :: u32 where "WAL_SYNC_INTERVAL_MS = 100"

section \<open>Raft: \<open>cluster/raft.h\<close>\<close>

datatype raft_state = FOLLOWER | CANDIDATE | LEADER

record log_entry =
  le_term :: u64
  le_index :: u64
  le_command :: string
  le_timestamp :: time_point

definition LogEntry_default :: log_entry where
  "LogEntry_default = \<lparr>le_term = 0, le_index = 0, le_command = [], le_timestamp = 0\<rparr>"

definition LogEntry :: "time_point \<Rightarrow> u64 \<Rightarrow> u64 \<Rightarrow> string \<Rightarrow> log_entry" where
  "LogEntry now t i cmd = \<lparr>le_term = t, le_index = i, le_command = cmd, le_timestamp = now\<rparr>"

record vote_request =
  vq_term :: u64
  vq_candidate_id :: node_id
  vq_last_log_index :: u64
  vq_last_log_term :: u64

record vote_response =
  vr_term :: u64
  vr_vote_granted :: bool

record append_entries_request =
  aq_term :: u64
  aq_leader_id :: node_id
  aq_prev_log_index :: u64
  aq_prev_log_term :: u64
  aq_entries :: "log_entry list"
  aq_leader_commit :: u64

record append_entries_response =
  ar_term :: u64
  ar_success :: bool
  ar_match_index :: u64

record raft_config =
  rc_node_id :: node_id
  rc_cluster_members :: "node_id list"
  rc_election_timeout_min_ms :: u32
  rc_election_timeout_max_ms :: u32
  rc_heartbeat_interval_ms :: u32
  rc_log_directory :: string
  rc_max_log_entries :: u64

definition RaftConfig :: raft_config where
  "RaftConfig = \<lparr>rc_node_id = [], rc_cluster_members = [], rc_election_timeout_min_ms = 150,
     rc_election_timeout_max_ms = 300, rc_heartbeat_interval_ms = 50, rc_log_directory = [],
     rc_max_log_entries = 10000\<rparr>"

section \<open>Shards: \<open>cluster/shard_manager.h\<close>\<close>

type_synonym shard_id = u32

record shard_info =
  si_shard_id :: shard_id
  si_replicas :: "node_id list"
  si_primary :: node_id
  si_data_size :: u64
  si_key_count :: u64
  si_last_updated :: time_point

definition ShardInfo_default :: shard_info where
  "ShardInfo_default = \<lparr>si_shard_id = 0, si_replicas = [], si_primary = [], si_data_size = 0,
     si_key_count = 0, si_last_updated = 0\<rparr>"

definition ShardInfo :: "time_point \<Rightarrow> shard_id \<Rightarrow> shard_info" where
  "ShardInfo now i = ShardInfo_default\<lparr>si_shard_id := i, si_last_updated := now\<rparr>"

definition has_replica :: "node_id \<Rightarrow> shard_info \<Rightarrow> bool" where
  "has_replica node s = (List.find (\<lambda>r. r = node) (si_replicas s) \<noteq> None)"

definition is_primary :: "node_id \<Rightarrow> shard_info \<Rightarrow> bool" where
  "is_primary node s = (si_primary s = node)"

lemma has_replica_iff: "has_replica node s \<longleftrightarrow> node \<in> set (si_replicas s)"
  by (auto simp: has_replica_def find_None_iff)

record migration_task =
  mig_shard_id :: shard_id
  mig_source_node :: node_id
  mig_target_node :: node_id
  mig_total_keys :: u64
  mig_migrated_keys :: u64
  mig_start_time :: time_point
  mig_completed :: bool

definition MigrationTask_default :: migration_task where
  "MigrationTask_default = \<lparr>mig_shard_id = 0, mig_source_node = [], mig_target_node = [],
     mig_total_keys = 0, mig_migrated_keys = 0, mig_start_time = 0, mig_completed = False\<rparr>"

definition MigrationTask :: "time_point \<Rightarrow> shard_id \<Rightarrow> node_id \<Rightarrow> node_id \<Rightarrow> migration_task" where
  "MigrationTask now i src dst = MigrationTask_default\<lparr>mig_shard_id := i, mig_source_node := src,
     mig_target_node := dst, mig_start_time := now\<rparr>"

definition migration_progress :: "migration_task \<Rightarrow> real" where
  "migration_progress t =
     (if mig_total_keys t > 0 then real (unat (mig_migrated_keys t)) / real (unat (mig_total_keys t)) else 0)"

lemma migration_progress_bounds:
  assumes "mig_migrated_keys t \<le> mig_total_keys t"
  shows "0 \<le> migration_progress t \<and> migration_progress t \<le> 1"
proof -
  have le: "real (unat (mig_migrated_keys t)) \<le> real (unat (mig_total_keys t))"
    using assms by (simp only: word_le_nat_alt of_nat_le_iff)
  have "0 \<le> a / b \<and> a / b \<le> 1" if "0 \<le> a" "a \<le> b" for a b :: real
    using that by (cases "b = 0") (simp_all add: divide_le_eq_1)
  from this [OF of_nat_0_le_iff le] show ?thesis by (simp add: migration_progress_def)
qed

section \<open>Membership: \<open>cluster/cluster_manager.h\<close>\<close>

record node_info =
  ni_node_id :: node_id
  ni_address :: string
  ni_port :: u16
  ni_last_heartbeat :: time_point
  ni_is_alive :: bool
  ni_shards :: "shard_id list"

definition NodeInfo_default :: node_info where
  "NodeInfo_default = \<lparr>ni_node_id = [], ni_address = [], ni_port = 0, ni_last_heartbeat = 0,
     ni_is_alive = False, ni_shards = []\<rparr>"

definition NodeInfo :: "time_point \<Rightarrow> node_id \<Rightarrow> string \<Rightarrow> u16 \<Rightarrow> node_info" where
  "NodeInfo now i addr p = \<lparr>ni_node_id = i, ni_address = addr, ni_port = p, ni_last_heartbeat = now,
     ni_is_alive = True, ni_shards = []\<rparr>"

definition endpoint :: "node_info \<Rightarrow> string" where
  "endpoint n = ni_address n @ '':'' @ to_string (unat (ni_port n))"

datatype membership_event_type =
    NODE_JOINED | NODE_LEFT | NODE_FAILED | SHARD_MOVED | REBALANCE_STARTED | REBALANCE_COMPLETED

record membership_event =
  me_type :: membership_event_type
  me_node_id :: node_id
  me_timestamp :: time_point
  me_details :: string

definition MembershipEvent ::
    "time_point \<Rightarrow> membership_event_type \<Rightarrow> node_id \<Rightarrow> string \<Rightarrow> membership_event" where
  "MembershipEvent now t i d = \<lparr>me_type = t, me_node_id = i, me_timestamp = now, me_details = d\<rparr>"

section \<open>Authentication: \<open>security/auth_manager.h\<close>\<close>

datatype permission = PERM_READ | PERM_WRITE | PERM_DELETE | PERM_ADMIN | PERM_STATS

record user =
  usr_user_id :: string
  usr_username :: string
  usr_password_hash :: string
  usr_permissions :: "permission list"
  usr_created_at :: time_point
  usr_last_login :: time_point
  usr_is_active :: bool

definition User :: "time_point \<Rightarrow> user" where
  "User now = \<lparr>usr_user_id = [], usr_username = [], usr_password_hash = [], usr_permissions = [],
     usr_created_at = now, usr_last_login = 0, usr_is_active = True\<rparr>"

definition has_permission :: "permission \<Rightarrow> user \<Rightarrow> bool" where
  "has_permission p u = (p \<in> set (usr_permissions u))"

record auth_token =
  tok_token :: string
  tok_user_id :: string
  tok_issued_at :: time_point
  tok_expires_at :: time_point
  tok_is_valid :: bool

definition AuthToken :: auth_token where
  "AuthToken = \<lparr>tok_token = [], tok_user_id = [], tok_issued_at = 0, tok_expires_at = 0, tok_is_valid = False\<rparr>"

definition token_is_expired :: "time_point \<Rightarrow> auth_token \<Rightarrow> bool" where
  "token_is_expired now t = (now > tok_expires_at t)"

record acl_entry =
  acl_resource_pattern :: string
  acl_user_id :: string
  acl_permissions :: "permission list"
  acl_created_at :: time_point

definition ACLEntry :: "time_point \<Rightarrow> acl_entry" where
  "ACLEntry now = \<lparr>acl_resource_pattern = [], acl_user_id = [], acl_permissions = [], acl_created_at = now\<rparr>"

record auth_result =
  auth_success :: bool
  auth_user_id :: string
  auth_permissions :: "permission list"
  auth_error_message :: string

definition AuthResult_default :: auth_result where
  "AuthResult_default = \<lparr>auth_success = False, auth_user_id = [], auth_permissions = [], auth_error_message = []\<rparr>"

definition AuthResult :: "bool \<Rightarrow> string \<Rightarrow> permission list \<Rightarrow> auth_result" where
  "AuthResult s uid perms =
     \<lparr>auth_success = s, auth_user_id = uid, auth_permissions = perms, auth_error_message = []\<rparr>"

end
