(* ===== verification/Declared_Messages.thy ===== *)
theory Declared_Messages
  imports Declared_Types
begin

text \<open>
  The data of the monitoring and of the network service (\<open>monitoring/monitor.h\<close>,
  \<open>network/cache_service.h\<close>), which the repository declares without an implementation. Requests
  and responses extend \<open>CacheRequest\<close> and \<open>CacheResponse\<close> as their structures do.
\<close>

section \<open>Monitoring\<close>

datatype metric_type = COUNTER | GAUGE | HISTOGRAM | TIMER

record metric_point =
  mp_name :: string
  mp_type :: metric_type
  mp_value :: real
  mp_timestamp :: time_point
  mp_tags :: "(string \<times> string) list"

definition MetricPoint_default :: "time_point \<Rightarrow> metric_point" where
  "MetricPoint_default now = \<lparr>mp_name = [], mp_type = GAUGE, mp_value = 0, mp_timestamp = now, mp_tags = []\<rparr>"

definition MetricPoint :: "time_point \<Rightarrow> string \<Rightarrow> metric_type \<Rightarrow> real \<Rightarrow> metric_point" where
  "MetricPoint now n t v = \<lparr>mp_name = n, mp_type = t, mp_value = v, mp_timestamp = now, mp_tags = []\<rparr>"

record hot_key =
  hk_key :: multi_level_key
  hk_access_count :: u64
  hk_read_count :: u64
  hk_write_count :: u64
  hk_access_rate :: real
  hk_first_seen :: time_point
  hk_last_access :: time_point

definition HotKey_default :: hot_key where
  "HotKey_default = \<lparr>hk_key = MultiLevelKey [] [], hk_access_count = 0, hk_read_count = 0,
     hk_write_count = 0, hk_access_rate = 0, hk_first_seen = 0, hk_last_access = 0\<rparr>"

definition HotKey :: "time_point \<Rightarrow> multi_level_key \<Rightarrow> hot_key" where
  "HotKey now k = HotKey_default\<lparr>hk_key := k, hk_first_seen := now, hk_last_access := now\<rparr>"

record resource_metrics =
  rm_cpu_usage_percent :: real
  rm_memory_used_bytes :: u64
  rm_memory_total_bytes :: u64
  rm_disk_used_bytes :: u64
  rm_disk_total_bytes :: u64
  rm_network_in_bytes :: u64
  rm_network_out_bytes :: u64
  rm_timestamp :: time_point

definition ResourceMetrics :: "time_point \<Rightarrow> resource_metrics" where
  "ResourceMetrics now = \<lparr>rm_cpu_usage_percent = 0, rm_memory_used_bytes = 0,
     rm_memory_total_bytes = 0, rm_disk_used_bytes = 0, rm_disk_total_bytes = 0,
     rm_network_in_bytes = 0, rm_network_out_bytes = 0, rm_timestamp = now\<rparr>"

record cache_metrics =
  cm_total_requests :: u64
  cm_successful_requests :: u64
  cm_failed_requests :: u64
  cm_cache_hits :: u64
  cm_cache_misses :: u64
  cm_hit_ratio :: real
  cm_average_latency_ms :: real
  cm_p99_latency_ms :: real
  cm_keys_count :: u64
  cm_memory_usage_bytes :: u64
  cm_timestamp :: time_point

definition CacheMetrics :: "time_point \<Rightarrow> cache_metrics" where
  "CacheMetrics now = \<lparr>cm_total_requests = 0, cm_successful_requests = 0, cm_failed_requests = 0,
     cm_cache_hits = 0, cm_cache_misses = 0, cm_hit_ratio = 0, cm_average_latency_ms = 0,
     cm_p99_latency_ms = 0, cm_keys_count = 0, cm_memory_usage_bytes = 0, cm_timestamp = now\<rparr>"

record cluster_metrics =
  clm_cluster_size :: u64
  clm_healthy_nodes :: u64
  clm_failed_nodes :: u64
  clm_is_leader :: bool
  clm_load_balance_factor :: real
  clm_active_migrations :: u64
  clm_rebalance_progress :: real
  clm_timestamp :: time_point

definition ClusterMetrics :: "time_point \<Rightarrow> cluster_metrics" where
  "ClusterMetrics now = \<lparr>clm_cluster_size = 0, clm_healthy_nodes = 0, clm_failed_nodes = 0,
     clm_is_leader = False, clm_load_balance_factor = 1, clm_active_migrations = 0,
     clm_rebalance_progress = 0, clm_timestamp = now\<rparr>"

datatype alert_level = ALERT_INFO | ALERT_WARNING | ALERT_ERROR | ALERT_CRITICAL

record alert =
  al_id :: string
  al_level :: alert_level
  al_title :: string
  al_description :: string
  al_source :: string
  al_triggered_at :: time_point
  al_acknowledged :: bool

definition Alert_default :: "time_point \<Rightarrow> alert" where
  "Alert_default now = \<lparr>al_id = [], al_level = ALERT_INFO, al_title = [], al_description = [],
     al_source = [], al_triggered_at = now, al_acknowledged = False\<rparr>"

text \<open>\<open>generate_alert_id\<close> is declared and not defined: the identifier is an argument.\<close>

definition Alert :: "string \<Rightarrow> time_point \<Rightarrow> alert_level \<Rightarrow> string \<Rightarrow> string \<Rightarrow> string \<Rightarrow> alert" where
  "Alert new_id now lvl t desc src = \<lparr>al_id = new_id, al_level = lvl, al_title = t,
     al_description = desc, al_source = src, al_triggered_at = now, al_acknowledged = False\<rparr>"

section \<open>The network service\<close>

datatype request_type =
    REQ_GET | REQ_PUT | REQ_DELETE | REQ_RANGE_SCAN | REQ_MULTI_GET | REQ_MULTI_PUT | REQ_PING | REQ_STATS

record cache_request =
  rq_type :: request_type
  rq_request_id :: string
  rq_client_id :: string
  rq_auth_token :: string
  rq_timestamp :: time_point

definition CacheRequest :: "time_point \<Rightarrow> cache_request" where
  "CacheRequest now = \<lparr>rq_type = REQ_PING, rq_request_id = [], rq_client_id = [], rq_auth_token = [],
     rq_timestamp = now\<rparr>"

record cache_response =
  rs_status :: status
  rs_request_id :: string
  rs_error_message :: string
  rs_timestamp :: time_point
  rs_latency_ms :: u32

definition CacheResponse :: "time_point \<Rightarrow> cache_response" where
  "CacheResponse now = \<lparr>rs_status = OK, rs_request_id = [], rs_error_message = [], rs_timestamp = now,
     rs_latency_ms = 0\<rparr>"

record get_request = cache_request +
  gq_key :: multi_level_key

definition GetRequest :: "time_point \<Rightarrow> get_request" where
  "GetRequest now = cache_request.extend ((CacheRequest now)\<lparr>rq_type := REQ_GET\<rparr>)
     (get_request.fields (MultiLevelKey [] []))"

record get_response = cache_response +
  gs_data :: data_entry
  gs_found :: bool

definition GetResponse :: "time_point \<Rightarrow> get_response" where
  "GetResponse now = cache_response.extend (CacheResponse now)
     (get_response.fields (DataEntry_default now) False)"

record put_request = cache_request +
  pq_key :: multi_level_key
  pq_data :: data_entry
  pq_require_version_match :: bool
  pq_expected_version :: u64

definition PutRequest :: "time_point \<Rightarrow> put_request" where
  "PutRequest now = cache_request.extend ((CacheRequest now)\<lparr>rq_type := REQ_PUT\<rparr>)
     (put_request.fields (MultiLevelKey [] []) (DataEntry_default now) False 0)"

record put_response = cache_response +
  ps_new_version :: u64

definition PutResponse :: "time_point \<Rightarrow> put_response" where
  "PutResponse now = cache_response.extend (CacheResponse now) (put_response.fields 0)"

record delete_request = cache_request +
  dq_key :: multi_level_key
  dq_require_version_match :: bool
  dq_expected_version :: u64

definition DeleteRequest :: "time_point \<Rightarrow> delete_request" where
  "DeleteRequest now = cache_request.extend ((CacheRequest now)\<lparr>rq_type := REQ_DELETE\<rparr>)
     (delete_request.fields (MultiLevelKey [] []) False 0)"

record delete_response = cache_response +
  ds_deleted :: bool

definition DeleteResponse :: "time_point \<Rightarrow> delete_response" where
  "DeleteResponse now = cache_response.extend (CacheResponse now) (delete_response.fields False)"

record range_scan_request = cache_request +
  sq_query :: range_query

definition RangeScanRequest :: "time_point \<Rightarrow> range_scan_request" where
  "RangeScanRequest now = cache_request.extend ((CacheRequest now)\<lparr>rq_type := REQ_RANGE_SCAN\<rparr>)
     (range_scan_request.fields RangeQuery_default)"

record range_scan_response = cache_response +
  ss_results :: "(multi_level_key \<times> data_entry) list"
  ss_has_more :: bool

definition RangeScanResponse :: "time_point \<Rightarrow> range_scan_response" where
  "RangeScanResponse now = cache_response.extend (CacheResponse now) (range_scan_response.fields [] False)"

record multi_get_request = cache_request +
  mgq_keys :: "multi_level_key list"

definition MultiGetRequest :: "time_point \<Rightarrow> multi_get_request" where
  "MultiGetRequest now = cache_request.extend ((CacheRequest now)\<lparr>rq_type := REQ_MULTI_GET\<rparr>)
     (multi_get_request.fields [])"

record multi_get_response = cache_response +
  mgs_results :: "(multi_level_key \<times> data_entry) list"
  mgs_not_found_keys :: "multi_level_key list"

record multi_put_request = cache_request +
  mpq_entries :: "(multi_level_key \<times> data_entry) list"
  mpq_atomic :: bool

definition MultiPutRequest :: "time_point \<Rightarrow> multi_put_request" where
  "MultiPutRequest now = cache_request.extend ((CacheRequest now)\<lparr>rq_type := REQ_MULTI_PUT\<rparr>)
     (multi_put_request.fields [] False)"

record multi_put_response = cache_response +
  mps_new_versions :: "u64 list"
  mps_failed_keys :: "multi_level_key list"

record stats_request = cache_request +
  stq_include_cluster_stats :: bool
  stq_include_shard_stats :: bool

definition StatsRequest :: "time_point \<Rightarrow> stats_request" where
  "StatsRequest now = cache_request.extend ((CacheRequest now)\<lparr>rq_type := REQ_STATS\<rparr>)
     (stats_request.fields False False)"

record stats_response = cache_response +
  sts_stats :: "(string \<times> string) list"

text \<open>Every request is built with its own type.\<close>

lemma request_types:
  "map rq_type [cache_request.truncate (GetRequest now), cache_request.truncate (PutRequest now),
     cache_request.truncate (DeleteRequest now), cache_request.truncate (RangeScanRequest now),
     cache_request.truncate (MultiGetRequest now), cache_request.truncate (MultiPutRequest now),
     CacheRequest now, cache_request.truncate (StatsRequest now)]
   = [REQ_GET, REQ_PUT, REQ_DELETE, REQ_RANGE_SCAN, REQ_MULTI_GET, REQ_MULTI_PUT, REQ_PING, REQ_STATS]"
  by (simp add: cache_request.defs get_request.defs put_request.defs delete_request.defs
      range_scan_request.defs multi_get_request.defs multi_put_request.defs stats_request.defs
      CacheRequest_def GetRequest_def PutRequest_def DeleteRequest_def RangeScanRequest_def
      MultiGetRequest_def MultiPutRequest_def StatsRequest_def)

end
