(* ===== verification/Client_Tests.thy ===== *)
theory Client_Tests
  imports Complex_Main "HOL-Library.Multiset" Common_Types
begin

text \<open>
  The stress test of the C++ client: \<open>tests/cpp_client_test.cpp\<close> with its configuration, the metrics
  its threads share, its report and its \<open>main\<close>. The client has no implementation in the repository, so
  what its calls answer and how long they take are arguments, and so are the files and the YAML
  library. The three functional tests use members that the headers do not have
  (\<open>MultiLevelKey::parts\<close>, \<open>DataEntry::data\<close>); their results are an argument of \<open>main\<close>.
\<close>

section \<open>Configuration\<close>

record test_config =
  tc_servers :: "string list"
  tc_load_balancer :: string
  tc_timeout_ms :: int
  tc_retry_count :: int
  test_duration_seconds :: int
  concurrent_clients :: int
  data_size_bytes :: int
  key_prefix :: string
  stress_test_ops :: int
  stress_test_threads :: int
  tc_max_key_size :: int
  tc_max_value_size :: int

definition TestConfig :: test_config where
  "TestConfig = \<lparr>tc_servers = [], tc_load_balancer = [], tc_timeout_ms = 30000, tc_retry_count = 3,
     test_duration_seconds = 60, concurrent_clients = 10, data_size_bytes = 1024,
     key_prefix = ''test'', stress_test_ops = 10000, stress_test_threads = 50,
     tc_max_key_size = 256, tc_max_value_size = 4096\<rparr>"

text \<open>A document as the loader looks at it: what it finds under a key, and \<open>None\<close> inside for a value
  whose conversion throws. The first exception ends the loading and keeps what is already set.\<close>

record yaml =
  yaml_strings :: "string \<Rightarrow> string option list option"
  yaml_string :: "string \<Rightarrow> string option option"
  yaml_int :: "string \<Rightarrow> int option option"

type_synonym load_step = "test_config \<Rightarrow> test_config \<times> bool" \<comment> \<open>and whether it has thrown\<close>

fun push_servers :: "string option list \<Rightarrow> load_step" where
  "push_servers [] c = (c, False)"
| "push_servers (None # ss) c = (c, True)"
| "push_servers (Some s # ss) c = push_servers ss (c\<lparr>tc_servers := tc_servers c @ [s]\<rparr>)"

definition set_from :: "'v option option \<Rightarrow> ('v \<Rightarrow> test_config \<Rightarrow> test_config) \<Rightarrow> load_step" where
  "set_from found set_field c =
     (case found of None \<Rightarrow> (c, False) | Some None \<Rightarrow> (c, True) | Some (Some v) \<Rightarrow> (set_field v c, False))"

fun load_steps :: "load_step list \<Rightarrow> load_step" where
  "load_steps [] c = (c, False)"
| "load_steps (f # fs) c = (case f c of (c, True) \<Rightarrow> (c, True) | (c, False) \<Rightarrow> load_steps fs c)"

text \<open>The product for the timeout is taken to fit into an \<open>int\<close>.\<close>

definition yaml_steps :: "yaml \<Rightarrow> load_step list" where
  "yaml_steps y =
     [case yaml_strings y ''servers'' of None \<Rightarrow> (\<lambda>c. (c, False)) | Some ss \<Rightarrow> push_servers ss,
      set_from (yaml_string y ''load_balancer'') (\<lambda>v c. c\<lparr>tc_load_balancer := v\<rparr>),
      set_from (yaml_int y ''timeout'') (\<lambda>v c. c\<lparr>tc_timeout_ms := v * 1000\<rparr>),
      set_from (yaml_int y ''retry_count'') (\<lambda>v c. c\<lparr>tc_retry_count := v\<rparr>),
      set_from (yaml_int y ''test_duration_seconds'') (\<lambda>v c. c\<lparr>test_duration_seconds := v\<rparr>),
      set_from (yaml_int y ''concurrent_clients'') (\<lambda>v c. c\<lparr>concurrent_clients := v\<rparr>),
      set_from (yaml_int y ''data_size_bytes'') (\<lambda>v c. c\<lparr>data_size_bytes := v\<rparr>),
      set_from (yaml_string y ''key_prefix'') (\<lambda>v c. c\<lparr>key_prefix := v\<rparr>),
      set_from (yaml_int y ''stress_test_ops'') (\<lambda>v c. c\<lparr>stress_test_ops := v\<rparr>),
      set_from (yaml_int y ''stress_test_threads'') (\<lambda>v c. c\<lparr>stress_test_threads := v\<rparr>),
      set_from (yaml_int y ''max_key_size'') (\<lambda>v c. c\<lparr>tc_max_key_size := v\<rparr>),
      set_from (yaml_int y ''max_value_size'') (\<lambda>v c. c\<lparr>tc_max_value_size := v\<rparr>)]"

definition TestConfig_load :: "(string \<Rightarrow> yaml option) \<Rightarrow> string \<Rightarrow> test_config" where
  "TestConfig_load load_file filename =
     (case load_file filename of
        None \<Rightarrow> TestConfig
      | Some y \<Rightarrow> fst (load_steps (yaml_steps y) TestConfig))"

section \<open>Results and metrics\<close>

record test_result =
  test_name :: string
  test_success :: bool
  duration_ms :: real
  test_error :: string
  metrics :: "string \<rightharpoonup> string"

definition TestResult :: "string \<Rightarrow> bool \<Rightarrow> real \<Rightarrow> string \<Rightarrow> test_result" where
  "TestResult name success duration error = \<lparr>test_name = name, test_success = success,
     duration_ms = duration, test_error = error, metrics = (\<lambda>k. None)\<rparr>"

record stress_metrics =
  total_operations :: u64
  successful_operations :: u64
  failed_operations :: u64
  latencies_ms :: "real list"
  sm_start_time :: time_point
  sm_end_time :: time_point

definition StressTestMetrics :: "time_point \<Rightarrow> stress_metrics" where
  "StressTestMetrics start = \<lparr>total_operations = 0, successful_operations = 0, failed_operations = 0,
     latencies_ms = [], sm_start_time = start, sm_end_time = 0\<rparr>"

definition add_latency :: "real \<Rightarrow> stress_metrics \<Rightarrow> stress_metrics" where
  "add_latency latency_ms m = m\<lparr>latencies_ms := latencies_ms m @ [latency_ms]\<rparr>"

definition get_success_rate :: "stress_metrics \<Rightarrow> real" where
  "get_success_rate m =
     (if total_operations m = 0 then 0
      else real (unat (successful_operations m)) / real (unat (total_operations m)))"

definition get_qps :: "stress_metrics \<Rightarrow> real" where
  "get_qps m =
     (let duration = cxx_div (sm_end_time m - sm_start_time m) 1000000
      in if duration = 0 then 0 else real (unat (total_operations m)) * 1000 / of_int duration)"

text \<open>The sum of \<open>double\<close>s is rounded at every addition and depends on the order in which the threads
  entered the latencies; \<open>add\<close> stands for that addition. Elsewhere a \<open>double\<close> is a real number.\<close>

definition get_average_latency :: "(real \<Rightarrow> real \<Rightarrow> real) \<Rightarrow> stress_metrics \<Rightarrow> real" where
  "get_average_latency add m =
     (if latencies_ms m = [] then 0 else foldl add 0 (latencies_ms m) / real (length (latencies_ms m)))"

definition get_percentile_latency :: "real \<Rightarrow> stress_metrics \<Rightarrow> real" where
  "get_percentile_latency percentile m =
     (if latencies_ms m = [] then 0
      else let sorted_latencies = sort (latencies_ms m);
               index = nat \<lfloor>percentile * real (length sorted_latencies)\<rfloor>;
               index = (if index \<ge> length sorted_latencies then length sorted_latencies - 1 else index)
           in sorted_latencies ! index)"

section \<open>The workers\<close>

text \<open>What one call of the client comes to, and the steps its worker makes with it: the counters are
  atomic and \<open>add_latency\<close> locks, so the steps of several workers interleave.\<close>

datatype client_call = Responds status | Throws

datatype metric_step = Add_latency real | Count_total | Count_success | Count_failure

definition call_succeeds :: "client_call \<Rightarrow> bool" where
  "call_succeeds c = (case c of Responds st \<Rightarrow> st = OK | Throws \<Rightarrow> False)"

definition call_steps :: "client_call \<times> int \<Rightarrow> metric_step list" where
  "call_steps = (\<lambda>(c, latency).
     [Add_latency (of_int latency / 1000), Count_total,
      if call_succeeds c then Count_success else Count_failure])"

definition stress_test_worker :: "bool \<Rightarrow> int \<Rightarrow> (nat \<Rightarrow> client_call \<times> int) \<Rightarrow> metric_step list" where
  "stress_test_worker connects operation_count calls =
     (if \<not> connects then []
      else concat (map (\<lambda>i. call_steps (calls i)) [0..<nat operation_count]))"

fun metrics_step :: "metric_step \<Rightarrow> stress_metrics \<Rightarrow> stress_metrics" where
  "metrics_step (Add_latency l) m = add_latency l m"
| "metrics_step Count_total m = m\<lparr>total_operations := total_operations m + 1\<rparr>"
| "metrics_step Count_success m = m\<lparr>successful_operations := successful_operations m + 1\<rparr>"
| "metrics_step Count_failure m = m\<lparr>failed_operations := failed_operations m + 1\<rparr>"

text \<open>A schedule names the worker that makes the next step, until all have ended.\<close>

fun run_schedule :: "nat list \<Rightarrow> 'a list list \<Rightarrow> 'a list option" where
  "run_schedule [] ws = (if list_all (\<lambda>w. w = []) ws then Some [] else None)"
| "run_schedule (i # is) ws =
     (if i < length ws
      then case ws ! i of
             [] \<Rightarrow> None
           | x # xs \<Rightarrow> map_option (Cons x) (run_schedule is (ws[i := xs]))
      else None)"

definition stress_workers ::
    "test_config \<Rightarrow> (nat \<Rightarrow> bool) \<Rightarrow> (nat \<Rightarrow> nat \<Rightarrow> client_call \<times> int) \<Rightarrow> metric_step list list" where
  "stress_workers c connects calls =
     map (\<lambda>i. stress_test_worker (connects i) (cxx_div (stress_test_ops c) (stress_test_threads c)) (calls i))
       [0..<nat (stress_test_threads c)]"

definition stress_run ::
    "metric_step list list \<Rightarrow> nat list \<Rightarrow> time_point \<Rightarrow> time_point \<Rightarrow> stress_metrics option" where
  "stress_run workers schedule start now =
     map_option (\<lambda>steps. fold metrics_step steps (StressTestMetrics start)\<lparr>sm_end_time := now\<rparr>)
       (run_schedule schedule workers)"

text \<open>Without threads the number of operations of a worker is a division by zero. \<open>fmt\<close> is
  \<open>std::to_string\<close> of a \<open>double\<close>.\<close>

definition stress_result ::
    "(real \<Rightarrow> string) \<Rightarrow> (real \<Rightarrow> real \<Rightarrow> real) \<Rightarrow> stress_metrics \<Rightarrow> test_result" where
  "stress_result fmt add m =
     (TestResult ''stress_test'' (get_success_rate m \<ge> 95 / 100)
        (of_int (cxx_div (sm_end_time m - sm_start_time m) 1000000)) [])
     \<lparr>metrics := [''total_operations'' \<mapsto> to_string (unat (total_operations m)),
        ''successful_operations'' \<mapsto> to_string (unat (successful_operations m)),
        ''failed_operations'' \<mapsto> to_string (unat (failed_operations m)),
        ''success_rate'' \<mapsto> fmt (get_success_rate m),
        ''qps'' \<mapsto> fmt (get_qps m),
        ''avg_latency_ms'' \<mapsto> fmt (get_average_latency add m),
        ''p99_latency_ms'' \<mapsto> fmt (get_percentile_latency (99 / 100) m),
        ''p999_latency_ms'' \<mapsto> fmt (get_percentile_latency (999 / 1000) m)]\<rparr>"

text \<open>\<open>calls\<close> says what the calls answered in this run and how long they took, \<open>now\<close> when the last
  worker was joined; another schedule can come with other ones.\<close>

definition stress_test ::
    "(real \<Rightarrow> string) \<Rightarrow> (real \<Rightarrow> real \<Rightarrow> real) \<Rightarrow> test_config \<Rightarrow> (nat \<Rightarrow> bool) \<Rightarrow> (nat \<Rightarrow> nat \<Rightarrow> client_call \<times> int) \<Rightarrow> nat list
     \<Rightarrow> time_point \<Rightarrow> time_point \<Rightarrow> test_result option" where
  "stress_test fmt add c connects calls schedule start now =
     (if stress_test_threads c = 0 then None
      else map_option (stress_result fmt add) (stress_run (stress_workers c connects calls) schedule start now))"

section \<open>Report and main\<close>

text \<open>Tests, successes, failures and the rate; with no result at all the rate is not a number.\<close>

definition report_counts :: "test_result list \<Rightarrow> nat \<times> nat \<times> nat \<times> real option" where
  "report_counts results =
     (let successful_tests = length (filter test_success results)
      in (length results, successful_tests, length results - successful_tests,
          if results = [] then None else Some (real successful_tests / real (length results))))"

fun parse_test_args :: "string list \<Rightarrow> string \<times> string \<Rightarrow> string \<times> string" where
  "parse_test_args (a # v # rest) (config_file, output_file) =
     (if a = ''--config'' then parse_test_args rest (v, output_file)
      else if a = ''--output'' then parse_test_args rest (config_file, v)
      else parse_test_args (v # rest) (config_file, output_file))"
| "parse_test_args _ files = files"

text \<open>The exit code, and the results with the name of the report. \<open>run_tests\<close> is the construction of
  the client and the four tests, \<open>None\<close> when an exception leaves them.\<close>

definition test_main ::
    "(string \<Rightarrow> bool) \<Rightarrow> (string \<Rightarrow> yaml option) \<Rightarrow> (test_config \<Rightarrow> test_result list option) \<Rightarrow> string list
     \<Rightarrow> nat \<times> (test_result list \<times> string) option" where
  "test_main readable load_file run_tests args =
     (let (config_file, output_file) = parse_test_args args (''test_config.yaml'', ''cpp_test_report.md'');
          config = (if readable config_file then TestConfig_load load_file config_file
                    else TestConfig\<lparr>tc_servers := [''http://localhost:8081'', ''http://localhost:8082'',
                           ''http://localhost:8083''], tc_load_balancer := ''http://localhost:8080''\<rparr>)
      in case run_tests config of
           None \<Rightarrow> (1, None)
         | Some results \<Rightarrow> (0, Some (results, output_file)))"

section \<open>Schedules\<close>

lemma mset_update_head:
  "i < length ws \<Longrightarrow> ws ! i = x # xs \<Longrightarrow> mset (concat ws) = add_mset x (mset (concat (ws[i := xs])))"
  by (induction ws arbitrary: i) (auto split: nat.splits)

lemma run_schedule_mset: "run_schedule is ws = Some tr \<Longrightarrow> mset tr = mset (concat ws)"
proof (induction "is" ws arbitrary: tr rule: run_schedule.induct)
  case (1 ws)
  then have "tr = []" "concat ws = []" by (auto simp: list_all_iff split: if_splits)
  then show ?case by simp
next
  case (2 i "is" ws)
  then obtain x xs tr' where x: "i < length ws" "ws ! i = x # xs" "tr = x # tr'"
    "run_schedule is (ws[i := xs]) = Some tr'"
    by (auto split: if_splits list.splits)
  then show ?case using 2(1) [OF x(1,2,4)] mset_update_head [OF x(1,2)] by simp
qed

text \<open>A schedule that runs to the end always exists.\<close>

lemma run_schedule_exists: "\<exists>is tr. run_schedule is ws = Some tr"
proof (induction "length (concat ws)" arbitrary: ws)
  case 0
  then have "run_schedule [] ws = Some []" by (simp add: list_all_iff)
  then show ?case by blast
next
  case (Suc n)
  then have "concat ws \<noteq> []" by (cases "concat ws") simp_all
  then obtain w where "w \<in> set ws" "w \<noteq> []" by auto
  then obtain i x xs where i: "i < length ws" "ws ! i = x # xs" by (metis in_set_conv_nth neq_Nil_conv)
  from arg_cong [OF mset_update_head [OF i], of size] have "length (concat (ws[i := xs])) = n"
    using Suc(2) by simp
  from Suc(1) [OF this [symmetric]] obtain "is" tr where "run_schedule is (ws[i := xs]) = Some tr" by blast
  with i have "run_schedule (i # is) ws = Some (x # tr)" by simp
  then show ?case by blast
qed

section \<open>What the steps add up to\<close>

fun latency_of :: "metric_step \<Rightarrow> real list" where
  "latency_of (Add_latency l) = [l]"
| "latency_of _ = []"

lemma fold_metrics_counts:
  "total_operations (fold metrics_step tr m) = total_operations m + of_nat (count (mset tr) Count_total)"
  "successful_operations (fold metrics_step tr m)
     = successful_operations m + of_nat (count (mset tr) Count_success)"
  "failed_operations (fold metrics_step tr m) = failed_operations m + of_nat (count (mset tr) Count_failure)"
proof (induction tr arbitrary: m)
  case (Cons x tr)
  { case 1 show ?case by (cases x) (simp_all add: Cons add_latency_def) }
  { case 2 show ?case by (cases x) (simp_all add: Cons add_latency_def) }
  { case 3 show ?case by (cases x) (simp_all add: Cons add_latency_def) }
qed simp_all

lemma fold_metrics_latencies:
  "latencies_ms (fold metrics_step tr m) = latencies_ms m @ concat (map latency_of tr)"
  "sm_start_time (fold metrics_step tr m) = sm_start_time m"
proof (induction tr arbitrary: m)
  case (Cons x tr)
  { case 1 show ?case by (cases x) (simp_all add: Cons add_latency_def) }
  { case 2 show ?case by (cases x) (simp_all add: Cons add_latency_def) }
qed simp_all

lemma mset_latencies: "mset (concat (map latency_of tr)) = sum_mset (image_mset (mset \<circ> latency_of) (mset tr))"
  by (induction tr) simp_all

lemma metrics_same_mset:
  assumes "mset tr = mset tr'"
  shows "total_operations (fold metrics_step tr m) = total_operations (fold metrics_step tr' m)"
    "successful_operations (fold metrics_step tr m) = successful_operations (fold metrics_step tr' m)"
    "failed_operations (fold metrics_step tr m) = failed_operations (fold metrics_step tr' m)"
    "mset (latencies_ms (fold metrics_step tr m)) = mset (latencies_ms (fold metrics_step tr' m))"
  using assms by (simp_all add: fold_metrics_counts fold_metrics_latencies mset_latencies)

lemma sort_same: "mset xs = mset ys \<Longrightarrow> sort xs = sort (ys :: 'a::linorder list)"
  by (rule properties_for_sort) simp_all

text \<open>For given answers and latencies of the calls, the counters, the success rate, the latencies as a
  multiset and their percentiles are the same in every schedule. (The average is not: it adds the
  latencies in the order of their entry.)\<close>

theorem stress_counts_any_schedule:
  assumes "stress_run ws sch start now = Some m" and "stress_run ws sch' start now' = Some m'"
  shows "total_operations m = total_operations m'" and "successful_operations m = successful_operations m'"
    and "failed_operations m = failed_operations m'" and "get_success_rate m = get_success_rate m'"
    and "mset (latencies_ms m) = mset (latencies_ms m')"
    and "get_percentile_latency p m = get_percentile_latency p m'"
proof -
  from assms obtain tr tr' where t: "run_schedule sch ws = Some tr" "run_schedule sch' ws = Some tr'"
    and m: "m = fold metrics_step tr (StressTestMetrics start)\<lparr>sm_end_time := now\<rparr>"
      "m' = fold metrics_step tr' (StressTestMetrics start)\<lparr>sm_end_time := now'\<rparr>"
    by (auto simp: stress_run_def)
  from t have "mset tr = mset tr'" by (simp add: run_schedule_mset)
  note same = metrics_same_mset [OF this]
  then show c: "total_operations m = total_operations m'" "successful_operations m = successful_operations m'"
    "failed_operations m = failed_operations m'" by (simp_all add: m)
  show l: "mset (latencies_ms m) = mset (latencies_ms m')" using same(4) by (simp add: m)
  show "get_success_rate m = get_success_rate m'" using c by (simp add: get_success_rate_def)
  have "latencies_ms m = [] \<longleftrightarrow> latencies_ms m' = []" using l by (metis mset_zero_iff)
  then show "get_percentile_latency p m = get_percentile_latency p m'"
    using sort_same [OF l] mset_eq_length [OF l] by (simp add: get_percentile_latency_def)
qed

section \<open>What is counted\<close>

text \<open>The calls of a worker that count, and those that succeed.\<close>

lemma worker_counts:
  "count (mset (stress_test_worker b n calls)) Count_total = (if b then nat n else 0)"
  "count (mset (stress_test_worker b n calls)) Count_success
     = (if b then length (filter (\<lambda>i. call_succeeds (fst (calls i))) [0..<nat n]) else 0)"
  "count (mset (stress_test_worker b n calls)) Count_failure
     = (if b then length (filter (\<lambda>i. \<not> call_succeeds (fst (calls i))) [0..<nat n]) else 0)"
proof -
  have "count (mset (concat (map (\<lambda>i. call_steps (calls i)) is))) Count_total = length is"
    "count (mset (concat (map (\<lambda>i. call_steps (calls i)) is))) Count_success
      = length (filter (\<lambda>i. call_succeeds (fst (calls i))) is)"
    "count (mset (concat (map (\<lambda>i. call_steps (calls i)) is))) Count_failure
      = length (filter (\<lambda>i. \<not> call_succeeds (fst (calls i))) is)" for "is"
    by (induction "is") (auto simp: call_steps_def split_beta)
  then show
    "count (mset (stress_test_worker b n calls)) Count_total = (if b then nat n else 0)"
    "count (mset (stress_test_worker b n calls)) Count_success
       = (if b then length (filter (\<lambda>i. call_succeeds (fst (calls i))) [0..<nat n]) else 0)"
    "count (mset (stress_test_worker b n calls)) Count_failure
       = (if b then length (filter (\<lambda>i. \<not> call_succeeds (fst (calls i))) [0..<nat n]) else 0)"
    by (simp_all add: stress_test_worker_def)
qed

lemma count_concat: "count (mset (concat ws)) x = sum_list (map (\<lambda>w. count (mset w) x) ws)"
  by (induction ws) simp_all

lemma sum_list_const: "(\<And>x. x \<in> set xs \<Longrightarrow> f x = (if P x then k else 0)) \<Longrightarrow>
    sum_list (map f xs) = length (filter P xs) * (k :: nat)"
  by (induction xs) auto

text \<open>A worker that cannot connect leaves no trace in the metrics.\<close>

lemma stress_run_counts:
  fixes c connects calls
  defines "per_worker \<equiv> nat (cxx_div (stress_test_ops c) (stress_test_threads c))"
    and "workers \<equiv> filter connects [0..<nat (stress_test_threads c)]"
  assumes run: "stress_run (stress_workers c connects calls) schedule start now = Some m"
    and ok: "\<And>i j. connects i \<Longrightarrow> call_succeeds (fst (calls i j))"
  shows "total_operations m = of_nat (length workers * per_worker)"
    and "successful_operations m = of_nat (length workers * per_worker)"
proof -
  let ?ws = "stress_workers c connects calls"
  from run obtain tr where tr: "run_schedule schedule ?ws = Some tr"
    and m: "m = fold metrics_step tr (StressTestMetrics start)\<lparr>sm_end_time := now\<rparr>"
    by (auto simp: stress_run_def)
  have c: "count (mset tr) x = sum_list (map (\<lambda>w. count (mset w) x) ?ws)" for x
    using run_schedule_mset [OF tr] count_concat by metis
  have "count (mset tr) Count_total = length workers * per_worker"
    unfolding c workers_def per_worker_def
    by (simp only: stress_workers_def map_map o_def) (rule sum_list_const, simp add: worker_counts)
  moreover have "count (mset tr) Count_success = length workers * per_worker"
    unfolding c workers_def per_worker_def
    by (simp only: stress_workers_def map_map o_def) (rule sum_list_const, simp add: worker_counts ok)
  ultimately show "total_operations m = of_nat (length workers * per_worker)"
    "successful_operations m = of_nat (length workers * per_worker)"
    by (simp_all add: m fold_metrics_counts StressTestMetrics_def)
qed

text \<open>The test passes as soon as one worker connects and no call fails, however many workers could not
  connect and made none of their calls.\<close>

theorem stress_passes_without_connections:
  assumes "stress_test fmt add c connects calls schedule start now = Some r"
    and "\<And>i j. connects i \<Longrightarrow> call_succeeds (fst (calls i j))"
    and "connects k" and "k < nat (stress_test_threads c)"
    and "0 < stress_test_ops c" and "stress_test_threads c \<le> stress_test_ops c"
    and "stress_test_ops c < 2 ^ 31"
  shows "test_success r"
proof -
  let ?n = "nat (cxx_div (stress_test_ops c) (stress_test_threads c))"
  let ?w = "filter connects [0..<nat (stress_test_threads c)]"
  from assms(1) obtain m where m: "stress_run (stress_workers c connects calls) schedule start now = Some m"
    "r = stress_result fmt add m"
    by (auto simp: stress_test_def split: if_splits)
  have t: "0 < stress_test_threads c" using assms(4) by simp
  have n: "?n = nat (stress_test_ops c) div nat (stress_test_threads c)"
    using t assms(5) by (simp add: cxx_div_def nat_div_distrib)
  have "k \<in> set ?w" using assms(3,4) by simp
  then have w: "0 < length ?w" by (cases ?w) auto
  have pos: "0 < ?n" unfolding n using t assms(6) by (intro div_greater_zero_iff [THEN iffD2]) simp
  have "length ?w \<le> nat (stress_test_threads c)"
    using length_filter_le [of connects "[0..<nat (stress_test_threads c)]"] by simp
  then have "length ?w * ?n \<le> nat (stress_test_threads c) * ?n" by simp
  then have "length ?w * ?n \<le> nat (stress_test_ops c)"
    unfolding n by (metis div_times_less_eq_dividend mult.commute order_trans)
  moreover have "nat (stress_test_ops c) < 2 ^ 64" using assms(5,7) by simp
  ultimately have "length ?w * ?n < 2 ^ 64" by (rule le_less_trans)
  then have u: "unat (of_nat (length ?w * ?n) :: u64) = length ?w * ?n" "0 < length ?w * ?n"
    using w pos by (simp_all add: unat_of_nat del: of_nat_mult)
  then have "total_operations m \<noteq> 0" "get_success_rate m = 1"
    using stress_run_counts [OF m(1) assms(2)] by (auto simp: get_success_rate_def)
  then show ?thesis by (simp add: m(2) stress_result_def TestResult_def)
qed


section \<open>Percentiles\<close>

lemma sorted_up_to:
  assumes "sorted xs" and "i < length xs"
  shows "Suc i \<le> length (filter (\<lambda>x. x \<le> xs ! i) xs)"
proof -
  have "x \<le> xs ! i" if "x \<in> set (take (Suc i) xs)" for x
    using that assms by (auto simp: in_set_conv_nth less_Suc_eq_le intro: sorted_nth_mono)
  then have "filter (\<lambda>x. x \<le> xs ! i) (take (Suc i) xs) = take (Suc i) xs" by (simp add: filter_id_conv)
  then have "length (filter (\<lambda>x. x \<le> xs ! i) (take (Suc i) xs @ drop (Suc i) xs)) \<ge> Suc i"
    unfolding filter_append using assms(2) by simp
  then show ?thesis by simp
qed

text \<open>The latency at a percentile is one that was measured, and at least that share of the measured
  latencies is not above it.\<close>

theorem percentile_latency_covers:
  assumes "latencies_ms m \<noteq> []" and "0 \<le> p" and "p \<le> 1"
  shows "get_percentile_latency p m \<in> set (latencies_ms m)"
    and "p * real (length (latencies_ms m))
      \<le> real (length (filter (\<lambda>x. x \<le> get_percentile_latency p m) (latencies_ms m)))"
proof -
  let ?xs = "sort (latencies_ms m)" and ?n = "length (latencies_ms m)"
  define i where "i = (if nat \<lfloor>p * real ?n\<rfloor> \<ge> ?n then ?n - 1 else nat \<lfloor>p * real ?n\<rfloor>)"
  have v: "get_percentile_latency p m = ?xs ! i"
    using assms(1) by (simp add: get_percentile_latency_def i_def)
  have i: "i < length ?xs" using assms(1) by (simp add: i_def)
  then show "get_percentile_latency p m \<in> set (latencies_ms m)" unfolding v using nth_mem [OF i] by simp
  have all: "p * real ?n \<le> real ?n" using assms(3) by (simp add: mult_left_le_one_le mult.commute assms(2))
  have next_one: "p * real ?n < real (nat \<lfloor>p * real ?n\<rfloor>) + 1" using assms(2) by (simp add: floor_less_iff)
  have "p * real ?n \<le> real (Suc i)"
  proof (cases "nat \<lfloor>p * real ?n\<rfloor> \<ge> ?n")
    case True
    then have "Suc i = ?n" using assms(1) by (simp add: i_def)
    with all show ?thesis by (simp only:)
  next
    case False
    with next_one show ?thesis by (simp add: i_def)
  qed
  moreover have "Suc i \<le> length (filter (\<lambda>x. x \<le> ?xs ! i) ?xs)" using sorted_up_to [OF sorted_sort i] .
  then have "Suc i \<le> length (filter (\<lambda>x. x \<le> ?xs ! i) (latencies_ms m))"
    by (simp add: filter_sort)
  ultimately show "p * real ?n \<le> real (length (filter (\<lambda>x. x \<le> get_percentile_latency p m) (latencies_ms m)))"
    unfolding v by linarith
qed

section \<open>Loading\<close>

text \<open>A timeout that does not convert ends the loading: everything after it keeps its default.\<close>

theorem bad_timeout_keeps_defaults:
  assumes "load_file f = Some y" and "yaml_strings y ''servers'' = None"
    and "yaml_string y ''load_balancer'' = None" and "yaml_int y ''timeout'' = Some None"
  shows "TestConfig_load load_file f = TestConfig"
  using assms by (simp add: TestConfig_load_def yaml_steps_def set_from_def)

end
