(* ===== verification/Spec2Isabelle.thy ===== *)
theory Spec2Isabelle
  imports Storage_Properties Engine_Runs Durable_Runs Tx_Properties Tx_Runs Cluster_Properties Time_Properties
    Time_Runs Hotspot_Properties Hotspot_Numbers Server_Properties Component_Stops Declared_Messages Client_Tests
begin

text \<open>
  \<^bold>\<open>A verification library for the distributed cache\<close>

  \<^bold>\<open>The program.\<close> A cache server in C++17 whose parts are libraries next to each other. The storage
  engine is an LSM tree: a memtable takes the writes, a write-ahead log is to make them durable, and
  sorted tables on disk hold what was flushed. The transaction manager runs two-phase commit over a
  lock manager with deadlock detection. The split brain detector follows heartbeats, finds network
  partitions and decides quorums. The time service estimates clock offsets and hands out hybrid
  logical timestamps. The hotspot manager watches the access counts of keys. The server object brings
  the components up and down, and \<open>main\<close> reads the command line. At this commit the server creates
  none of the components; each of them is complete in itself and is modelled as such.

  \<^bold>\<open>Theories and sources.\<close> Paths are under \<open>src/\<close> of the repository, headers under \<open>include/cache/\<close>.
  \<^item> \<open>Prelude\<close>: bytes and words, sorted association lists as \<open>std::map\<close>, vectors searched by
    bisection, operations under a mutex (\<open>guarded\<close>, \<open>relock\<close>) and the contract \<open>mutex_class\<close> that every class
    with a mutex interprets. \<open>Text_Numbers\<close>: \<open>std::stoull\<close>, \<open>std::stoi\<close>, numbers in streams.
  \<^item> \<open>Common_Types\<close>: \<open>common/types.h\<close>. \<open>Crc32c\<close>: \<open>crc32c.cpp\<close>.
  \<^item> \<open>Table_Layer\<close>: what a layer of the engine promises to its readers. \<open>Mem_Table\<close>:
    \<open>storage/memtable.cpp\<close>. \<open>Ss_Table\<close>: \<open>storage/sstable.cpp\<close>. \<open>Wal\<close>: \<open>storage/wal.cpp\<close>.
    \<open>File_System\<close>: the files and streams they use. \<open>Lsm_Tree\<close>: \<open>storage/lsm_tree.cpp\<close> and the engine
    factory. \<open>Storage_Properties\<close> holds what is proved of the engine as a whole, \<open>Engine_Runs\<close> what
    is proved of whole runs of client calls: \<open>call_simulation\<close> is the contract of a component that
    follows an abstract machine call by call, interpreted for the engine. \<open>Durability\<close> and
    \<open>Durable_Runs\<close> go on over several lifetimes: \<open>close\<close>, the destructor, crashes and new engines on
    the same directory.
  \<^item> \<open>Wait_Graph\<close>, \<open>Lock_Manager\<close>, \<open>Transaction_Manager\<close>: \<open>transaction/transaction_manager.cpp\<close>, with
    \<open>Tx_Properties\<close>, and \<open>Tx_Runs\<close> for whole runs of the transaction manager. \<open>lock_service\<close> is what
    a transaction manager relies on, interpreted for the lock manager.
  \<^item> \<open>Graph_Search\<close>, \<open>Split_Brain\<close>: \<open>cluster/split_brain_detector.cpp\<close>, with \<open>Cluster_Properties\<close>. The
    search of \<open>Graph_Search\<close> is the loop both \<open>find_connected_components\<close> and
    \<open>find_network_partitions\<close> run; \<open>component_split\<close> is its contract, interpreted for both.
  \<^item> \<open>Hybrid_Clock\<close>, \<open>Time_Sync\<close>: \<open>time/time_sync.cpp\<close>, with \<open>Time_Properties\<close> and, for whole runs of
    the service, \<open>Time_Runs\<close>. \<open>stamp_source\<close> is the
    contract of whatever hands out timestamps, interpreted for the service and for
    \<open>TimestampOrdering\<close>.
  \<^item> \<open>Hotspot\<close>: \<open>hotspot/hotspot_manager.cpp\<close>, with \<open>Hotspot_Properties\<close> for the manager and
    \<open>Hotspot_Numbers\<close> for the statistics of \<open>hotspot_utils\<close>.
  \<^item> \<open>Thread_Stop\<close>: threads that loop until a flag is set, interleaved under one mutex, with the
    contracts \<open>stop_discipline\<close> and \<open>stop_under_lock\<close> of the calls that end them; \<open>Component_Stops\<close>:
    the calls and the threads of the five components that have any, with their interpretations.
  \<^item> \<open>Declared_Types\<close>, \<open>Declared_Messages\<close>: the structures of \<open>raft.h\<close>, \<open>shard_manager.h\<close>,
    \<open>cluster_manager.h\<close>, \<open>auth_manager.h\<close>, \<open>monitor.h\<close> and \<open>cache_service.h\<close>.
  \<^item> \<open>Cache_Server\<close>: \<open>cache_server.cpp\<close>. \<open>Server_Main\<close>: \<open>main.cpp\<close>. Both with \<open>Server_Properties\<close>.
  \<^item> \<open>Client_Tests\<close>: the stress test of \<open>tests/cpp_client_test.cpp\<close>.

  \<^bold>\<open>State and operations.\<close> Each class is a record with the fields of the class, and each method a
  function of the same name (with a prefix such as \<open>lsm_\<close>, \<open>wal_\<close>, \<open>sb_\<close>, \<open>ts_\<close>, \<open>hm_\<close>, \<open>srv_\<close> where several
  classes share one) that returns its result and the new record. A method that locks a mutex is an
  \<open>op\<close>: its value is \<open>None\<close> when the calling thread would wait for ever or runs into undefined
  behaviour. No mutex is recursive. A thread that locks a \<open>std::mutex\<close> it already holds waits for
  ever; on a \<open>std::shared_mutex\<close> the lock of the platform (glibc with libstdc++ on Linux) reports
  \<open>EDEADLK\<close>, which is thrown as \<open>std::system_error\<close>. Most classes have a \<open>std::shared_mutex\<close>, so a
  call that can reach such a place has an \<open>attempt\<close> as its result (\<open>Raises\<close> is the exception, with
  the state at the throw), \<open>relock\<close> marks the place, and the loops of the threads catch it
  (\<open>caught\<close>). Where the code lets the mutex go within a method, other calls come in: the method is
  split into the steps of a run, or takes what happens there as an argument (\<open>interleaving\<close>). A
  shared lock is treated as an
  exclusive one where the section under it is a single step. Words have their width and wrap;
  counters that only grow and sizes are natural numbers. A time point is its count of nanoseconds, and
  every reading of the clock is an argument. A \<open>std::map\<close> is a sorted association list; a
  \<open>std::unordered_map\<close> is an association list whose order stands for one iteration order, and no
  property depends on it. Doubles are real numbers; an operation with no finite result is \<open>None\<close>.
  Background threads are modelled by one pass of their loop, and in \<open>Component_Stops\<close> by what their
  turns do with the mutex and the stop flag. Event handlers are logs of their calls:
  they are assumed not to call back.

  \<^bold>\<open>What the lemmas show.\<close>
  \<^item> Storage: a read returns the first live entry from the newest layer on; a write is read back; the
    memtable refines a map; a flush keeps every answer; a log or a table that was written is read
    back byte by byte; damage of a log record is found; the checksum is CRC-32C. Every run of puts,
    removals, reads, scans and flushes returns with the answers of a two-level store, and those of a
    plain map unless it deletes what was flushed before. Over several lifetimes, with
    compaction and the background thread, an engine follows an abstract store that says what is kept;
    without compaction, with flushes that can be written and keys without a colon, closing and
    reopening keeps everything that was written, a crash loses exactly what was not flushed, and no
    table file is ever lost. They also show where the code departs from
    this: a removal uncovers older values, compaction drops the two oldest tables until the engine is
    reopened, writes after opening are not logged, \<open>close\<close> hides that its last flush failed, damaged
    tables are passed over, conditional writes throw, and after a crash inside a record the second
    attempt to open the engine loses the log.
  \<^item> Transactions: no two incompatible locks are ever held together, in every interleaving of calls;
    the search of the wait-for graph finds a cycle exactly when there is one; how a commit ends;
    in every run of the transaction manager locking is strictly two-phase, so writers are isolated,
    and \<open>commit_transaction\<close> only ever succeeds for transactions that hold no lock; a blocked
    acquisition throws or times out while the lock is there, the commit of a transaction with
    locks throws, and the commit of a prepared transaction does not succeed.
  \<^item> Cluster: majority quorums intersect, and exactly when those of the other strategies do; a recorded
    partition stays until it is merged by force; the searches for components and
    partitions end and compute the classes of reachability; a pass of the detector isolates exactly
    the minority; the bookkeeping of the detector is kept in every run.
  \<^item> Time: timestamps increase; when a merged timestamp exceeds what was received; the median offset
    withstands a minority of outliers; NTP timestamps are read back; in every run, with
    attempts to synchronise in progress, the offsets are in order and the quality of the
    synchronisation is at least 0, is 0 exactly when no attempt has begun or none is through, and is
    at most 1 unless attempts begin while it is computed.
  \<^item> Hotspots: a pass of the detection thread stores only the first hotspot it detects, because the
    recording of its event throws; what the other threads and calls do with it; bounds of the
    statistics and what the power law test decides.
  \<^item> Server: starting, stopping and restarting never end in \<open>std::terminate\<close>; components come up and go
    down in opposite orders; what a port on the command line does.
  \<^item> Stress test: for given answers of the calls, its counters and percentiles do not depend on the
    interleaving of its threads; it passes although most of them could not connect.
  \<^item> Threads: \<open>close\<close> of the engine returns in every schedule once it has set its flag; the four \<open>stop\<close>
    calls that join under the mutex return exactly when no thread they join has still to lock it, and
    each can hang.

  \<^bold>\<open>Loops.\<close> Loops over data are structural recursions. The replay of the log, the scan of a table and
  the searches of graphs terminate by measures given with their definitions (bytes left, nodes not
  visited); no definition runs on fuel. \<open>wait_for_timestamp\<close> recurses over the list of the clock readings
  it makes.

  \<^bold>\<open>Not modelled.\<close> The classes of \<open>raft.h\<close>, \<open>shard_manager.h\<close>, \<open>cluster_manager.h\<close>,
  \<open>auth_manager.h\<close>, \<open>monitor.h\<close> and \<open>cache_service.h\<close> are declared without an implementation in the
  repository; only their data is modelled (the configuration record of \<open>cluster_manager.h\<close> with the
  server's). The access recorder of the hotspot
  manager is declared and not defined: it is a parameter, and so is the client of the test program,
  whose functional tests use members that the headers do not have. The destructors are modelled where
  they do something. The files under \<open>build/\<close> are written by
  CMake. Data races of fields that the code reads without the mutex, the rounding of doubles (only the
  sum behind the average latency of the stress test is taken with an addition that is a parameter),
  and what the program only prints (usage text, start-up report) are left out.
\<close>

end
